(* ===== verification/Prelude.thy ===== *)
theory Prelude
  imports "HOL-Library.Word" "HOL-Library.Monad_Syntax"
begin

text \<open>
  Shared vocabulary of the development: the C machine model the components use (bytes,
  sizes, heap blocks, allocation, the string and memory functions of the C library that
  the sources call), the generic lemmas on lists and options, the collections of rewrite
  rules, and the locale in which invariants of event-driven components are lifted to all
  reachable states.

  Conventions used throughout.
  \<^item> A C function that can run into undefined behaviour (a null dereference, an access
    outside its block, a use after free, a division by zero) or that may not return is
    modelled by a function into \<open>option\<close>: \<open>None\<close> is that case. Error codes that the C
    code returns are ordinary values.
  \<^item> \<open>size_t\<close> values are natural numbers below \<open>2 ^ 64\<close>; the operations that can wrap
    around are written out with \<open>sz_sub\<close> or \<open>mod 2 ^ 64\<close>. Counters declared
    \<open>uint64_t\<close> and hash values declared \<open>uint32_t\<close> are machine words.
  \<^item> An environment answer (the result of a system call, of \<open>malloc\<close>, of the resolver,
    the current time) is an argument of the operation that asks for it, so every theorem
    quantifies over all answers.
\<close>

section \<open>Collections of rewrite rules\<close>

named_theorems buffer_simps \<open>effects of the buffer operations on a well-formed buffer\<close>
named_theorems list_simps \<open>effects of the growable list operations\<close>
named_theorems client_simps \<open>effects of the network client operations\<close>
named_theorems frame_simps \<open>fields an operation leaves alone\<close>

section \<open>Machine integers and bytes\<close>

type_synonym bytes = "char list"
type_synonym u32 = "32 word"
type_synonym u64 = "64 word"

abbreviation NUL :: char where "NUL \<equiv> CHR 0x00"
abbreviation NL :: char where "NL \<equiv> CHR 0x0A"

text \<open>Subtraction of \<open>size_t\<close> values wraps around modulo \<open>2 ^ 64\<close>.\<close>

definition sz_sub :: "nat \<Rightarrow> nat \<Rightarrow> nat" where
  "sz_sub a b = (a + 2 ^ 64 - b) mod 2 ^ 64"

lemma sz_sub_le [simp]: "b \<le> a \<Longrightarrow> a < 2 ^ 64 \<Longrightarrow> sz_sub a b = a - b"
  by (simp add: sz_sub_def mod_if)

lemma sz_sub_wraps: "a < b \<Longrightarrow> b < 2 ^ 64 \<Longrightarrow> sz_sub a b = 2 ^ 64 - (b - a)"
  by (simp add: sz_sub_def)

text \<open>A small number keeps its value when it is read as a signed integer.\<close>

lemma sint_of_nat_u32:
  assumes "n < 2 ^ 31"
  shows "sint (of_nat n :: u32) = int n"
proof -
  have "unat (of_nat n :: u32) = n" using assms by (simp add: unat_of_nat)
  then have "uint (of_nat n :: u32) = int n" by (simp only: uint_nat)
  then have "sint (of_nat n :: u32) = signed_take_bit 31 (int n)"
    by (simp add: sint_uint)
  also have "\<dots> = int n" using assms by (intro signed_take_bit_int_eq_self) simp_all
  finally show ?thesis .
qed

section \<open>Heap blocks\<close>

text \<open>
  A pointer to the start of a heap block: null, dangling after \<open>free\<close>, or a live block
  with its bytes. Reading and writing outside a live block, and freeing a block twice,
  are undefined.
\<close>

datatype mblock = NullPtr | Freed | Block bytes

definition mload :: "mblock \<Rightarrow> nat \<Rightarrow> nat \<Rightarrow> bytes option" where
  "mload p off n =
     (case p of
        Block m \<Rightarrow> if off + n \<le> length m then Some (take n (drop off m)) else None
      | _ \<Rightarrow> None)"

definition mstore :: "mblock \<Rightarrow> nat \<Rightarrow> bytes \<Rightarrow> mblock option" where
  "mstore p off d =
     (case p of
        Block m \<Rightarrow>
          if off + length d \<le> length m
          then Some (Block (take off m @ d @ drop (off + length d) m)) else None
      | _ \<Rightarrow> None)"

fun mfree :: "mblock \<Rightarrow> mblock option" where
  "mfree NullPtr = Some NullPtr"
| "mfree Freed = None"
| "mfree (Block m) = Some Freed"

text \<open>
  The allocator is the environment's: for each request it either refuses or returns a
  block with arbitrary old contents, here a list of leftover bytes that is cut or padded
  to the requested length. Requests of \<open>2 ^ 63\<close> bytes and more are always refused (no
  object is larger than \<open>PTRDIFF_MAX\<close>).
\<close>

type_synonym allocator = "nat \<Rightarrow> bytes option"

definition malloc :: "allocator \<Rightarrow> nat \<Rightarrow> bytes option" where
  "malloc A n =
     (case A n of
        None \<Rightarrow> None
      | Some junk \<Rightarrow> if n < 2 ^ 63 then Some (take n (junk @ replicate n NUL)) else None)"

lemma malloc_SomeD: "malloc A n = Some m \<Longrightarrow> length m = n \<and> n < 2 ^ 63"
  by (auto simp: malloc_def split: option.splits if_splits)

lemma malloc_big [simp]: "2 ^ 63 \<le> n \<Longrightarrow> malloc A n = None"
  by (auto simp: malloc_def split: option.splits)

text \<open>An allocator that refuses nothing.\<close>

lemma generous_malloc [simp]: "malloc (\<lambda>_. Some []) n = None \<longleftrightarrow> \<not> n < 2 ^ 63"
  by (simp add: malloc_def)

text \<open>\<open>realloc\<close>: a refusal is a null pointer and leaves the old block alone.\<close>

definition mrealloc :: "allocator \<Rightarrow> mblock \<Rightarrow> nat \<Rightarrow> mblock option" where
  "mrealloc A p n =
     (case p of
        NullPtr \<Rightarrow> Some (case malloc A n of None \<Rightarrow> NullPtr | Some m \<Rightarrow> Block m)
      | Freed \<Rightarrow> None
      | Block old \<Rightarrow> Some (case malloc A n of None \<Rightarrow> NullPtr | Some m \<Rightarrow> Block (take n old @ drop (length old) m)))"

lemma mrealloc_Block:
  "mrealloc A (Block b) n = Some NullPtr \<and> malloc A n = None \<or>
   (\<exists>b'. mrealloc A (Block b) n = Some (Block b') \<and> length b' = n \<and> take (min n (length b)) b' = take n b)"
proof (cases "malloc A n")
  case (Some m)
  then show ?thesis using malloc_SomeD [OF Some] by (simp add: mrealloc_def min_def)
qed (simp add: mrealloc_def)

lemma mload_Block [simp]:
  "off + n \<le> length m \<Longrightarrow> mload (Block m) off n = Some (take n (drop off m))"
  by (simp add: mload_def)

lemma mload_SomeD:
  "mload p off n = Some d \<Longrightarrow> \<exists>m. p = Block m \<and> off + n \<le> length m \<and> d = take n (drop off m)"
  by (auto simp: mload_def split: mblock.splits if_splits)

lemma mstore_Block [simp]:
  "off + length d \<le> length m \<Longrightarrow>
   mstore (Block m) off d = Some (Block (take off m @ d @ drop (off + length d) m))"
  by (simp add: mstore_def)

lemma mstore_SomeD:
  "mstore p off d = Some q \<Longrightarrow>
   \<exists>m. p = Block m \<and> off + length d \<le> length m \<and>
       q = Block (take off m @ d @ drop (off + length d) m)"
  by (auto simp: mstore_def split: mblock.splits if_splits)

section \<open>Searching bytes\<close>

text \<open>The position of the first occurrence of a byte.\<close>

fun index_of :: "char \<Rightarrow> bytes \<Rightarrow> nat option" where
  "index_of c [] = None"
| "index_of c (x # xs) = (if x = c then Some 0 else map_option Suc (index_of c xs))"

lemma index_of_None_iff [simp]: "index_of c xs = None \<longleftrightarrow> c \<notin> set xs"
  by (induction xs) auto

lemma index_of_notin [simp]: "c \<notin> set xs \<Longrightarrow> index_of c xs = None"
  by simp

lemma index_of_Some_iff:
  "index_of c xs = Some i \<longleftrightarrow> i < length xs \<and> xs ! i = c \<and> c \<notin> set (take i xs)"
proof (induction xs arbitrary: i)
  case Nil
  then show ?case by simp
next
  case (Cons x xs)
  then show ?case by (cases i) auto
qed

lemma index_of_SomeD: "index_of c xs = Some i \<Longrightarrow> c \<in> set xs"
  by (metis index_of_None_iff option.distinct(1))

lemma index_of_less: "index_of c xs = Some i \<Longrightarrow> i < length xs"
  by (simp add: index_of_Some_iff)

lemma index_of_split [simp]: "c \<notin> set xs \<Longrightarrow> index_of c (xs @ c # ys) = Some (length xs)"
  by (induction xs) auto

lemma index_of_SomeE:
  assumes "index_of c xs = Some i"
  obtains ys zs where "xs = ys @ c # zs" "length ys = i" "c \<notin> set ys"
proof
  from assms show "xs = take i xs @ c # drop (Suc i) xs"
    by (auto simp: index_of_Some_iff id_take_nth_drop)
  from assms show "length (take i xs) = i" "c \<notin> set (take i xs)"
    by (auto simp: index_of_Some_iff)
qed

text \<open>Cutting a byte sequence at the first occurrence of a separator.\<close>

definition cut_at :: "char \<Rightarrow> bytes \<Rightarrow> (bytes \<times> bytes) option" where
  "cut_at c xs = (case index_of c xs of None \<Rightarrow> None | Some i \<Rightarrow> Some (take i xs, drop (Suc i) xs))"

lemma cut_at_None [simp]: "cut_at c xs = None \<longleftrightarrow> c \<notin> set xs"
  by (auto simp: cut_at_def split: option.splits dest: index_of_SomeD)

lemma cut_at_notin [simp]: "c \<notin> set xs \<Longrightarrow> cut_at c xs = None"
  by simp

lemma cut_at_split [simp]: "c \<notin> set a \<Longrightarrow> cut_at c (a @ c # b) = Some (a, b)"
  by (simp add: cut_at_def)

lemma cut_at_Some: "cut_at c xs = Some (a, b) \<longleftrightarrow> xs = a @ c # b \<and> c \<notin> set a"
proof
  assume h: "cut_at c xs = Some (a, b)"
  then obtain i where i: "index_of c xs = Some i" "a = take i xs" "b = drop (Suc i) xs"
    by (auto simp: cut_at_def split: option.splits)
  from i(1) obtain ys zs where "xs = ys @ c # zs" "length ys = i" "c \<notin> set ys"
    by (rule index_of_SomeE)
  with i show "xs = a @ c # b \<and> c \<notin> set a" by simp
qed auto

text \<open>
  \<open>memchr(m, c, n)\<close> reads at most \<open>n\<close> bytes and stops at the first match. Reading past the
  end of the block before a match is found is undefined.
\<close>

fun memchr :: "bytes \<Rightarrow> char \<Rightarrow> nat \<Rightarrow> nat option option" where
  "memchr m c 0 = Some None"
| "memchr [] c (Suc n) = None"
| "memchr (x # m) c (Suc n) =
     (if x = c then Some (Some 0) else map_option (map_option Suc) (memchr m c n))"

lemma memchr_in_bounds [simp]:
  "n \<le> length m \<Longrightarrow> memchr m c n = Some (index_of c (take n m))"
  by (induction m c n rule: memchr.induct) (auto simp: map_option.compositionality)

lemma memchr_found: "index_of c m = Some i \<Longrightarrow> i < n \<Longrightarrow> memchr m c n = Some (Some i)"
proof (induction m c n arbitrary: i rule: memchr.induct)
  case (3 x m c n)
  then show ?case by (cases i) (auto split: if_splits)
qed auto

lemma memchr_overread: "c \<notin> set m \<Longrightarrow> length m < n \<Longrightarrow> memchr m c n = None"
  by (induction m c n rule: memchr.induct) auto

text \<open>The C string that starts a block: the bytes before the first \<open>NUL\<close>.\<close>

definition c_str :: "bytes \<Rightarrow> bytes" where
  "c_str m = takeWhile (\<lambda>c. c \<noteq> NUL) m"

lemma c_str_no_NUL [simp]: "NUL \<notin> set (c_str m)"
  by (auto simp: c_str_def dest: set_takeWhileD)

lemma c_str_id [simp]: "NUL \<notin> set m \<Longrightarrow> c_str m = m"
  by (auto simp: c_str_def takeWhile_eq_all_conv)

lemma c_str_append_NUL [simp]: "NUL \<notin> set m \<Longrightarrow> c_str (m @ NUL # r) = m"
  by (auto simp: c_str_def takeWhile_append2 takeWhile_tail)

lemma length_c_str_le: "length (c_str m) \<le> length m"
  by (simp add: c_str_def length_takeWhile_le)

lemma set_c_str_subset: "set (c_str m) \<subseteq> set m"
  by (auto simp: c_str_def dest: set_takeWhileD)

text \<open>
  \<open>strndup(s, n)\<close>: a fresh block with at most \<open>n\<close> bytes of the string and a terminator, or a
  null pointer. The source must be readable up to its terminator or for \<open>n\<close> bytes.
\<close>

definition strndup :: "allocator \<Rightarrow> bytes \<Rightarrow> nat \<Rightarrow> bytes option option" where
  "strndup A s n =
     (if n \<le> length s \<or> NUL \<in> set s then
        (let d = c_str (take n s) @ [NUL] in
         case malloc A (length d) of None \<Rightarrow> Some None | Some _ \<Rightarrow> Some (Some d))
      else None)"

text \<open>
  \<open>strncmp(a, b, n) == 0\<close> on two blocks: the first \<open>n\<close> bytes agree, or the strings end together
  before that.
\<close>

fun strncmp_eq :: "bytes \<Rightarrow> bytes \<Rightarrow> nat \<Rightarrow> bool" where
  "strncmp_eq a b 0 = True"
| "strncmp_eq [] b (Suc n) = (b = [] \<or> hd b = NUL)"
| "strncmp_eq (x # a) [] (Suc n) = (x = NUL)"
| "strncmp_eq (x # a) (y # b) (Suc n) = (x = y \<and> (x = NUL \<or> strncmp_eq a b n))"

lemma strncmp_eq_literal:
  "NUL \<notin> set t \<Longrightarrow> NUL \<notin> set a \<Longrightarrow> strncmp_eq (a @ NUL # r) t (length t) \<longleftrightarrow> take (length t) a = t"
proof (induction t arbitrary: a)
  case (Cons y t)
  then show ?case by (cases a) auto
qed simp

section \<open>Character classes of the C locale\<close>

definition c_isspace :: "char \<Rightarrow> bool" where
  "c_isspace c \<longleftrightarrow> c \<in> {CHR 0x20, CHR 0x09, CHR 0x0A, CHR 0x0B, CHR 0x0C, CHR 0x0D}"

definition c_isdigit :: "char \<Rightarrow> bool" where
  "c_isdigit c \<longleftrightarrow> c \<in> set ''0123456789''"

definition c_tolower :: "char \<Rightarrow> char" where
  "c_tolower c = (if 65 \<le> (of_char c :: nat) \<and> (of_char c :: nat) \<le> 90 then char_of ((of_char c :: nat) + 32) else c)"

text \<open>Decimal printing, as \<open>printf\<close> does it for an unsigned and for a signed integer.\<close>

fun decimal :: "nat \<Rightarrow> bytes" where
  "decimal n = (if n < 10 then [char_of (48 + n)] else decimal (n div 10) @ [char_of (48 + n mod 10)])"

declare decimal.simps [simp del]

definition decimal_int :: "int \<Rightarrow> bytes" where
  "decimal_int i = (if i < 0 then CHR ''-'' # decimal (nat (- i)) else decimal (nat i))"

section \<open>Invariants of event-driven components\<close>

text \<open>
  A component is a set of start states and a step relation; an invariant that holds at the
  start and is kept by every step holds after every run.
\<close>

locale invariant_system =
  fixes start :: "'s \<Rightarrow> bool"
    and step :: "'s \<Rightarrow> 's \<Rightarrow> bool"
    and inv :: "'s \<Rightarrow> bool"
  assumes start_inv: "start s \<Longrightarrow> inv s"
    and step_inv: "inv s \<Longrightarrow> step s t \<Longrightarrow> inv t"
begin

lemma steps_inv: "step\<^sup>*\<^sup>* s t \<Longrightarrow> inv s \<Longrightarrow> inv t"
  by (induction rule: rtranclp_induct) (auto intro: step_inv)

lemma reachable_inv: "start s \<Longrightarrow> step\<^sup>*\<^sup>* s t \<Longrightarrow> inv t"
  by (blast intro: steps_inv start_inv)

end

end
