(* ===== verification/Getopt.thy ===== *)
theory Getopt
  imports Prelude
begin

text \<open>
  \<open>getopt_long\<close> of the GNU C library, as far as the three programs use it: short options, alone or in
  a cluster, with an argument that follows directly or as the next word, long options with an argument
  after \<open>=\<close> or as the next word, words that are no options, and \<open>--\<close>. The tables of the programs lack
  the entry of zeros that ends a table, so a search that finds no exact match runs past the
  array; abbreviated long options and unknown ones are therefore undefined. The theory shows that
  all spellings of an option give the same result and that a written command line is read back.
\<close>

section \<open>Options\<close>

datatype has_arg = no_argument | required_argument

record long_option =
  lo_name :: bytes
  lo_has_arg :: has_arg
  lo_val :: char

text \<open>A result is the value of an option with its argument; errors are the value \<open>?\<close>.\<close>

type_synonym opt_result = "int \<times> bytes"

definition bad_option :: opt_result where
  "bad_option = (of_char (CHR ''?''), [])"

text \<open>Whether a character is an option and whether it takes an argument.\<close>

definition short_arg :: "bytes \<Rightarrow> char \<Rightarrow> bool option" where
  "short_arg optstring c =
     (if c = CHR '':'' \<or> c = CHR '';'' then None
      else map_option (\<lambda>i. Suc i < length optstring \<and> optstring ! Suc i = CHR '':'') (index_of c optstring))"

text \<open>A cluster of short options; the second argument has the words that follow, of which it may use one.\<close>

fun short_options :: "bytes \<Rightarrow> bytes \<Rightarrow> bytes list \<Rightarrow> opt_result list \<times> bytes list" where
  "short_options optstring [] args = ([], args)"
| "short_options optstring (c # cs) args =
     (case short_arg optstring c of
        None \<Rightarrow> apfst ((#) bad_option) (short_options optstring cs args)
      | Some False \<Rightarrow> apfst ((#) (of_char c, [])) (short_options optstring cs args)
      | Some True \<Rightarrow>
          if cs \<noteq> [] then ([(of_char c, cs)], args)
          else (case args of [] \<Rightarrow> ([bad_option], []) | x # rest \<Rightarrow> ([(of_char c, x)], rest)))"

text \<open>A long option without its dashes.\<close>

definition long_option_found :: "long_option \<Rightarrow> bytes option \<Rightarrow> bytes list \<Rightarrow> opt_result \<times> bytes list" where
  "long_option_found opt val args =
     (case (lo_has_arg opt, val) of
        (no_argument, None) \<Rightarrow> ((of_char (lo_val opt), []), args)
      | (no_argument, Some _) \<Rightarrow> (bad_option, args)
      | (required_argument, Some v) \<Rightarrow> ((of_char (lo_val opt), v), args)
      | (required_argument, None) \<Rightarrow>
          (case args of [] \<Rightarrow> (bad_option, []) | x # rest \<Rightarrow> ((of_char (lo_val opt), x), rest)))"

definition long_option :: "long_option list \<Rightarrow> bytes \<Rightarrow> bytes list \<Rightarrow> (opt_result \<times> bytes list) option" where
  "long_option longopts word args =
     (case cut_at (CHR ''='') word of
        None \<Rightarrow> map_option (\<lambda>opt. long_option_found opt None args) (find (\<lambda>opt. lo_name opt = word) longopts)
      | Some (name, val) \<Rightarrow> map_option (\<lambda>opt. long_option_found opt (Some val) args) (find (\<lambda>opt. lo_name opt = name) longopts))"

section \<open>The command line\<close>

text \<open>
  All calls of \<open>getopt_long\<close> on the words after the program's name: the results before it returns -1,
  and the final \<open>optind\<close>. Words that are no options are moved behind the options. Without an
  \<open>optind\<close> the call after the last result is undefined.
\<close>

lemma short_options_args: "length (snd (short_options optstring cs args)) \<le> length args"
  by (induction cs arbitrary: args) (auto split: option.split bool.split list.split)

lemma long_option_args: "long_option longopts word args = Some (r, rest) \<Longrightarrow> length rest \<le> length args"
  by (auto simp: long_option_def long_option_found_def split: option.splits has_arg.splits list.splits)

function getopt_long :: "bytes \<Rightarrow> long_option list \<Rightarrow> bytes list \<Rightarrow> opt_result list \<times> nat option" where
  "getopt_long optstring longopts [] = ([], Some 1)"
| "getopt_long optstring longopts (word # args) =
     (if word = ''--'' then ([], Some 2)
      else if length word < 2 \<or> hd word \<noteq> CHR ''-'' then getopt_long optstring longopts args
      else if take 2 word = ''--'' then
        (case long_option longopts (drop 2 word) args of
           None \<Rightarrow> ([], None)
         | Some (r, rest) \<Rightarrow>
             (case getopt_long optstring longopts rest of
                (rs, optind) \<Rightarrow> (r # rs, map_option ((+) (1 + length args - length rest)) optind)))
      else (case short_options optstring (tl word) args of
              (rs1, rest) \<Rightarrow>
                (case getopt_long optstring longopts rest of
                   (rs, optind) \<Rightarrow> (rs1 @ rs, map_option ((+) (1 + length args - length rest)) optind))))"
  by pat_completeness auto
termination
  using short_options_args by (relation "measure (\<lambda>(_, _, args). length args)") (auto simp: less_Suc_eq_le dest: long_option_args, metis snd_conv)

declare getopt_long.simps(2) [simp del]

section \<open>Reading a command line\<close>

text \<open>The ways to write an option with an argument, and one without.\<close>

definition spellings :: "bytes \<Rightarrow> char \<Rightarrow> bytes \<Rightarrow> bytes list set" where
  "spellings name c val =
     {[''--'' @ name, val], [''--'' @ name @ CHR ''='' # val], [[CHR ''-'', c], val]} \<union>
     (if val = [] then {} else {[CHR ''-'' # c # val]})"

definition flag_spellings :: "bytes \<Rightarrow> char \<Rightarrow> bytes list set" where
  "flag_spellings name c = {[''--'' @ name], [[CHR ''-'', c]]}"

text \<open>An option that both tables have, with the same argument.\<close>

definition both_tables :: "bytes \<Rightarrow> long_option list \<Rightarrow> bytes \<Rightarrow> char \<Rightarrow> has_arg \<Rightarrow> bool" where
  "both_tables optstring longopts name c arg \<longleftrightarrow>
     name \<noteq> [] \<and> CHR ''='' \<notin> set name \<and> c \<noteq> CHR ''-'' \<and> short_arg optstring c = Some (arg = required_argument) \<and>
     find (\<lambda>opt. lo_name opt = name) longopts = Some \<lparr>lo_name = name, lo_has_arg = arg, lo_val = c\<rparr>"

definition add_result :: "opt_result \<Rightarrow> nat \<Rightarrow> opt_result list \<times> nat option \<Rightarrow> opt_result list \<times> nat option" where
  "add_result r n res = (r # fst res, map_option ((+) n) (snd res))"

lemma getopt_long_spelled:
  assumes "both_tables optstring longopts name c required_argument" "ws \<in> spellings name c val"
  shows "getopt_long optstring longopts (ws @ args) = add_result (of_char c, val) (length ws) (getopt_long optstring longopts args)"
proof -
  have o: "name \<noteq> []" "cut_at (CHR ''='') name = None" "cut_at (CHR ''='') (name @ CHR ''='' # val) = Some (name, val)"
      "c \<noteq> CHR ''-''" "short_arg optstring c = Some True"
      "find (\<lambda>opt. lo_name opt = name) longopts = Some \<lparr>lo_name = name, lo_has_arg = required_argument, lo_val = c\<rparr>"
    using assms(1) by (simp_all add: both_tables_def)
  note defs = getopt_long.simps(2) add_result_def long_option_def long_option_found_def o
  from assms(2) consider (long) "ws = [''--'' @ name, val]" | (equals) "ws = [''--'' @ name @ CHR ''='' # val]"
    | (short) "ws = [[CHR ''-'', c], val]" | (joined) "ws = [CHR ''-'' # c # val]" "val \<noteq> []"
    by (auto simp: spellings_def split: if_splits)
  then show ?thesis by cases (simp_all add: defs numeral_2_eq_2 split: prod.split)
qed

lemma getopt_long_flag:
  assumes "both_tables optstring longopts name c no_argument" "ws \<in> flag_spellings name c"
  shows "getopt_long optstring longopts (ws @ args) = add_result (of_char c, []) (length ws) (getopt_long optstring longopts args)"
proof -
  have o: "name \<noteq> []" "cut_at (CHR ''='') name = None" "c \<noteq> CHR ''-''" "short_arg optstring c = Some False"
      "find (\<lambda>opt. lo_name opt = name) longopts = Some \<lparr>lo_name = name, lo_has_arg = no_argument, lo_val = c\<rparr>"
    using assms(1) by (simp_all add: both_tables_def)
  note defs = getopt_long.simps(2) add_result_def long_option_def long_option_found_def o
  from assms(2) show ?thesis by (auto simp: flag_spellings_def defs split: prod.split)
qed

text \<open>A word that is no option is passed over; a long option that is not in the table is undefined.\<close>

lemma getopt_long_operand:
  "length word < 2 \<or> hd word \<noteq> CHR ''-'' \<Longrightarrow> getopt_long optstring longopts (word # args) = getopt_long optstring longopts args"
  by (auto simp: getopt_long.simps(2))

lemma getopt_long_unknown:
  assumes "name \<noteq> []" "CHR ''='' \<notin> set name" "name \<notin> lo_name ` set longopts"
  shows "getopt_long optstring longopts ((''--'' @ name) # args) = ([], None)"
proof -
  have "find (\<lambda>opt. lo_name opt = name) longopts = None" using assms(3) by (auto simp: find_None_iff)
  with assms(1,2) show ?thesis by (simp add: getopt_long.simps(2) long_option_def)
qed

text \<open>
  A command line that is written from options is read back: the results in order, and \<open>optind\<close> behind
  them.
\<close>

fun written :: "bytes \<Rightarrow> long_option list \<Rightarrow> opt_result list \<Rightarrow> bytes list \<Rightarrow> bool" where
  "written optstring longopts [] args \<longleftrightarrow> args = []"
| "written optstring longopts (r # rs) args \<longleftrightarrow>
     (\<exists>name c arg ws rest. args = ws @ rest \<and> both_tables optstring longopts name c arg \<and> fst r = of_char c \<and>
        ws \<in> (if arg = required_argument then spellings name c (snd r) else flag_spellings name c) \<and>
        (arg = no_argument \<longrightarrow> snd r = []) \<and> written optstring longopts rs rest)"

lemma written_argument:
  "both_tables optstring longopts name c required_argument \<Longrightarrow> ws \<in> spellings name c val \<Longrightarrow> v = of_char c \<Longrightarrow>
   written optstring longopts rs rest \<Longrightarrow> written optstring longopts ((v, val) # rs) (ws @ rest)"
  unfolding written.simps(2) by (intro exI [of _ name] exI [of _ c] exI [of _ required_argument] exI [of _ ws] exI [of _ rest]) simp

lemma getopt_long_written:
  "written optstring longopts rs args \<Longrightarrow>
   getopt_long optstring longopts (args @ operands) =
     (rs @ fst (getopt_long optstring longopts operands), map_option ((+) (length args)) (snd (getopt_long optstring longopts operands)))"
proof (induction rs arbitrary: args)
  case Nil
  then show ?case by (simp add: option.map_id0 [unfolded id_def] map_option.identity prod_eq_iff)
next
  case (Cons r rs)
  then obtain name c arg ws rest where w: "args = ws @ rest" "both_tables optstring longopts name c arg" "fst r = of_char c"
      "ws \<in> (if arg = required_argument then spellings name c (snd r) else flag_spellings name c)"
      "arg = no_argument \<longrightarrow> snd r = []" "written optstring longopts rs rest"
    by auto
  have "getopt_long optstring longopts (ws @ rest @ operands) = add_result r (length ws) (getopt_long optstring longopts (rest @ operands))"
  proof (cases arg)
    case no_argument
    with w show ?thesis using getopt_long_flag [of optstring longopts name c ws "rest @ operands"] by (cases r) simp
  next
    case required_argument
    with w show ?thesis using getopt_long_spelled [of optstring longopts name c ws "snd r" "rest @ operands"] by (cases r) simp
  qed
  with Cons.IH [OF w(6)] w(1) show ?case
    by (cases "snd (getopt_long optstring longopts operands)") (simp_all add: add_result_def add.assoc)
qed

end
