(* ===== verification/Buffer.thy ===== *)
theory Buffer
  imports Prelude
begin

text \<open>
  The byte buffer of \<open>src/src/buffer.c\<close> and \<open>src/src/buffer.h\<close>: a heap block with a window
  \<open>[head, tail)\<close> of data in it. The state is the record \<open>buffer\<close>; \<open>buffer_wf\<close> is its
  invariant and \<open>buffer_data\<close> the abstraction to the bytes it holds. The theory shows that the
  operations implement a queue of bytes (locale \<open>byte_queue\<close>, interpreted as \<open>bq\<close>), that
  growing and realigning never lose data, and what happens on each error path.
\<close>

section \<open>The buffer and its operations\<close>

text \<open>
  The pointers \<open>head\<close> and \<open>tail\<close> are kept as offsets from \<open>ptr\<close>.
\<close>

record buffer =
  b_ptr :: mblock
  b_head :: nat
  b_tail :: nat
  b_size :: nat

definition INITIAL_BUFFER_SIZE :: nat where
  "INITIAL_BUFFER_SIZE = 4096"

text \<open>
  \<open>buffer_allocate\<close> stores the size before it asks for memory, and leaves \<open>head\<close> and \<open>tail\<close>
  alone when the request fails.
\<close>

definition buffer_allocate :: "allocator \<Rightarrow> buffer \<Rightarrow> nat \<Rightarrow> int \<times> buffer" where
  "buffer_allocate A b sz =
     (let b1 = b\<lparr>b_size := sz\<rparr> in
      case malloc A sz of
        None \<Rightarrow> (-1, b1\<lparr>b_ptr := NullPtr\<rparr>)
      | Some m \<Rightarrow> (0, b1\<lparr>b_ptr := Block m, b_head := 0, b_tail := 0\<rparr>))"

definition buffer_init :: "allocator \<Rightarrow> buffer \<Rightarrow> int \<times> buffer" where
  "buffer_init A b = buffer_allocate A b INITIAL_BUFFER_SIZE"

text \<open>
  \<open>create_buffer\<close> allocates the structure itself (32 bytes) without a check: a refused request
  is a null dereference in \<open>buffer_allocate\<close>. The fields of the fresh structure are unset;
  each is written before it can be read.
\<close>

definition unset_buffer :: buffer where
  "unset_buffer = \<lparr>b_ptr = NullPtr, b_head = 0, b_tail = 0, b_size = 0\<rparr>"

definition create_buffer :: "allocator \<Rightarrow> nat \<Rightarrow> buffer option option" where
  "create_buffer A sz =
     (case malloc A 32 of
        None \<Rightarrow> None
      | Some _ \<Rightarrow>
          (case buffer_allocate A unset_buffer sz of
             (rc, b) \<Rightarrow> if rc \<noteq> 0 then Some None else Some (Some b)))"

definition buffer_datacount :: "buffer \<Rightarrow> nat" where
  "buffer_datacount b = sz_sub (b_tail b) (b_head b)"

definition buffer_spacecount :: "buffer \<Rightarrow> nat" where
  "buffer_spacecount b = sz_sub (b_size b) (b_tail b)"

definition buffer_head :: "buffer \<Rightarrow> nat" where
  "buffer_head b = b_head b"

definition buffer_tail :: "buffer \<Rightarrow> nat" where
  "buffer_tail b = b_tail b"

text \<open>
  \<open>myrealloc\<close> copies \<open>old\<close> bytes whatever the new size is ("assumes we are always making it
  bigger"): shrinking writes past the new block.
\<close>

definition myrealloc :: "allocator \<Rightarrow> mblock \<Rightarrow> nat \<Rightarrow> nat \<Rightarrow> mblock option" where
  "myrealloc A p old_sz new_sz =
     (case malloc A new_sz of
        None \<Rightarrow> Some NullPtr
      | Some pnew \<Rightarrow>
          do {
            d \<leftarrow> mload p 0 old_sz;
            q \<leftarrow> mstore (Block pnew) 0 d;
            _ \<leftarrow> mfree p;
            Some q
          })"

definition buffer_newsize :: "allocator \<Rightarrow> buffer \<Rightarrow> nat \<Rightarrow> (int \<times> buffer) option" where
  "buffer_newsize A b newsize =
     do {
       pnew \<leftarrow> myrealloc A (b_ptr b) (b_size b) newsize;
       if pnew = NullPtr then Some (-1, b)
       else Some (0, b\<lparr>b_ptr := pnew, b_size := newsize\<rparr>)
     }"

definition buffer_expand :: "allocator \<Rightarrow> buffer \<Rightarrow> (int \<times> buffer) option" where
  "buffer_expand A b = buffer_newsize A b ((b_size b * 2) mod 2 ^ 64)"

definition buffer_consume :: "buffer \<Rightarrow> nat \<Rightarrow> int \<times> buffer" where
  "buffer_consume b amt =
     (if b_head b + amt > b_tail b then (-1, b)
      else (0, b\<lparr>b_head := b_head b + amt\<rparr>))"

definition buffer_produced :: "buffer \<Rightarrow> nat \<Rightarrow> int \<times> buffer" where
  "buffer_produced b amt =
     (if b_tail b + amt > b_size b then (-1, b)
      else (0, b\<lparr>b_tail := b_tail b + amt\<rparr>))"

text \<open>
  \<open>buffer_set\<close> copies to the start of the block and then advances \<open>tail\<close> by the size of
  the new data; it does not reset \<open>head\<close> and \<open>tail\<close> first.
\<close>

definition buffer_set :: "allocator \<Rightarrow> buffer \<Rightarrow> bytes \<Rightarrow> nat \<Rightarrow> (int \<times> buffer) option" where
  "buffer_set A b data sz =
     do {
       (rc, b1) \<leftarrow> (if b_size b < sz then buffer_newsize A b sz else Some (0, b));
       if rc \<noteq> 0 then Some (-1, b1)
       else do {
         d \<leftarrow> mload (Block data) 0 sz;
         p \<leftarrow> mstore (b_ptr b1) 0 d;
         Some (buffer_produced (b1\<lparr>b_ptr := p\<rparr>) sz)
       }
     }"

text \<open>\<open>buffer_init_contents\<close> ignores the result of the allocation.\<close>

definition buffer_init_contents ::
    "allocator \<Rightarrow> buffer \<Rightarrow> bytes \<Rightarrow> nat \<Rightarrow> (int \<times> buffer) option" where
  "buffer_init_contents A b data sz = buffer_set A (snd (buffer_allocate A b sz)) data sz"

definition buffer_realign :: "buffer \<Rightarrow> (int \<times> buffer) option" where
  "buffer_realign b =
     do {
       p \<leftarrow> (if b_tail b \<noteq> b_head b
             then do {
               d \<leftarrow> mload (b_ptr b) (b_head b) (sz_sub (b_tail b) (b_head b));
               mstore (b_ptr b) 0 d
             }
             else Some (b_ptr b));
       Some (0, b\<lparr>b_ptr := p, b_tail := sz_sub (b_tail b) (b_head b), b_head := 0\<rparr>)
     }"

definition buffer_destroy :: "buffer \<Rightarrow> buffer option" where
  "buffer_destroy b =
     do {
       p \<leftarrow> mfree (b_ptr b);
       Some (b\<lparr>b_ptr := p, b_head := 0, b_tail := 0, b_size := 0\<rparr>)
     }"

text \<open>\<open>delete_buffer\<close> destroys the buffer and then frees the structure, which is gone.\<close>

definition delete_buffer :: "buffer \<Rightarrow> unit option" where
  "delete_buffer b = do { _ \<leftarrow> buffer_destroy b; Some () }"

definition buffer_wrap :: "buffer \<Rightarrow> bytes \<Rightarrow> nat \<Rightarrow> buffer" where
  "buffer_wrap b data sz = b\<lparr>b_ptr := Block data, b_head := 0, b_tail := sz, b_size := 0\<rparr>"

text \<open>
  The two idioms by which the clients fill and read a buffer: writing bytes at the address
  \<open>buffer_tail\<close> (\<open>memcpy\<close> or \<open>recv\<close>) and then calling \<open>buffer_produced\<close>, and reading the
  bytes from \<open>buffer_head\<close>.
\<close>

definition buffer_write_tail :: "buffer \<Rightarrow> bytes \<Rightarrow> buffer option" where
  "buffer_write_tail b d =
     do { p \<leftarrow> mstore (b_ptr b) (buffer_tail b) d; Some (b\<lparr>b_ptr := p\<rparr>) }"

definition buffer_append :: "buffer \<Rightarrow> bytes \<Rightarrow> (int \<times> buffer) option" where
  "buffer_append b d = do { b1 \<leftarrow> buffer_write_tail b d; Some (buffer_produced b1 (length d)) }"

definition buffer_read_head :: "buffer \<Rightarrow> nat \<Rightarrow> bytes option" where
  "buffer_read_head b n = mload (b_ptr b) (buffer_head b) n"

section \<open>Invariant and abstraction\<close>

fun block_bytes :: "mblock \<Rightarrow> bytes" where
  "block_bytes (Block m) = m"
| "block_bytes _ = []"

definition buffer_wf :: "buffer \<Rightarrow> bool" where
  "buffer_wf b \<longleftrightarrow>
     b_ptr b = Block (block_bytes (b_ptr b)) \<and>
     length (block_bytes (b_ptr b)) = b_size b \<and>
     b_head b \<le> b_tail b \<and> b_tail b \<le> b_size b \<and> b_size b < 2 ^ 63"

definition buffer_data :: "buffer \<Rightarrow> bytes" where
  "buffer_data b = take (b_tail b - b_head b) (drop (b_head b) (block_bytes (b_ptr b)))"

lemma buffer_wfE:
  assumes "buffer_wf b"
  obtains m where "b_ptr b = Block m" "length m = b_size b" "b_head b \<le> b_tail b"
    "b_tail b \<le> b_size b" "b_size b < 2 ^ 63" "buffer_data b = take (b_tail b - b_head b) (drop (b_head b) m)"
proof -
  have eq: "b_ptr b = Block (block_bytes (b_ptr b))" using assms by (simp add: buffer_wf_def)
  show ?thesis
    by (rule that [OF eq]) (use assms in \<open>auto simp: buffer_wf_def buffer_data_def\<close>)
qed

lemma buffer_wfI:
  assumes "b_ptr b = Block m" "length m = b_size b" "b_head b \<le> b_tail b"
    "b_tail b \<le> b_size b" "b_size b < 2 ^ 63"
  shows "buffer_wf b"
  using assms by (simp add: buffer_wf_def)

lemma buffer_data_Block [simp]:
  "b_ptr b = Block m \<Longrightarrow> buffer_data b = take (b_tail b - b_head b) (drop (b_head b) m)"
  by (simp add: buffer_data_def)

lemma buffer_datacount_wf [buffer_simps]:
  "buffer_wf b \<Longrightarrow> buffer_datacount b = length (buffer_data b)"
  by (erule buffer_wfE) (simp add: buffer_datacount_def)

lemma buffer_datacount_offsets: "buffer_wf b \<Longrightarrow> buffer_datacount b = b_tail b - b_head b"
  by (erule buffer_wfE) (simp add: buffer_datacount_def)

lemma buffer_spacecount_wf [buffer_simps]:
  "buffer_wf b \<Longrightarrow> buffer_spacecount b = b_size b - b_tail b"
  by (erule buffer_wfE) (simp add: buffer_spacecount_def)

lemma buffer_data_le_size: "buffer_wf b \<Longrightarrow> length (buffer_data b) \<le> b_size b"
  by (erule buffer_wfE) auto

section \<open>What each operation does\<close>

lemma buffer_allocate_cases:
  "buffer_allocate A b sz = (rc, b') \<Longrightarrow>
     (rc = -1 \<and> malloc A sz = None \<and> b_ptr b' = NullPtr) \<or>
     (rc = 0 \<and> buffer_wf b' \<and> buffer_data b' = [] \<and> b_size b' = sz \<and> b_head b' = 0 \<and> b_tail b' = 0)"
  by (auto simp: buffer_allocate_def Let_def buffer_wf_def split: option.splits dest: malloc_SomeD)

lemma myrealloc_cases:
  assumes "length m = old_sz" "old_sz \<le> new_sz"
  shows "myrealloc A (Block m) old_sz new_sz = Some NullPtr \<and> malloc A new_sz = None \<or>
    (\<exists>m'. myrealloc A (Block m) old_sz new_sz = Some (Block (m @ m')) \<and>
      length (m @ m') = new_sz \<and> new_sz < 2 ^ 63)"
proof (cases "malloc A new_sz")
  case None
  then show ?thesis by (simp add: myrealloc_def)
next
  case (Some pnew)
  then have "length pnew = new_sz" "new_sz < 2 ^ 63" by (auto dest: malloc_SomeD)
  with Some assms show ?thesis by (simp add: myrealloc_def)
qed

text \<open>Growing keeps the data; a refused request leaves the buffer as it was.\<close>

lemma buffer_newsize_cases:
  assumes wf: "buffer_wf b" and bigger: "b_size b \<le> n"
  shows "buffer_newsize A b n = Some (-1, b) \<and> malloc A n = None \<or>
    (\<exists>b'. buffer_newsize A b n = Some (0, b') \<and> buffer_wf b' \<and> buffer_data b' = buffer_data b \<and>
       b_size b' = n \<and> b_head b' = b_head b \<and> b_tail b' = b_tail b)"
proof -
  from wf obtain m where m: "b_ptr b = Block m" "length m = b_size b" "b_head b \<le> b_tail b"
      "b_tail b \<le> b_size b"
    by (rule buffer_wfE)
  from myrealloc_cases [OF m(2) bigger, of A] show ?thesis
  proof (elim disjE exE conjE)
    assume "myrealloc A (Block m) (b_size b) n = Some NullPtr" "malloc A n = None"
    then show ?thesis by (simp add: buffer_newsize_def m)
  next
    fix m' assume r: "myrealloc A (Block m) (b_size b) n = Some (Block (m @ m'))"
      and l: "length (m @ m') = n" "n < 2 ^ 63"
    let ?b' = "b\<lparr>b_ptr := Block (m @ m'), b_size := n\<rparr>"
    have "buffer_newsize A b n = Some (0, ?b')" by (simp add: buffer_newsize_def m r)
    moreover have "buffer_wf ?b'" using l m bigger by (auto intro: buffer_wfI)
    moreover have "buffer_data ?b' = buffer_data b" using m by simp
    ultimately show ?thesis by auto
  qed
qed

lemma buffer_expand_cases:
  assumes "buffer_wf b"
  shows "buffer_expand A b = Some (-1, b) \<and> malloc A (b_size b * 2) = None \<or>
    (\<exists>b'. buffer_expand A b = Some (0, b') \<and> buffer_wf b' \<and> buffer_data b' = buffer_data b \<and>
       b_size b' = b_size b * 2 \<and> b_head b' = b_head b \<and> b_tail b' = b_tail b)"
proof -
  from assms have "b_size b < 2 ^ 63" by (rule buffer_wfE)
  then have "(b_size b * 2) mod 2 ^ 64 = b_size b * 2" by simp
  with buffer_newsize_cases [OF assms, of "b_size b * 2" A] show ?thesis
    by (simp add: buffer_expand_def)
qed

lemma buffer_consume_wf [buffer_simps]:
  assumes "buffer_wf b"
  shows "buffer_consume b n =
    (if n \<le> length (buffer_data b) then (0, b\<lparr>b_head := b_head b + n\<rparr>) else (-1, b))"
  by (rule buffer_wfE [OF assms]) (auto simp: buffer_consume_def)

lemma buffer_advance_wf:
  assumes "buffer_wf b" "n \<le> length (buffer_data b)"
  shows "buffer_wf (b\<lparr>b_head := b_head b + n\<rparr>)"
    and "buffer_data (b\<lparr>b_head := b_head b + n\<rparr>) = drop n (buffer_data b)"
proof -
  from assms(1) obtain m where m: "b_ptr b = Block m" "length m = b_size b" "b_head b \<le> b_tail b"
      "b_tail b \<le> b_size b" "b_size b < 2 ^ 63"
    by (rule buffer_wfE)
  from m assms(2) show "buffer_wf (b\<lparr>b_head := b_head b + n\<rparr>)" by (auto intro: buffer_wfI)
  from m show "buffer_data (b\<lparr>b_head := b_head b + n\<rparr>) = drop n (buffer_data b)"
    by (simp add: drop_take add.commute)
qed

lemma buffer_append_wf:
  assumes wf: "buffer_wf b" and room: "length d \<le> buffer_spacecount b"
  shows "\<exists>b'. buffer_append b d = Some (0, b') \<and> buffer_wf b' \<and> buffer_data b' = buffer_data b @ d \<and>
    b_size b' = b_size b \<and> b_head b' = b_head b \<and> b_tail b' = b_tail b + length d"
proof -
  from wf obtain m where m: "b_ptr b = Block m" "length m = b_size b" "b_head b \<le> b_tail b"
      "b_tail b \<le> b_size b" "b_size b < 2 ^ 63"
    by (rule buffer_wfE)
  from wf room m have fits: "b_tail b + length d \<le> length m" by (simp add: buffer_simps)
  let ?m = "take (b_tail b) m @ d @ drop (b_tail b + length d) m"
  let ?b = "b\<lparr>b_ptr := Block ?m, b_tail := b_tail b + length d\<rparr>"
  have "buffer_append b d = Some (0, ?b)"
    using fits m by (simp add: buffer_append_def buffer_write_tail_def buffer_tail_def buffer_produced_def)
  moreover have "buffer_wf ?b" using m fits by (auto intro: buffer_wfI)
  moreover have "buffer_data ?b = buffer_data b @ d"
    using m fits by (simp add: drop_take [symmetric])
  ultimately show ?thesis by auto
qed

lemma buffer_append_no_room:
  assumes wf: "buffer_wf b" and room: "buffer_spacecount b < length d"
  shows "buffer_append b d = None"
  using assms
  by (auto elim!: buffer_wfE
      simp: buffer_append_def buffer_write_tail_def buffer_tail_def mstore_def buffer_simps)

lemma buffer_realign_wf:
  assumes wf: "buffer_wf b"
  shows "\<exists>b'. buffer_realign b = Some (0, b') \<and> buffer_wf b' \<and> buffer_data b' = buffer_data b \<and>
    b_size b' = b_size b \<and> b_head b' = 0 \<and> b_tail b' = length (buffer_data b)"
proof -
  from wf obtain m where m: "b_ptr b = Block m" "length m = b_size b" "b_head b \<le> b_tail b"
      "b_tail b \<le> b_size b" "b_size b < 2 ^ 63"
    by (rule buffer_wfE)
  have sub: "sz_sub (b_tail b) (b_head b) = b_tail b - b_head b" using m by simp
  let ?d = "take (b_tail b - b_head b) (drop (b_head b) m)"
  let ?b = "\<lambda>p. b\<lparr>b_ptr := p, b_tail := b_tail b - b_head b, b_head := 0\<rparr>"
  show ?thesis
  proof (cases "b_tail b = b_head b")
    case True
    then have "buffer_realign b = Some (0, ?b (Block m))"
      using m by (simp add: buffer_realign_def sz_sub_def)
    with True m show ?thesis by (auto intro: buffer_wfI)
  next
    case False
    let ?m = "?d @ drop (b_tail b - b_head b) m"
    have "mstore (Block m) 0 ?d = Some (Block ?m)" using m by (simp add: mstore_def)
    then have "buffer_realign b = Some (0, ?b (Block ?m))"
      using False m by (simp add: buffer_realign_def sub)
    moreover have "buffer_wf (?b (Block ?m))" using m by (auto intro: buffer_wfI)
    ultimately show ?thesis using m by auto
  qed
qed

lemma buffer_read_head_wf [buffer_simps]:
  assumes "buffer_wf b" "n \<le> length (buffer_data b)"
  shows "buffer_read_head b n = Some (take n (buffer_data b))"
  using assms by (auto elim!: buffer_wfE simp: buffer_read_head_def buffer_head_def)

lemma buffer_destroy_wf: "buffer_wf b \<Longrightarrow> \<exists>b'. buffer_destroy b = Some b' \<and> b_ptr b' = Freed"
  by (erule buffer_wfE) (simp add: buffer_destroy_def)

section \<open>The byte queue interface\<close>

text \<open>
  What the clients of the buffer rely on: an append that succeeds adds its bytes at the end,
  a consume that succeeds removes bytes from the front, compacting and growing change
  nothing. The client's argument is the conservation law: everything that went in is what
  came out followed by what is still there.
\<close>

locale byte_queue =
  fixes wf :: "'q \<Rightarrow> bool"
    and data :: "'q \<Rightarrow> bytes"
    and append :: "'q \<Rightarrow> bytes \<Rightarrow> (int \<times> 'q) option"
    and consume :: "'q \<Rightarrow> nat \<Rightarrow> int \<times> 'q"
    and compact :: "'q \<Rightarrow> (int \<times> 'q) option"
    and grow :: "allocator \<Rightarrow> 'q \<Rightarrow> (int \<times> 'q) option"
  assumes append_law:
      "wf q \<Longrightarrow> append q d = Some (rc, q') \<Longrightarrow> rc = 0 \<and> wf q' \<and> data q' = data q @ d"
    and consume_law:
      "wf q \<Longrightarrow> consume q n = (rc, q') \<Longrightarrow>
         (rc = 0 \<and> n \<le> length (data q) \<and> wf q' \<and> data q' = drop n (data q)) \<or>
         (rc = -1 \<and> length (data q) < n \<and> q' = q)"
    and compact_law: "wf q \<Longrightarrow> \<exists>q'. compact q = Some (0, q') \<and> wf q' \<and> data q' = data q"
    and grow_law: "wf q \<Longrightarrow> \<exists>rc q'. grow A q = Some (rc, q') \<and> wf q' \<and> data q' = data q"
begin

definition conserves :: "bytes \<Rightarrow> bytes \<Rightarrow> 'q \<Rightarrow> bool" where
  "conserves accepted delivered q \<longleftrightarrow> wf q \<and> accepted = delivered @ data q"

lemma conserves_append:
  "conserves acc del q \<Longrightarrow> append q d = Some (rc, q') \<Longrightarrow> conserves (acc @ d) del q'"
  using append_law by (auto simp: conserves_def)

lemma conserves_consume:
  assumes "conserves acc del q" "consume q n = (rc, q')"
  shows "conserves acc (if rc = 0 then del @ take n (data q) else del) q'"
  using assms consume_law [of q n rc q'] by (auto simp: conserves_def)

lemma conserves_compact: "conserves acc del q \<Longrightarrow> compact q = Some (rc, q') \<Longrightarrow> conserves acc del q'"
  using compact_law [of q] by (auto simp: conserves_def)

lemma conserves_grow: "conserves acc del q \<Longrightarrow> grow A q = Some (rc, q') \<Longrightarrow> conserves acc del q'"
  using grow_law [of q A] by (auto simp: conserves_def)

lemmas conserves_intros = conserves_append conserves_consume conserves_compact conserves_grow

end

lemma buffer_append_law:
  assumes "buffer_wf b" "buffer_append b d = Some (rc, b')"
  shows "rc = 0 \<and> buffer_wf b' \<and> buffer_data b' = buffer_data b @ d"
proof (cases "length d \<le> buffer_spacecount b")
  case True
  with buffer_append_wf [OF assms(1) True] assms(2) show ?thesis by auto
next
  case False
  with buffer_append_no_room [OF assms(1)] assms(2) show ?thesis by simp
qed

interpretation bq: byte_queue buffer_wf buffer_data buffer_append buffer_consume buffer_realign
  buffer_expand
proof unfold_locales
  fix q d rc q'
  assume "buffer_wf q" "buffer_append q d = Some (rc, q')"
  then show "rc = 0 \<and> buffer_wf q' \<and> buffer_data q' = buffer_data q @ d" by (rule buffer_append_law)
next
  fix q n rc q'
  assume "buffer_wf q" "buffer_consume q n = (rc, q')"
  then show "rc = 0 \<and> n \<le> length (buffer_data q) \<and> buffer_wf q' \<and> buffer_data q' = drop n (buffer_data q) \<or>
      rc = -1 \<and> length (buffer_data q) < n \<and> q' = q"
    by (auto simp: buffer_simps buffer_advance_wf split: if_splits)
next
  fix q
  assume "buffer_wf q"
  then show "\<exists>q'. buffer_realign q = Some (0, q') \<and> buffer_wf q' \<and> buffer_data q' = buffer_data q"
    using buffer_realign_wf by blast
next
  fix q A
  assume "buffer_wf q"
  then show "\<exists>rc q'. buffer_expand A q = Some (rc, q') \<and> buffer_wf q' \<and> buffer_data q' = buffer_data q"
    using buffer_expand_cases by blast
qed

section \<open>Every run of operations is a FIFO\<close>

text \<open>
  The operations in any order, with any answers of the allocator: the state is the buffer
  with the bytes accepted and the bytes delivered so far.
\<close>

inductive buffer_op :: "buffer \<times> bytes \<times> bytes \<Rightarrow> buffer \<times> bytes \<times> bytes \<Rightarrow> bool" where
  op_append: "buffer_append b d = Some (rc, b') \<Longrightarrow> buffer_op (b, acc, del) (b', acc @ d, del)"
| op_consume:
    "buffer_consume b n = (rc, b') \<Longrightarrow>
     buffer_op (b, acc, del) (b', acc, if rc = 0 then del @ take n (buffer_data b) else del)"
| op_realign: "buffer_realign b = Some (rc, b') \<Longrightarrow> buffer_op (b, acc, del) (b', acc, del)"
| op_expand: "buffer_expand A b = Some (rc, b') \<Longrightarrow> buffer_op (b, acc, del) (b', acc, del)"

definition fresh_buffer :: "buffer \<times> bytes \<times> bytes \<Rightarrow> bool" where
  "fresh_buffer s \<longleftrightarrow> (\<exists>A b0. buffer_init A b0 = (0, fst s)) \<and> snd s = ([], [])"

definition conserved :: "buffer \<times> bytes \<times> bytes \<Rightarrow> bool" where
  "conserved s = (case s of (b, acc, del) \<Rightarrow> bq.conserves acc del b)"

interpretation buffer_fifo: invariant_system fresh_buffer buffer_op conserved
proof unfold_locales
  fix s assume "fresh_buffer s"
  then obtain A b0 b where "s = (b, [], [])" "buffer_init A b0 = (0, b)"
    by (cases s) (auto simp: fresh_buffer_def)
  then show "conserved s"
    using buffer_allocate_cases [of A b0 INITIAL_BUFFER_SIZE 0 b]
    by (auto simp: conserved_def bq.conserves_def buffer_init_def)
next
  fix s t assume "conserved s" "buffer_op s t"
  then show "conserved t"
    by (auto simp: conserved_def elim!: buffer_op.cases intro: bq.conserves_intros
        simp del: if_split split del: if_split)
qed


lemma buffer_init_succeeds:
  "\<exists>b. buffer_init (\<lambda>_. Some []) b0 = (0, b) \<and> buffer_wf b \<and> buffer_data b = [] \<and> b_size b = 4096"
proof -
  obtain rc b where r: "buffer_init (\<lambda>_. Some []) b0 = (rc, b)" by (cases "buffer_init (\<lambda>_. Some []) b0")
  have "malloc (\<lambda>_. Some []) INITIAL_BUFFER_SIZE \<noteq> None"
    by (simp add: malloc_def INITIAL_BUFFER_SIZE_def)
  with buffer_allocate_cases [OF r [unfolded buffer_init_def]] r show ?thesis
    by (auto simp: INITIAL_BUFFER_SIZE_def)
qed


section \<open>Setting contents\<close>

lemma buffer_set_in_place:
  assumes wf: "buffer_wf b" and fits: "length d \<le> b_size b"
  shows "\<exists>p. buffer_set A b d (length d) = Some (buffer_produced (b\<lparr>b_ptr := p\<rparr>) (length d)) \<and>
     p = Block (d @ drop (length d) (block_bytes (b_ptr b)))"
  using assms by (auto elim!: buffer_wfE simp: buffer_set_def)

text \<open>\<open>buffer_init_contents\<close> on a granted request yields a buffer that holds exactly the given
  bytes.\<close>

lemma buffer_init_contents_holds_data:
  assumes "malloc A (length d) = Some m"
  shows "\<exists>b'. buffer_init_contents A b d (length d) = Some (0, b') \<and> buffer_wf b' \<and> buffer_data b' = d"
proof -
  obtain rc b1 where r: "buffer_allocate A b (length d) = (rc, b1)" by fastforce
  with assms have b1: "buffer_wf b1" "b_size b1 = length d" "b_head b1 = 0" "b_tail b1 = 0"
    using buffer_allocate_cases [OF r] by auto
  let ?b = "b1\<lparr>b_ptr := Block d, b_tail := length d\<rparr>"
  have "buffer_init_contents A b d (length d) = Some (0, ?b)"
    using buffer_set_in_place [OF b1(1), of d A] b1 r
    by (auto elim!: buffer_wfE simp: buffer_init_contents_def buffer_produced_def)
  moreover have "buffer_wf ?b" using b1 by (auto elim!: buffer_wfE intro: buffer_wfI)
  ultimately show ?thesis using b1 by auto
qed

text \<open>\<open>buffer_set\<close> does not replace the contents of a buffer that already holds data: when it
  reports success, the window is longer by the size of the new data, and its first bytes are the
  new data only when the window started at the start of the block.\<close>

lemma buffer_set_extends_window:
  assumes "buffer_wf b" "length d \<le> b_size b" "buffer_set A b d (length d) = Some (0, b')"
  shows "buffer_wf b' \<and> buffer_datacount b' = buffer_datacount b + length d"
proof -
  let ?p = "Block (d @ drop (length d) (block_bytes (b_ptr b)))"
  have "buffer_produced (b\<lparr>b_ptr := ?p\<rparr>) (length d) = (0, b')"
    using buffer_set_in_place [OF assms(1,2), of A] assms(3) by simp
  then have b': "b' = b\<lparr>b_ptr := ?p, b_tail := b_tail b + length d\<rparr>" "b_tail b + length d \<le> b_size b"
    by (auto simp: buffer_produced_def split: if_splits)
  have wf': "buffer_wf b'" using assms(1,2) b' by (auto elim!: buffer_wfE intro: buffer_wfI)
  moreover have "b_head b \<le> b_tail b" using assms(1) by (rule buffer_wfE)
  ultimately show ?thesis using b' assms(1) by (simp add: buffer_datacount_offsets)
qed

text \<open>
  A wrapped buffer has size zero, so its space counts wraps around: it is outside the invariant
  and must not be written to.
\<close>

lemma buffer_wrap_space: "0 < sz \<Longrightarrow> sz < 2 ^ 64 \<Longrightarrow> buffer_spacecount (buffer_wrap b d sz) = 2 ^ 64 - sz"
  by (simp add: buffer_wrap_def buffer_spacecount_def sz_sub_wraps)

text \<open>Shrinking with \<open>buffer_newsize\<close> writes past the end of the new block.\<close>

lemma buffer_newsize_shrink_undefined:
  assumes "buffer_wf b" "n < b_size b" "malloc A n = Some m"
  shows "buffer_newsize A b n = None"
  using assms
  by (auto elim!: buffer_wfE dest!: malloc_SomeD simp: buffer_newsize_def myrealloc_def mstore_def)

end
