(* ===== verification/Dynlist.thy ===== *)
theory Dynlist
  imports Prelude
begin

text \<open>
  The growable pointer array of \<open>src/src/list.c\<close> and \<open>src/src/list.h\<close>. The record
  \<open>slist\<close> is \<open>struct statsrelay_list\<close>; a slot that was allocated and never written is
  \<open>None\<close>. The theory shows that a push on a well-formed list appends its element (locale
  \<open>growable\<close>, interpreted as \<open>gl\<close>) and what a refused allocation leaves behind.
\<close>

section \<open>The list and its operations\<close>

record 'a slist =
  allocated_size :: nat
  l_size :: nat
  l_data :: "'a option list option"

definition statsrelay_list_new :: "allocator \<Rightarrow> 'a slist option" where
  "statsrelay_list_new A =
     (case malloc A 24 of
        None \<Rightarrow> None
      | Some _ \<Rightarrow> Some \<lparr>allocated_size = 0, l_size = 0, l_data = None\<rparr>)"

text \<open>
  \<open>realloc\<close> to \<open>k\<close> bytes keeps the slots that still fit; the new ones are unset. A null
  pointer is resized like an empty block.
\<close>

definition resize_slots :: "'a option list option \<Rightarrow> nat \<Rightarrow> 'a option list" where
  "resize_slots d k =
     (let old = (case d of None \<Rightarrow> [] | Some xs \<Rightarrow> xs)
      in take (k div 8) old @ replicate (k div 8 - length old) None)"

text \<open>
  \<open>statsrelay_list_expand\<close> counts the new element before it asks for memory. The result is
  the index of the new slot, or \<open>None\<close> for a null pointer.
\<close>

definition statsrelay_list_expand :: "allocator \<Rightarrow> 'a slist \<Rightarrow> nat option \<times> 'a slist" where
  "statsrelay_list_expand A l =
     (let index = l_size l;
          l1 = l\<lparr>l_size := (l_size l + 1) mod 2 ^ 64\<rparr>
      in if allocated_size l1 < l_size l1 then
           (if allocated_size l1 = 0 then
              (let l2 = l1\<lparr>allocated_size := 1\<rparr> in
               case malloc A 8 of
                 None \<Rightarrow> (None, l2\<lparr>l_data := None\<rparr>)
               | Some _ \<Rightarrow> (Some index, l2\<lparr>l_data := Some [None]\<rparr>))
            else
              (let l2 = l1\<lparr>allocated_size := (allocated_size l1 * 2) mod 2 ^ 64\<rparr>;
                   k = (8 * allocated_size l2) mod 2 ^ 64
               in case malloc A k of
                    None \<Rightarrow> (None, l2)
                  | Some _ \<Rightarrow> (Some index, l2\<lparr>l_data := Some (resize_slots (l_data l2) k)\<rparr>)))
         else (Some index, l1))"

text \<open>Reading and writing a slot, \<open>list->data[i]\<close>.\<close>

definition list_get :: "'a slist \<Rightarrow> nat \<Rightarrow> 'a option" where
  "list_get l i =
     (case l_data l of None \<Rightarrow> None | Some d \<Rightarrow> if i < length d then d ! i else None)"

definition list_put :: "'a slist \<Rightarrow> nat \<Rightarrow> 'a \<Rightarrow> 'a slist option" where
  "list_put l i v =
     (case l_data l of
        None \<Rightarrow> None
      | Some d \<Rightarrow> if i < length d then Some (l\<lparr>l_data := Some (d[i := Some v])\<rparr>) else None)"

text \<open>
  The way both clients add an element: expand the list, stop on a null result, otherwise
  store into the last slot.
\<close>

definition list_push :: "allocator \<Rightarrow> 'a slist \<Rightarrow> 'a \<Rightarrow> (bool \<times> 'a slist) option" where
  "list_push A l v =
     (case statsrelay_list_expand A l of
        (None, l1) \<Rightarrow> Some (False, l1)
      | (Some _, l1) \<Rightarrow> do { l2 \<leftarrow> list_put l1 (sz_sub (l_size l1) 1) v; Some (True, l2) })"

text \<open>\<open>statsrelay_list_destroy\<close> frees the block and the structure, neither of which is used again.\<close>

definition statsrelay_list_destroy :: "'a slist \<Rightarrow> unit option" where
  "statsrelay_list_destroy l = Some ()"

declare statsrelay_list_destroy_def [simp]

text \<open>
  \<open>statsrelay_list_destroy_full\<close> frees every element from \<open>i\<close> on in order; the model returns
  the freed pointers. Reading a slot that was never written is undefined.
\<close>

function list_free_from :: "'a slist \<Rightarrow> nat \<Rightarrow> 'a list option" where
  "list_free_from l i =
     (if i < l_size l then
        do { v \<leftarrow> list_get l i; vs \<leftarrow> list_free_from l (Suc i); Some (v # vs) }
      else Some [])"
  by pat_completeness auto
termination
  by (relation "measure (\<lambda>(l, i). l_size l - i)") auto

declare list_free_from.simps [simp del]

definition statsrelay_list_destroy_full :: "'a slist \<Rightarrow> 'a list option" where
  "statsrelay_list_destroy_full l =
     do { freed \<leftarrow> list_free_from l 0; _ \<leftarrow> statsrelay_list_destroy l; Some freed }"

section \<open>Invariant and abstraction\<close>

fun slots :: "'a option list option \<Rightarrow> 'a option list" where
  "slots None = []"
| "slots (Some d) = d"

definition slist_wf :: "'a slist \<Rightarrow> bool" where
  "slist_wf l \<longleftrightarrow>
     (l_data l = None \<longleftrightarrow> allocated_size l = 0) \<and>
     length (slots (l_data l)) = allocated_size l \<and>
     l_size l \<le> allocated_size l \<and> 8 * allocated_size l < 2 ^ 63 \<and>
     None \<notin> set (take (l_size l) (slots (l_data l)))"

definition slist_elems :: "'a slist \<Rightarrow> 'a list" where
  "slist_elems l = map the (take (l_size l) (slots (l_data l)))"

lemma list_new_wf: "statsrelay_list_new A = Some l \<Longrightarrow> slist_wf l \<and> slist_elems l = []"
  by (auto simp: statsrelay_list_new_def slist_wf_def slist_elems_def split: option.splits)

lemma length_slist_elems: "slist_wf l \<Longrightarrow> length (slist_elems l) = l_size l"
  by (simp add: slist_wf_def slist_elems_def)

lemma list_get_slots: "list_get l i = (if i < length (slots (l_data l)) then slots (l_data l) ! i else None)"
  by (cases "l_data l") (auto simp: list_get_def)

lemma list_get_wf:
  assumes "slist_wf l" "i < l_size l"
  shows "list_get l i = Some (slist_elems l ! i)"
proof -
  have len: "i < length (slots (l_data l))" using assms by (simp add: slist_wf_def)
  have "slots (l_data l) ! i \<in> set (take (l_size l) (slots (l_data l)))"
    using assms len by (auto simp: in_set_conv_nth intro!: exI [of _ i])
  moreover have "None \<notin> set (take (l_size l) (slots (l_data l)))" using assms(1) by (simp add: slist_wf_def)
  ultimately have "slots (l_data l) ! i \<noteq> None" by metis
  with len assms show ?thesis by (auto simp: list_get_slots slist_elems_def)
qed

section \<open>Expanding and pushing\<close>

text \<open>A successful expansion makes room for exactly one more element and keeps the others.\<close>

lemma list_expand_ok:
  assumes "slist_wf l" "statsrelay_list_expand A l = (Some i, l')"
  shows "i = l_size l \<and> l_size l' = Suc (l_size l) \<and> l_size l < length (slots (l_data l')) \<and>
    length (slots (l_data l')) = allocated_size l' \<and> 8 * allocated_size l' < 2 ^ 63 \<and>
    l_data l' \<noteq> None \<and> take (l_size l) (slots (l_data l')) = take (l_size l) (slots (l_data l))"
proof -
  have small: "l_size l + 1 < 2 ^ 64" "allocated_size l * 2 < 2 ^ 64" "8 * (allocated_size l * 2) < 2 ^ 64"
    using assms(1) by (auto simp: slist_wf_def)
  show ?thesis
    using assms small
    by (auto simp: statsrelay_list_expand_def slist_wf_def Let_def resize_slots_def
        split: if_splits option.splits dest!: malloc_SomeD)
qed

text \<open>A refused expansion has already counted the element it has no slot for.\<close>

lemma list_expand_refused:
  assumes "slist_wf l" "statsrelay_list_expand A l = (None, l')"
  shows "l_size l' = Suc (l_size l) \<and> list_get l' (l_size l) = None \<and> l_data l' = l_data l"
proof -
  have small: "l_size l + 1 < 2 ^ 64" using assms(1) by (auto simp: slist_wf_def)
  show ?thesis
    using assms small
    by (auto simp: statsrelay_list_expand_def slist_wf_def Let_def list_get_slots
        split: if_splits option.splits)
qed

lemma list_push_ok:
  assumes wf: "slist_wf l" and e: "statsrelay_list_expand A l = (Some i, l1)"
  shows "\<exists>l'. list_push A l v = Some (True, l') \<and> slist_wf l' \<and> slist_elems l' = slist_elems l @ [v]"
proof -
  note x = list_expand_ok [OF wf e]
  obtain d where d: "l_data l1 = Some d" using x by auto
  have idx: "sz_sub (l_size l1) 1 = l_size l" using x wf by (simp add: slist_wf_def)
  have put: "list_push A l v = Some (True, l1\<lparr>l_data := Some (d[l_size l := Some v])\<rparr>)"
    using e x d by (simp add: list_push_def list_put_def idx)
  have tk: "take (Suc (l_size l)) (d[l_size l := Some v]) = take (l_size l) (slots (l_data l)) @ [Some v]"
    using x d by (simp add: take_Suc_conv_app_nth)
  show ?thesis using put x d tk wf by (simp add: slist_wf_def slist_elems_def)
qed

lemma list_push_refused:
  assumes "slist_wf l" "statsrelay_list_expand A l = (None, l1)"
  shows "list_push A l v = Some (False, l1)"
  using assms by (simp add: list_push_def)

section \<open>The interface the clients use\<close>

locale growable =
  fixes wf :: "'l \<Rightarrow> bool"
    and elems :: "'l \<Rightarrow> 'a list"
    and count :: "'l \<Rightarrow> nat"
    and get :: "'l \<Rightarrow> nat \<Rightarrow> 'a option"
    and push :: "allocator \<Rightarrow> 'l \<Rightarrow> 'a \<Rightarrow> (bool \<times> 'l) option"
  assumes count_law: "wf l \<Longrightarrow> count l = length (elems l)"
    and get_law: "wf l \<Longrightarrow> i < length (elems l) \<Longrightarrow> get l i = Some (elems l ! i)"
    and push_law:
      "wf l \<Longrightarrow> \<exists>ok l'. push A l v = Some (ok, l') \<and> (ok \<longrightarrow> wf l' \<and> elems l' = elems l @ [v])"
begin

lemma push_defined: "wf l \<Longrightarrow> push A l v \<noteq> None"
  using push_law [of l A v] by auto

lemma push_elems: "wf l \<Longrightarrow> push A l v = Some (True, l') \<Longrightarrow> wf l' \<and> elems l' = elems l @ [v]"
  using push_law [of l A v] by auto

lemma get_push_last: "wf l \<Longrightarrow> push A l v = Some (True, l') \<Longrightarrow> get l' (count l) = Some v"
  using push_elems [of l A v l'] get_law [of l' "count l"] count_law [of l] by simp

lemma get_push_old:
  "wf l \<Longrightarrow> push A l v = Some (True, l') \<Longrightarrow> i < count l \<Longrightarrow> get l' i = get l i"
  using push_elems [of l A v l'] get_law [of l' i] get_law [of l i] count_law [of l]
  by (simp add: nth_append)

end

interpretation gl: growable slist_wf slist_elems l_size list_get list_push
proof unfold_locales
  fix l :: "'a slist" and A v
  assume wf: "slist_wf l"
  then show "l_size l = length (slist_elems l)" by (simp add: length_slist_elems)
  show "\<exists>ok l'. list_push A l v = Some (ok, l') \<and> (ok \<longrightarrow> slist_wf l' \<and> slist_elems l' = slist_elems l @ [v])"
  proof (cases "statsrelay_list_expand A l")
    case (Pair r l1)
    then show ?thesis
    proof (cases r)
      case None
      then show ?thesis using list_push_refused [OF wf] Pair by auto
    next
      case (Some i)
      then show ?thesis using list_push_ok [OF wf, of A i l1 v] Pair by auto
    qed
  qed
next
  fix l :: "'a slist" and i
  assume "slist_wf l" "i < length (slist_elems l)"
  then show "list_get l i = Some (slist_elems l ! i)" by (simp add: list_get_wf length_slist_elems)
qed

lemma list_free_from_wf:
  assumes "slist_wf l" "i \<le> l_size l"
  shows "list_free_from l i = Some (drop i (slist_elems l))"
  using assms
proof (induction "l_size l - i" arbitrary: i)
  case 0
  then show ?case by (subst list_free_from.simps) (simp add: length_slist_elems)
next
  case (Suc n)
  then have lt: "i < l_size l" by simp
  with Suc have "list_free_from l (Suc i) = Some (drop (Suc i) (slist_elems l))" by simp
  with lt Suc.prems show ?case
    by (subst list_free_from.simps) (simp add: list_get_wf length_slist_elems Cons_nth_drop_Suc)
qed

text \<open>\<open>statsrelay_list_destroy_full\<close> on a well-formed list frees each element once, in order,
  and touches nothing else.\<close>

lemma list_destroy_full_frees_all:
  assumes "slist_wf l"
  shows "statsrelay_list_destroy_full l = Some (slist_elems l)"
  using list_free_from_wf [OF assms, of 0]
  by (simp add: statsrelay_list_destroy_full_def)

text \<open>A refused expansion still counts the new element, so freeing the list's contents
  afterwards, as the callers do, reads a slot that does not exist.\<close>

lemma list_expand_failure_unsafe:
  assumes "slist_wf l" "statsrelay_list_expand A l = (None, l')"
  shows "l_size l' = l_size l + 1 \<and> statsrelay_list_destroy_full l' = None"
proof -
  note r = list_expand_refused [OF assms]
  have "i \<le> l_size l \<Longrightarrow> list_free_from l' i = None" for i
  proof (induction "l_size l - i" arbitrary: i)
    case 0
    with r show ?case by (subst list_free_from.simps) simp
  next
    case (Suc n)
    then have "list_free_from l' (Suc i) = None" by simp
    with r Suc.prems show ?case by (subst list_free_from.simps) (simp split: Option.bind_splits)
  qed
  with r show ?thesis by (simp add: statsrelay_list_destroy_full_def)
qed

end
