(* ===== verification/Hashlib.thy ===== *)
theory Hashlib
  imports Prelude
begin

unbundle bit_operations_syntax

text \<open>
  The key hash of \<open>src/src/hashlib.c\<close>: MurmurHash3 (32 bit) with a fixed seed, reduced to
  the number of shards. Words are read from memory in little-endian order, as on the
  machines the published hash values of the repository's tests come from. The theory shows
  that the indexed loop with its shift-and-or rotations equals a reference definition by
  recursion over the bytes, that the result lies in the requested range, and that the values
  asserted by the repository's test program are the ones computed.
\<close>

section \<open>The code's hash\<close>

definition HASHLIB_SEED :: u32 where
  "HASHLIB_SEED = 0xaccd3d34"

definition murmur_c1 :: u32 where "murmur_c1 = 0xcc9e2d51"
definition murmur_c2 :: u32 where "murmur_c2 = 0x1b873593"
definition murmur_n :: u32 where "murmur_n = 0xe6546b64"

text \<open>A byte as \<open>uint8_t\<close> widened to 32 bits, and the word at block index \<open>i\<close>.\<close>

definition byte32 :: "char \<Rightarrow> u32" where
  "byte32 c = of_nat (of_char c)"

definition load32 :: "bytes \<Rightarrow> nat \<Rightarrow> u32" where
  "load32 key i =
     byte32 (key ! (4 * i)) OR push_bit 8 (byte32 (key ! (4 * i + 1))) OR
     push_bit 16 (byte32 (key ! (4 * i + 2))) OR push_bit 24 (byte32 (key ! (4 * i + 3)))"

text \<open>The scrambling of a block or of the tail: \<open>k *= c1; k = (k << r1) | (k >> (32 - r1)); k *= c2\<close>.\<close>

definition murmur_scramble :: "u32 \<Rightarrow> u32" where
  "murmur_scramble k0 =
     (let k1 = k0 * murmur_c1;
          k2 = push_bit 15 k1 OR drop_bit (32 - 15) k1
      in k2 * murmur_c2)"

text \<open>The loop over the blocks, from block \<open>i\<close> on.\<close>

function murmur_blocks :: "bytes \<Rightarrow> nat \<Rightarrow> nat \<Rightarrow> u32 \<Rightarrow> u32" where
  "murmur_blocks key i nblocks hash =
     (if i < nblocks then
        (let h1 = hash XOR murmur_scramble (load32 key i);
             h2 = (push_bit 13 h1 OR drop_bit (32 - 13) h1) * 5 + murmur_n
         in murmur_blocks key (i + 1) nblocks h2)
      else hash)"
  by pat_completeness auto
termination
  by (relation "measure (\<lambda>(key, i, n, h). n - i)") auto

declare murmur_blocks.simps [simp del]

text \<open>The switch on \<open>len & 3\<close> with its fall-through cases.\<close>

definition murmur_tail :: "bytes \<Rightarrow> nat \<Rightarrow> u32 \<Rightarrow> u32" where
  "murmur_tail t r hash =
     (let k3 = (if r \<ge> 3 then push_bit 16 (byte32 (t ! 2)) else 0);
          k2 = (if r \<ge> 2 then k3 XOR push_bit 8 (byte32 (t ! 1)) else k3);
          k1 = (if r \<ge> 1 then k2 XOR byte32 (t ! 0) else k2)
      in if r \<ge> 1 then hash XOR murmur_scramble k1 else hash)"

definition murmur_final :: "u32 \<Rightarrow> u32 \<Rightarrow> u32" where
  "murmur_final len h0 =
     (let h1 = h0 XOR len;
          h2 = h1 XOR drop_bit 16 h1;
          h3 = h2 * 0x85ebca6b;
          h4 = h3 XOR drop_bit 13 h3;
          h5 = h4 * 0xc2b2ae35
      in h5 XOR drop_bit 16 h5)"

text \<open>Reading \<open>len\<close> bytes of a shorter key is out of bounds.\<close>

definition murmur3_32 :: "bytes \<Rightarrow> u32 \<Rightarrow> u32 \<Rightarrow> u32 option" where
  "murmur3_32 key len seed =
     (if unat len \<le> length key then
        (let nblocks = unat len div 4;
             h = murmur_blocks key 0 nblocks seed;
             h' = murmur_tail (drop (nblocks * 4) key) (unat len mod 4) h
         in Some (murmur_final len h'))
      else None)"

text \<open>The remainder by an empty domain is a division by zero.\<close>

definition stats_hash :: "bytes \<Rightarrow> u32 \<Rightarrow> u32 \<Rightarrow> u32 option" where
  "stats_hash key keylen output_domain =
     do {
       h \<leftarrow> murmur3_32 key keylen HASHLIB_SEED;
       if output_domain = 0 then None else Some (h mod output_domain)
     }"

section \<open>Reference definition\<close>

text \<open>
  MurmurHash3 over a byte sequence, by recursion on groups of four bytes, with rotations
  and little-endian numbers.
\<close>

fun le_word :: "bytes \<Rightarrow> u32" where
  "le_word [] = 0"
| "le_word (c # cs) = byte32 c XOR push_bit 8 (le_word cs)"

definition ref_scramble :: "u32 \<Rightarrow> u32" where
  "ref_scramble k = word_rotl 15 (k * murmur_c1) * murmur_c2"

fun ref_body :: "bytes \<Rightarrow> u32 \<Rightarrow> u32" where
  "ref_body (a # b # c # d # cs) h =
     ref_body cs (word_rotl 13 (h XOR ref_scramble (le_word [a, b, c, d])) * 5 + murmur_n)"
| "ref_body [] h = h"
| "ref_body cs h = h XOR ref_scramble (le_word cs)"

definition murmur3_ref :: "bytes \<Rightarrow> u32 \<Rightarrow> u32" where
  "murmur3_ref key seed = murmur_final (of_nat (length key)) (ref_body key seed)"

section \<open>The code computes the reference hash\<close>

lemma rot_eq_word_rotl:
  fixes k :: u32
  assumes "0 < r" "r < 32"
  shows "push_bit r k OR drop_bit (32 - r) k = word_rotl r k"
proof (rule bit_word_eqI)
  fix n assume n: "n < LENGTH(32)"
  show "bit (push_bit r k OR drop_bit (32 - r) k) n = bit (word_rotl r k) n"
  proof (cases "r \<le> n")
    case True
    with n assms have "n + 32 - r = (n - r) + 32" by simp
    then have "(n + 32 - r) mod 32 = n - r" using n by (simp only: mod_add_self2) simp
    with True n assms show ?thesis
      by (auto simp: bit_simps dest: bit_imp_le_length)
  next
    case False
    with n assms have "(n + (32 - r)) mod 32 = 32 - r + n" by simp
    with False n assms show ?thesis by (simp add: bit_simps)
  qed
qed

lemma murmur_scramble_eq: "murmur_scramble k = ref_scramble k"
  by (simp add: murmur_scramble_def ref_scramble_def Let_def rot_eq_word_rotl [of 15, simplified])

lemma bit_byte32: "bit (byte32 c) n \<Longrightarrow> n < 8"
proof -
  assume "bit (byte32 c) n"
  then have "bit (of_char c :: nat) n" by (simp add: byte32_def bit_simps)
  moreover have "take_bit 8 (of_char c :: nat) = of_char c" by (simp add: take_bit_nat_eq_self)
  ultimately show ?thesis by (metis bit_take_bit_iff)
qed

lemma load32_eq:
  "load32 key i = le_word [key ! (4 * i), key ! (4 * i + 1), key ! (4 * i + 2), key ! (4 * i + 3)]"
  unfolding load32_def le_word.simps
  by (rule bit_word_eqI) (auto simp: bit_simps dest: bit_byte32)

lemma drop_four:
  assumes "4 * i + 4 \<le> length xs"
  shows "drop (4 * i) xs =
    xs ! (4 * i) # xs ! (4 * i + 1) # xs ! (4 * i + 2) # xs ! (4 * i + 3) # drop (4 * (i + 1)) xs"
  using assms
  by (simp add: Cons_nth_drop_Suc [symmetric] numeral_eq_Suc)

lemma murmur_tail_eq:
  assumes "length t < 4"
  shows "murmur_tail t (length t) h = ref_body t h"
  using assms
  by (cases "(t, h)" rule: ref_body.cases)
    (auto simp: murmur_tail_def Let_def murmur_scramble_eq ac_simps push_bit_xor)

lemma murmur_loop_eq:
  assumes "nb = length key div 4" "i \<le> nb"
  shows "murmur_tail (drop (nb * 4) key) (length key mod 4) (murmur_blocks key i nb h) =
    ref_body (drop (4 * i) key) h"
  using assms(2)
proof (induction "nb - i" arbitrary: i h)
  case 0
  then have "i = nb" by simp
  moreover have "length (drop (nb * 4) key) = length key mod 4"
    using assms(1) by (simp add: minus_div_mult_eq_mod)
  ultimately show ?case
    using murmur_tail_eq [of "drop (nb * 4) key" h]
    by (simp add: murmur_blocks.simps mult.commute)
next
  case (Suc n)
  then have lt: "i < nb" by simp
  then have four: "4 * i + 4 \<le> length key" using assms(1) by linarith
  let ?h = "word_rotl 13 (h XOR ref_scramble (load32 key i)) * 5 + murmur_n"
  have "murmur_blocks key i nb h = murmur_blocks key (i + 1) nb ?h"
    using lt by (subst murmur_blocks.simps)
      (simp add: Let_def murmur_scramble_eq rot_eq_word_rotl [of 13, simplified])
  moreover have "ref_body (drop (4 * i) key) h = ref_body (drop (4 * (i + 1)) key) ?h"
    by (simp only: drop_four [OF four] ref_body.simps load32_eq)
  ultimately show ?case using Suc by simp
qed

lemma murmur3_32_eq_ref:
  assumes "length key < 2 ^ 32"
  shows "murmur3_32 key (of_nat (length key)) seed = Some (murmur3_ref key seed)"
proof -
  have len: "unat (of_nat (length key) :: u32) = length key"
    using assms by (simp add: unat_of_nat)
  show ?thesis
    using murmur_loop_eq [of "length key div 4" key 0 seed]
    by (simp add: murmur3_32_def len Let_def murmur3_ref_def)
qed



section \<open>Range and published values\<close>

lemma stats_hash_eq:
  assumes "length key < 2 ^ 32" "d \<noteq> 0"
  shows "stats_hash key (of_nat (length key)) d = Some (murmur3_ref key HASHLIB_SEED mod d)"
  using assms by (simp add: stats_hash_def murmur3_32_eq_ref)

lemma word_mod_less: "d \<noteq> 0 \<Longrightarrow> unat (h mod d) < unat (d :: u32)"
  by (simp add: unat_mod_distrib unat_gt_0)

text \<open>Whenever \<open>stats_hash\<close> returns, its result lies in \<open>[0, output_domain)\<close>.\<close>

lemma stats_hash_in_range:
  assumes "stats_hash key len d = Some h"
  shows "unat h < unat d"
  using assms by (auto simp: stats_hash_def word_mod_less split: Option.bind_splits if_splits)

text \<open>The four values asserted by the repository's hash test program
  (\<open>src/src/tests/test_hashlib.c\<close>) are the values the model computes.\<close>

lemma stats_hash_published_values:
  "stats_hash ''apple'' 5 0xFFFFFFFF = Some 2699884538 \<and>
   stats_hash ''banana'' 6 0xFFFFFFFF = Some 558421143 \<and>
   stats_hash ''orange'' 6 0xFFFFFFFF = Some 2279140812 \<and>
   stats_hash ''lemon'' 5 0xFFFFFFFF = Some 4183924513"
  by code_simp

end
