(* ===== verification/Protocol.thy ===== *)
theory Protocol
  imports Prelude
begin

text \<open>
  The key parsers of \<open>src/src/protocol.c\<close>: the key of a line is everything before the first
  delimiter, a space for carbon and a colon for statsd. The interface that
  \<open>src/src/protocol.h\<close> describes is the locale \<open>key_parser\<close>; both parsers are
  interpretations of it.
\<close>

definition simple_parse :: "bytes option \<Rightarrow> nat \<Rightarrow> char \<Rightarrow> nat option" where
  "simple_parse instr inlen needle =
     (case instr of
        None \<Rightarrow> Some 0
      | Some m \<Rightarrow>
          if inlen = 0 then Some 0
          else do {
            p \<leftarrow> memchr m needle inlen;
            case p of None \<Rightarrow> Some 0 | Some i \<Rightarrow> Some i
          })"

definition protocol_parser_carbon :: "bytes option \<Rightarrow> nat \<Rightarrow> nat option" where
  "protocol_parser_carbon instr inlen = simple_parse instr inlen (CHR '' '')"

definition protocol_parser_statsd :: "bytes option \<Rightarrow> nat \<Rightarrow> nat option" where
  "protocol_parser_statsd instr inlen = simple_parse instr inlen (CHR '':'')"

text \<open>A protocol parser as the server stores it.\<close>

type_synonym protocol_parser = "bytes option \<Rightarrow> nat \<Rightarrow> nat option"

lemma simple_parse_eq:
  "n \<le> length m \<Longrightarrow>
   simple_parse (Some m) n c = Some (case index_of c (take n m) of None \<Rightarrow> 0 | Some i \<Rightarrow> i)"
  by (cases "index_of c (take n m)") (auto simp: simple_parse_def)

section \<open>The parser interface\<close>

text \<open>
  On a readable line the parser returns; a positive result is the length of the key, which is
  followed by the delimiter and does not contain it; the result depends on the line only.
\<close>

locale key_parser =
  fixes parse :: "bytes option \<Rightarrow> nat \<Rightarrow> nat option" and delim :: char
  assumes parse_null: "parse None n = Some 0"
    and parse_law: "n \<le> length m \<Longrightarrow> parse (Some m) n = Some (case index_of delim (take n m) of None \<Rightarrow> 0 | Some i \<Rightarrow> i)"
begin

lemma parse_total: "n \<le> length m \<Longrightarrow> \<exists>k. parse (Some m) n = Some k \<and> (k = 0 \<or> k < n)"
  using parse_law by (auto split: option.splits dest: index_of_less)

lemma parse_key:
  assumes "key \<noteq> []" "delim \<notin> set key" "length key < n" "n \<le> length (key @ delim # rest)"
  shows "parse (Some (key @ delim # rest)) n = Some (length key)"
proof -
  have "take n (key @ delim # rest) = key @ delim # take (n - Suc (length key)) rest"
    using assms(3) by (simp add: take_Cons' )
  with assms show ?thesis by (simp add: parse_law)
qed

lemma parse_positive:
  assumes "parse (Some m) n = Some k" "n \<le> length m" "0 < k"
  shows "k < n \<and> m ! k = delim \<and> delim \<notin> set (take k m)"
  using assms by (auto simp: parse_law index_of_Some_iff split: option.splits)

lemma parse_zero:
  "n \<le> length m \<Longrightarrow> parse (Some m) n = Some 0 \<longleftrightarrow> (delim \<notin> set (take n m) \<or> (\<exists>r. take n m = delim # r))"
  by (cases "take n m") (auto simp: parse_law split: option.splits if_splits dest: index_of_SomeD)

lemma parse_spec:
  "parse (Some line) (length line) = Some k \<longleftrightarrow>
     (if k = 0 then \<nexists>key rest. key \<noteq> [] \<and> line = key @ delim # rest \<and> delim \<notin> set key
      else \<exists>key rest. line = key @ delim # rest \<and> length key = k \<and> delim \<notin> set key)"
proof (cases "k = 0")
  case True
  have "\<exists>key rest. key \<noteq> [] \<and> line = key @ delim # rest \<and> delim \<notin> set key"
    if "delim \<in> set line" "\<nexists>r. line = delim # r"
    using split_list_first [OF that(1)] that(2) by (metis append_Nil)
  moreover have "delim \<in> set line \<and> (\<nexists>r. line = delim # r)"
    if "key \<noteq> []" "line = key @ delim # rest" "delim \<notin> set key" for key rest
    using that by (cases key) auto
  ultimately have "(delim \<notin> set line \<or> (\<exists>r. line = delim # r)) \<longleftrightarrow>
      (\<nexists>key rest. key \<noteq> [] \<and> line = key @ delim # rest \<and> delim \<notin> set key)"
    by metis
  with True show ?thesis using parse_zero [of "length line" line] by simp
next
  case False
  have "\<exists>key rest. line = key @ delim # rest \<and> length key = k \<and> delim \<notin> set key"
    if "parse (Some line) (length line) = Some k"
  proof (intro exI conjI)
    have k: "k < length line" "line ! k = delim" "delim \<notin> set (take k line)"
      using parse_positive [OF that] False by auto
    then show "line = take k line @ delim # drop (Suc k) line"
      by (metis id_take_nth_drop)
    show "length (take k line) = k" "delim \<notin> set (take k line)" using k by auto
  qed
  moreover have "parse (Some line) (length line) = Some k"
    if "line = key @ delim # rest" "length key = k" "delim \<notin> set key" for key rest
    using parse_key [of key "length line" rest] that False by auto
  ultimately show ?thesis using False by auto
qed

end

interpretation carbon_key: key_parser protocol_parser_carbon "CHR '' ''"
  by unfold_locales
    (simp_all add: protocol_parser_carbon_def simple_parse_eq simple_parse_def [of None])

interpretation statsd_key: key_parser protocol_parser_statsd "CHR '':''"
  by unfold_locales
    (simp_all add: protocol_parser_statsd_def simple_parse_eq simple_parse_def [of None])

section \<open>What the parsers return\<close>

text \<open>For a statsd line the parser returns the length of the key exactly when the line is a
  nonempty key without colons, a colon and anything else; on every other line it returns 0.\<close>

lemma protocol_parser_statsd_spec:
  "protocol_parser_statsd (Some line) (length line) = Some k \<longleftrightarrow>
     (if k = 0 then \<nexists>key rest. key \<noteq> [] \<and> line = key @ CHR '':'' # rest \<and> CHR '':'' \<notin> set key
      else \<exists>key rest. line = key @ CHR '':'' # rest \<and> length key = k \<and> CHR '':'' \<notin> set key)"
  by (rule statsd_key.parse_spec)

text \<open>The carbon parser returns the length of the key exactly when the line is a nonempty key
  without spaces, a space and anything else; on every other line it returns 0.\<close>

lemma protocol_parser_carbon_spec:
  "protocol_parser_carbon (Some line) (length line) = Some k \<longleftrightarrow>
     (if k = 0 then \<nexists>key rest. key \<noteq> [] \<and> line = key @ CHR '' '' # rest \<and> CHR '' '' \<notin> set key
      else \<exists>key rest. line = key @ CHR '' '' # rest \<and> length key = k \<and> CHR '' '' \<notin> set key)"
  by (rule carbon_key.parse_spec)

end
