(* ===== verification/Validate.thy ===== *)
theory Validate
  imports Prelude
begin

text \<open>
  The line validators of \<open>src/src/validate.c\<close>. Both take a readable line and its length and
  return 0 for a valid line, 1 for an invalid one. The theory characterises the accepted lines:
  the statsd grammar \<open>key:value|type[|@rate]\<close> and carbon's three space-separated fields. The
  contract shared by the two is the locale \<open>line_validator\<close>.
\<close>

section \<open>Conversions of \<open>strtod\<close>\<close>

text \<open>
  The code uses \<open>strtod\<close> only to ask whether a conversion was possible (value 0 and end pointer
  equal to the start means it was not). In the C locale a conversion is possible when, after
  white space and an optional sign, the text starts with a digit, with a point and a digit, or
  with \<open>inf\<close> or \<open>nan\<close> in any case.
\<close>

definition starts_number :: "bytes \<Rightarrow> bool" where
  "starts_number s =
     (case s of
        [] \<Rightarrow> False
      | c # r \<Rightarrow>
          c_isdigit c \<or>
          (c = CHR ''.'' \<and> (case r of [] \<Rightarrow> False | d # _ \<Rightarrow> c_isdigit d)) \<or>
          map c_tolower (take 3 s) = ''inf'' \<or> map c_tolower (take 3 s) = ''nan'')"

definition drop_sign :: "bytes \<Rightarrow> bytes" where
  "drop_sign s = (case s of [] \<Rightarrow> [] | c # r \<Rightarrow> if c = CHR ''+'' \<or> c = CHR ''-'' then r else s)"

definition strtod_converts :: "bytes \<Rightarrow> bool" where
  "strtod_converts s = starts_number (drop_sign (dropWhile c_isspace s))"

section \<open>The validators\<close>

definition valid_stat_types :: "bytes list" where
  "valid_stat_types = [''c'', ''ms'', ''kv'', ''g'', ''h'', ''s'']"

text \<open>The loop over the known types, on the bytes at \<open>start\<close>.\<close>

definition valid_type_at :: "bytes \<Rightarrow> nat \<Rightarrow> bool" where
  "valid_type_at m plen =
     list_ex (\<lambda>t. length t = plen \<and> strncmp_eq m t plen) valid_stat_types"

text \<open>
  \<open>validate_statsd\<close> works on a private copy of the line, whose result is not checked for null.
  Positions are offsets into the copy. The bytes that the code overwrites with a terminator and
  restores (the first colon, the second bar) are never read in between, so the copy stays fixed.
\<close>

definition validate_sample_rate :: "bytes \<Rightarrow> nat \<Rightarrow> nat \<Rightarrow> int" where
  "validate_sample_rate blk len e3 =
     (if sz_sub len e3 > 1 \<and> blk ! (e3 + 1) = CHR ''@'' then
        (let start = e3 + 2; plen = sz_sub len start in
         if plen = 0 then 1
         else if \<not> strtod_converts (c_str (drop start blk)) then 1 else 0)
      else 1)"

definition validate_type :: "bytes \<Rightarrow> nat \<Rightarrow> nat \<Rightarrow> int option" where
  "validate_type blk len start =
     do {
       e3 \<leftarrow> memchr (drop start blk) (CHR ''|'') (sz_sub len start);
       case e3 of
         None \<Rightarrow> Some (if valid_type_at (drop start blk) (sz_sub len start) then 0 else 1)
       | Some n \<Rightarrow>
           Some (if valid_type_at (drop start blk) n
                 then validate_sample_rate blk len (start + n) else 1)
     }"

definition validate_statsd :: "allocator \<Rightarrow> bytes \<Rightarrow> nat \<Rightarrow> int option" where
  "validate_statsd A line len =
     do {
       dup \<leftarrow> strndup A line len;
       blk \<leftarrow> dup;
       e1 \<leftarrow> memchr blk (CHR '':'') len;
       case e1 of
         None \<Rightarrow> Some 1
       | Some i \<Rightarrow>
           if i < 1 then Some 1
           else if \<not> strtod_converts (c_str (drop (i + 1) blk)) then Some 1
           else do {
             e2 \<leftarrow> memchr (drop (i + 1) blk) (CHR ''|'') (sz_sub len (i + 1));
             case e2 of
               None \<Rightarrow> Some 1
             | Some j \<Rightarrow> validate_type blk len (i + 1 + j + 1)
           }
     }"

text \<open>
  The loop of \<open>validate_carbon\<close>: \<open>p\<close> is the offset of the search, \<open>n\<close> its length.
\<close>

function carbon_spaces :: "bytes \<Rightarrow> nat \<Rightarrow> nat \<Rightarrow> nat \<Rightarrow> nat \<Rightarrow> nat option" where
  "carbon_spaces line len p n found =
     do {
       s \<leftarrow> memchr (drop p line) (CHR '' '') n;
       case s of
         None \<Rightarrow> Some found
       | Some i \<Rightarrow>
           (let found' = found + 1; n' = sz_sub (sz_sub len (p + i)) 1; p' = p + i + 1
            in if found' > 2 then Some found' else carbon_spaces line len p' n' found')
     }"
  by pat_completeness auto
termination
  by (relation "measure (\<lambda>(line, len, p, n, found). 3 - found)") auto

declare carbon_spaces.simps [simp del]

definition validate_carbon :: "allocator \<Rightarrow> bytes \<Rightarrow> nat \<Rightarrow> int option" where
  "validate_carbon A line len =
     do {
       found \<leftarrow> carbon_spaces line len 0 len 0;
       Some (if found \<noteq> 2 then 1 else 0)
     }"

type_synonym line_validator_fn = "allocator \<Rightarrow> bytes \<Rightarrow> nat \<Rightarrow> int option"

section \<open>The statsd grammar\<close>

text \<open>
  The lines the statsd validator is meant to accept: a nonempty key, a value that starts with a
  number, one of the known types and optionally a sample rate that starts with a number.
\<close>

definition statsd_line :: "bytes \<Rightarrow> bool" where
  "statsd_line line \<longleftrightarrow>
     (\<exists>key v t rest.
        line = key @ CHR '':'' # v @ CHR ''|'' # t @ rest \<and>
        key \<noteq> [] \<and> CHR '':'' \<notin> set key \<and>
        CHR ''|'' \<notin> set v \<and> strtod_converts v \<and> t \<in> set valid_stat_types \<and>
        (rest = [] \<or> (\<exists>rate. rest = ''|@'' @ rate \<and> strtod_converts rate)))"

text \<open>The same, as a function that cuts the line at its separators.\<close>

definition statsd_tail_ok :: "bytes \<Rightarrow> bool" where
  "statsd_tail_ok r =
     (case cut_at (CHR ''|'') r of
        None \<Rightarrow> r \<in> set valid_stat_types
      | Some (t, r') \<Rightarrow>
          t \<in> set valid_stat_types \<and>
          (case r' of [] \<Rightarrow> False | a # rate \<Rightarrow> a = CHR ''@'' \<and> strtod_converts rate))"

definition statsd_accepts :: "bytes \<Rightarrow> bool" where
  "statsd_accepts line =
     (case cut_at (CHR '':'') line of
        None \<Rightarrow> False
      | Some (key, r) \<Rightarrow>
          key \<noteq> [] \<and> strtod_converts r \<and>
          (case cut_at (CHR ''|'') r of None \<Rightarrow> False | Some (v, r') \<Rightarrow> statsd_tail_ok r'))"

lemma strtod_converts_stops: "strtod_converts (v @ CHR ''|'' # w) = strtod_converts v"
proof -
  have ws: "dropWhile c_isspace (v @ CHR ''|'' # w) = dropWhile c_isspace v @ CHR ''|'' # w"
    by (induction v) (auto simp: c_isspace_def)
  have sgn: "drop_sign (x @ CHR ''|'' # w) = drop_sign x @ CHR ''|'' # w" for x
    by (cases x) (auto simp: drop_sign_def)
  have num: "starts_number (x @ CHR ''|'' # w) = starts_number x" for x
  proof (cases x)
    case (Cons c r)
    then show ?thesis
      by (cases r; cases "tl r")
        (auto simp: starts_number_def c_isdigit_def c_tolower_def numeral_eq_Suc)
  qed (simp add: starts_number_def c_isdigit_def c_tolower_def)
  show ?thesis by (simp add: strtod_converts_def ws sgn num)
qed

lemma strtod_converts_Nil [simp]: "\<not> strtod_converts []"
  by (simp add: strtod_converts_def drop_sign_def starts_number_def)

lemma stat_type_no_bar: "t \<in> set valid_stat_types \<Longrightarrow> CHR ''|'' \<notin> set t"
  by (auto simp: valid_stat_types_def)

lemma statsd_tail_ok_iff:
  "statsd_tail_ok r \<longleftrightarrow>
     (\<exists>t rest. r = t @ rest \<and> t \<in> set valid_stat_types \<and>
        (rest = [] \<or> (\<exists>rate. rest = ''|@'' @ rate \<and> strtod_converts rate)))"
  (is "_ = ?R")
proof
  assume ok: "statsd_tail_ok r"
  show ?R
  proof (cases "cut_at (CHR ''|'') r")
    case None
    with ok show ?thesis by (auto simp: statsd_tail_ok_def)
  next
    case (Some p)
    then obtain t rate where "r = t @ ''|@'' @ rate" "t \<in> set valid_stat_types" "strtod_converts rate"
      using ok by (cases p) (auto simp: statsd_tail_ok_def cut_at_Some split: list.splits)
    then show ?thesis by blast
  qed
next
  assume ?R
  then obtain t rest where r: "r = t @ rest" "t \<in> set valid_stat_types"
      and rest: "rest = [] \<or> (\<exists>rate. rest = ''|@'' @ rate \<and> strtod_converts rate)"
    by blast
  from rest show "statsd_tail_ok r"
    using r stat_type_no_bar [OF r(2)] by (auto simp: statsd_tail_ok_def)
qed

lemma statsd_accepts_iff: "statsd_accepts line \<longleftrightarrow> statsd_line line"
proof
  assume ok: "statsd_accepts line"
  then obtain p where p: "cut_at (CHR '':'') line = Some p"
    by (cases "cut_at (CHR '':'') line") (auto simp: statsd_accepts_def)
  with ok obtain q where "cut_at (CHR ''|'') (snd p) = Some q"
    by (cases "cut_at (CHR ''|'') (snd p)") (auto simp: statsd_accepts_def split: prod.splits)
  with ok p obtain key r v r' where l: "line = key @ CHR '':'' # r" "CHR '':'' \<notin> set key" "key \<noteq> []"
      "strtod_converts r" "r = v @ CHR ''|'' # r'" "CHR ''|'' \<notin> set v" "statsd_tail_ok r'"
    by (cases p; cases q) (auto simp: statsd_accepts_def cut_at_Some)
  then obtain t rest where "r' = t @ rest" "t \<in> set valid_stat_types"
      "rest = [] \<or> (\<exists>rate. rest = ''|@'' @ rate \<and> strtod_converts rate)"
    unfolding statsd_tail_ok_iff by blast
  with l show "statsd_line line"
    unfolding statsd_line_def
    by (intro exI [of _ key] exI [of _ v] exI [of _ t] exI [of _ rest])
      (simp add: strtod_converts_stops)
next
  assume "statsd_line line"
  then obtain key v t rest where l: "line = key @ CHR '':'' # v @ CHR ''|'' # (t @ rest)"
      "key \<noteq> []" "CHR '':'' \<notin> set key" "CHR ''|'' \<notin> set v" "strtod_converts v"
      "statsd_tail_ok (t @ rest)"
    unfolding statsd_line_def statsd_tail_ok_iff by blast
  then show "statsd_accepts line"
    by (simp add: statsd_accepts_def strtod_converts_stops)
qed

section \<open>The validators accept exactly these lines\<close>

lemma valid_type_at_iff:
  assumes "NUL \<notin> set a" "n \<le> length a"
  shows "valid_type_at (a @ [NUL]) n \<longleftrightarrow> take n a \<in> set valid_stat_types"
proof -
  have "length t = n \<and> strncmp_eq (a @ [NUL]) t n \<longleftrightarrow> take n a = t" if "t \<in> set valid_stat_types" for t
  proof -
    have "NUL \<notin> set t" using that by (auto simp: valid_stat_types_def)
    then show ?thesis using assms strncmp_eq_literal [of t a "[]"] by auto
  qed
  then show ?thesis by (auto simp: valid_type_at_def list_ex_iff)
qed

lemma validate_sample_rate_eq:
  assumes "drop (Suc e) blk = r @ [NUL]" "len = Suc e + length r" "len < 2 ^ 64" "NUL \<notin> set r"
  shows "validate_sample_rate blk len e =
    (if (case r of [] \<Rightarrow> False | a # rate \<Rightarrow> a = CHR ''@'' \<and> strtod_converts rate) then 0 else 1)"
proof (cases r)
  case Nil
  with assms show ?thesis by (simp add: validate_sample_rate_def)
next
  case (Cons a rate)
  have "Suc e < length blk" using assms(1) Cons by (metis drop_all list.distinct(1) append_Cons not_le)
  then have nth: "blk ! Suc e = a" using assms(1) Cons by (metis append_Cons hd_drop_conv_nth list.sel(1))
  have "drop (Suc (Suc e)) blk = rate @ [NUL]"
    using assms(1) Cons by (metis append_Cons drop_Suc list.sel(3) tl_drop)
  with nth Cons assms show ?thesis by (auto simp: validate_sample_rate_def Let_def)
qed

lemma validate_type_eq:
  assumes d: "drop start blk = r @ [NUL]" and len: "len = start + length r" "len < 2 ^ 64"
    and nul: "NUL \<notin> set r"
  shows "validate_type blk len start = Some (if statsd_tail_ok r then 0 else 1)"
proof -
  have sub: "sz_sub len start = length r" using len by simp
  show ?thesis
  proof (cases "index_of (CHR ''|'') r")
    case None
    then have "cut_at (CHR ''|'') r = None" by (simp add: cut_at_def)
    with None d sub nul show ?thesis
      by (simp add: validate_type_def valid_type_at_iff statsd_tail_ok_def)
  next
    case (Some i)
    then obtain t r' where r: "r = t @ CHR ''|'' # r'" "length t = i" "CHR ''|'' \<notin> set t"
      by (rule index_of_SomeE)
    have "drop (Suc (start + i)) blk = drop (Suc i) (drop start blk)" by (simp add: add.commute)
    then have d': "drop (Suc (start + i)) blk = r' @ [NUL]" using d r by simp
    have e: "validate_sample_rate blk len (start + i) =
        (if (case r' of [] \<Rightarrow> False | a # rate \<Rightarrow> a = CHR ''@'' \<and> strtod_converts rate) then 0 else 1)"
      by (rule validate_sample_rate_eq [OF d']) (use r len nul in auto)
    have "valid_type_at (r @ [NUL]) i \<longleftrightarrow> t \<in> set valid_stat_types"
      using valid_type_at_iff [OF nul, of i] r by simp
    with Some d sub e r show ?thesis
      by (simp add: validate_type_def statsd_tail_ok_def)
  qed
qed

lemma validate_statsd_eq:
  assumes len: "len \<le> length line" and nul: "NUL \<notin> set (take len line)"
    and mem: "malloc A (len + 1) \<noteq> None"
  shows "validate_statsd A line len = Some (if statsd_accepts (take len line) then 0 else 1)"
proof -
  define l where "l = take len line"
  have l: "length l = len" "NUL \<notin> set l" using len nul by (auto simp: l_def)
  have small: "len < 2 ^ 64" using mem malloc_SomeD [of A "len + 1"] by auto
  have dup: "strndup A line len = Some (Some (l @ [NUL]))"
    using l len mem by (auto simp: strndup_def l_def [symmetric])
  have m1: "memchr (l @ [NUL]) (CHR '':'') len = Some (index_of (CHR '':'') l)" using l by simp
  show ?thesis
  proof (cases "index_of (CHR '':'') l")
    case None
    with dup m1 show ?thesis by (simp add: validate_statsd_def statsd_accepts_def cut_at_def l_def)
  next
    case (Some i)
    then obtain key r where r: "l = key @ CHR '':'' # r" "length key = i" "CHR '':'' \<notin> set key"
      by (rule index_of_SomeE)
    have d: "drop (Suc i) (l @ [NUL]) = r @ [NUL]" and nr: "NUL \<notin> set r" using r l by auto
    have sub: "sz_sub len (Suc i) = length r" using r l small by simp
    have m2: "memchr (r @ [NUL]) (CHR ''|'') (length r) = Some (index_of (CHR ''|'') r)" by simp
    have t: "validate_type (l @ [NUL]) len (Suc (Suc (i + j))) = Some (if statsd_tail_ok r' then 0 else 1)"
      if "r = v @ CHR ''|'' # r'" "length v = j" for v r' j
      by (rule validate_type_eq) (use that r l small in auto)
    show ?thesis
    proof (cases "index_of (CHR ''|'') r")
      case None
      with Some dup m1 d sub nr r show ?thesis
        by (simp add: validate_statsd_def statsd_accepts_def cut_at_def [of _ r] l_def [symmetric])
    next
      case (Some j)
      then obtain v r' where v: "r = v @ CHR ''|'' # r'" "length v = j" "CHR ''|'' \<notin> set v"
        by (rule index_of_SomeE)
      have "c_str (r @ [NUL]) = r" using nr by simp
      with v have "c_str (v @ CHR ''|'' # r' @ [NUL]) = v @ CHR ''|'' # r'" by simp
      with \<open>index_of (CHR '':'') l = Some i\<close> v dup m1 d sub nr r t show ?thesis
        by (auto simp: validate_statsd_def statsd_accepts_def l_def [symmetric])
    qed
  qed
qed

text \<open>The carbon loop counts the spaces and gives up after the third.\<close>

lemma carbon_spaces_eq:
  assumes "p \<le> len" "len \<le> length line" "len < 2 ^ 64" "found \<le> 2"
  shows "carbon_spaces line len p (len - p) found =
    Some (min 3 (found + count_list (take (len - p) (drop p line)) (CHR '' '')))"
  using assms
proof (induction "3 - found" arbitrary: p found)
  case (Suc k)
  let ?xs = "take (len - p) (drop p line)"
  have m: "memchr (drop p line) (CHR '' '') (len - p) = Some (index_of (CHR '' '') ?xs)"
    using Suc.prems by simp
  show ?case
  proof (cases "index_of (CHR '' '') ?xs")
    case None
    then have "count_list ?xs (CHR '' '') = 0" by (simp add: count_list_0_iff)
    with None m Suc.prems show ?thesis by (subst carbon_spaces.simps) simp
  next
    case (Some i)
    then obtain ys zs where x: "?xs = ys @ CHR '' '' # zs" "length ys = i" "CHR '' '' \<notin> set ys"
      by (rule index_of_SomeE)
    then have c: "count_list ?xs (CHR '' '') = Suc (count_list zs (CHR '' ''))"
      by (simp add: count_list_append count_notin)
    have "zs = drop (Suc i) ?xs" using x by simp
    then have zs: "zs = take (len - Suc (p + i)) (drop (Suc (p + i)) line)"
      by (simp add: drop_take add.commute)
    have pi: "p + i < len" using index_of_less [OF Some] Suc.prems by simp
    show ?thesis
    proof (cases "found + 1 > 2")
      case True
      with Some m c Suc.prems show ?thesis by (subst carbon_spaces.simps) (simp add: min_def)
    next
      case False
      have n': "sz_sub (sz_sub len (p + i)) 1 = len - Suc (p + i)" using pi Suc.prems by simp
      have "carbon_spaces line len (Suc (p + i)) (len - Suc (p + i)) (found + 1) =
          Some (min 3 (found + 1 + count_list zs (CHR '' '')))"
        unfolding zs using False pi Suc by simp
      with False Some m c n' show ?thesis by (subst carbon_spaces.simps) simp
    qed
  qed
qed simp

definition carbon_line :: "bytes \<Rightarrow> bool" where
  "carbon_line line \<longleftrightarrow> count_list line (CHR '' '') = 2"

lemma validate_carbon_eq:
  assumes "len \<le> length line" "len < 2 ^ 64"
  shows "validate_carbon A line len = Some (if carbon_line (take len line) then 0 else 1)"
  using carbon_spaces_eq [of 0 len line 0] assms
  by (simp add: validate_carbon_def carbon_line_def min_def)

section \<open>The validator interface\<close>

text \<open>
  A line of known length without \<open>NUL\<close> bytes, for which memory is granted, is judged by its bytes
  alone: result 0 if it is accepted, 1 if not, never undefined.
\<close>

locale line_validator =
  fixes validate :: "allocator \<Rightarrow> bytes \<Rightarrow> nat \<Rightarrow> int option" and accepts :: "bytes \<Rightarrow> bool"
  assumes verdict:
    "len \<le> length line \<Longrightarrow> NUL \<notin> set (take len line) \<Longrightarrow> malloc A (len + 1) \<noteq> None \<Longrightarrow>
     validate A line len = Some (if accepts (take len line) then 0 else 1)"
begin

lemma verdict_exact:
  assumes "NUL \<notin> set line" "malloc A (length line + 1) \<noteq> None"
  shows "validate A (line @ rest) (length line) = Some (if accepts line then 0 else 1)"
  using verdict [of "length line" "line @ rest" A] assms by simp

lemma verdict_zero:
  assumes "NUL \<notin> set line" "malloc A (length line + 1) \<noteq> None"
  shows "validate A (line @ rest) (length line) = Some 0 \<longleftrightarrow> accepts line"
  using verdict_exact [OF assms] by simp

end

interpretation statsd_check: line_validator validate_statsd statsd_line
  by unfold_locales (simp add: validate_statsd_eq statsd_accepts_iff)

interpretation carbon_check: line_validator validate_carbon carbon_line
proof unfold_locales
  fix len :: nat and line A
  assume "len \<le> length (line :: bytes)" "malloc A (len + 1) \<noteq> None"
  then show "validate_carbon A line len = Some (if carbon_line (take len line) then 0 else 1)"
    using malloc_SomeD [of A "len + 1"] by (auto simp: validate_carbon_eq)
qed

section \<open>Properties\<close>

text \<open>C18: the statsd validator accepts a line (without \<open>NUL\<close> bytes) exactly when it matches the
  grammar \<open>key:value|type[|@rate]\<close> with a nonempty key, a value and a rate that start with a number
  and a known type; on every such line it returns and reads only inside its copy.\<close>

theorem validate_statsd_accepts_grammar:
  assumes "NUL \<notin> set line" "malloc A (length line + 1) \<noteq> None"
  shows "validate_statsd A (line @ rest) (length line) = Some (if statsd_line line then 0 else 1)"
  using assms by (rule statsd_check.verdict_exact)

theorem validate_statsd_accepts_grammar_witness:
  "validate_statsd (\<lambda>_. Some []) (''a.b:1.5|ms|@0.1'' @ [NL, NUL]) (length ''a.b:1.5|ms|@0.1'') =
     Some (if statsd_line ''a.b:1.5|ms|@0.1'' then 0 else 1) \<and>
   validate_statsd (\<lambda>_. Some []) (''a.b:1.5|ms|@0.1'' @ [NL, NUL]) (length ''a.b:1.5|ms|@0.1'') = Some 0"
proof -
  have 1: "NUL \<notin> set ''a.b:1.5|ms|@0.1''" by simp
  have 2: "malloc (\<lambda>_. Some []) (length ''a.b:1.5|ms|@0.1'' + 1) \<noteq> None" by (simp add: malloc_def)
  have "statsd_accepts ''a.b:1.5|ms|@0.1''" by code_simp
  then have 3: "statsd_line ''a.b:1.5|ms|@0.1''" by (simp only: statsd_accepts_iff)
  show ?thesis using validate_statsd_accepts_grammar [OF 1 2, of "[NL, NUL]"] by (simp only: 3 if_True simp_thms)
qed

text \<open>The carbon validator accepts a line exactly when it contains two spaces, and always
  returns.\<close>

lemma validate_carbon_counts_spaces:
  assumes "length line < 2 ^ 64"
  shows "validate_carbon A (line @ rest) (length line) =
    Some (if count_list line (CHR '' '') = 2 then 0 else 1)"
  using validate_carbon_eq [of "length line" "line @ rest" A] assms by (simp add: carbon_line_def)



end
