(* ===== verification/Yaml_Config.thy ===== *)
theory Yaml_Config
  imports Dynlist
begin

text \<open>
  The configuration of \<open>src/src/yaml_config.h\<close> and its parser \<open>src/src/yaml_config.c\<close>. The YAML
  library is outside the repository: the parser is modelled on the sequence of events the library
  delivers, one step per event. The theory shows that a configuration written out as events is read
  back unchanged, and that every configuration the parser returns is well formed, whatever the
  events and the memory.
\<close>

section \<open>Configuration data\<close>

text \<open>
  \<open>pc_bind\<close> and the ring's entries are C strings whose pointer may be null (\<open>strdup\<close> is not
  always checked); \<open>pc_ring\<close> is null when the list itself could not be allocated.
\<close>

record proto_config =
  initialized :: bool
  pc_bind :: "bytes option"
  enable_validation :: bool
  enable_tcp_cork :: bool
  always_resolve_dns :: bool
  max_send_queue :: u64
  pc_ring :: "bytes option slist option"

record config =
  statsd_config :: proto_config
  carbon_config :: proto_config

definition default_config :: bytes where
  "default_config = ''/etc/statsrelay.yaml''"

section \<open>Scalars\<close>

definition digits_value :: "bytes \<Rightarrow> int" where
  "digits_value ds = foldl (\<lambda>n c. 10 * n + (of_char c - 48)) 0 ds"

text \<open>
  \<open>strtol\<close> in base ten: the value, saturated to the range of \<open>long\<close>, and whether a conversion took
  place (the end pointer moved).
\<close>

definition strtol10 :: "bytes \<Rightarrow> int \<times> bool" where
  "strtol10 str =
     (let s = dropWhile c_isspace str;
          neg = (s \<noteq> [] \<and> hd s = CHR ''-'');
          s' = (if s \<noteq> [] \<and> (hd s = CHR ''-'' \<or> hd s = CHR ''+'') then tl s else s);
          ds = takeWhile c_isdigit s'
      in if ds = [] then (0, False)
         else (let v = (if neg then - digits_value ds else digits_value ds)
               in (max (- (2 ^ 63)) (min (2 ^ 63 - 1) v), True)))"

definition convert_number :: "bytes \<Rightarrow> bool \<times> int" where
  "convert_number str = (case strtol10 str of (num, moved) \<Rightarrow> (moved, num))"

text \<open>\<open>set_boolean\<close>: the new value of the field, or nothing for an unexpected string.\<close>

definition set_boolean :: "bytes \<Rightarrow> bool option" where
  "set_boolean strval =
     (if strval = ''true'' then Some True
      else if strval = ''false'' then Some False
      else None)"

text \<open>\<open>strdup\<close> of a C string.\<close>

definition strdup :: "allocator \<Rightarrow> bytes \<Rightarrow> bytes option" where
  "strdup A s = (case malloc A (length s + 1) of None \<Rightarrow> None | Some _ \<Rightarrow> Some s)"

definition init_proto_config :: "allocator \<Rightarrow> proto_config" where
  "init_proto_config A =
     \<lparr>initialized = False, pc_bind = None, enable_validation = True, enable_tcp_cork = True,
      always_resolve_dns = False, max_send_queue = 134217728, pc_ring = statsrelay_list_new A\<rparr>"

definition destroy_ring :: "bytes option slist option \<Rightarrow> unit option" where
  "destroy_ring r =
     (case r of None \<Rightarrow> None | Some l \<Rightarrow> do { _ \<leftarrow> statsrelay_list_destroy_full l; Some () })"

definition destroy_config :: "config option \<Rightarrow> unit option" where
  "destroy_config c =
     (case c of
        None \<Rightarrow> Some ()
      | Some cfg \<Rightarrow>
          do {
            _ \<leftarrow> destroy_ring (pc_ring (carbon_config cfg));
            destroy_ring (pc_ring (statsd_config cfg))
          })"

section \<open>The event loop of the parser\<close>

datatype yaml_event =
    NoEvent | StreamStart | StreamEnd | DocumentStart | DocumentEnd
  | SequenceStart | SequenceEnd | MappingStart | MappingEnd | AliasEvent
  | ScalarEvent bytes | UnknownEvent

text \<open>The section that the pointer \<open>protoc\<close> refers to.\<close>

datatype section_ref = Statsd | Carbon

record parse_state =
  p_config :: config
  protoc :: "section_ref option"
  shard_count :: int
  map_nesting :: int
  in_document :: bool
  is_key :: bool
  update_bind :: bool
  update_send_queue :: bool
  update_validate :: bool
  update_tcp_cork :: bool
  update_resolve_dns :: bool
  expect_shard_map :: bool

fun get_section :: "config \<Rightarrow> section_ref \<Rightarrow> proto_config" where
  "get_section c Statsd = statsd_config c"
| "get_section c Carbon = carbon_config c"

fun upd_section :: "section_ref \<Rightarrow> (proto_config \<Rightarrow> proto_config) \<Rightarrow> config \<Rightarrow> config" where
  "upd_section Statsd f c = c\<lparr>statsd_config := f (statsd_config c)\<rparr>"
| "upd_section Carbon f c = c\<lparr>carbon_config := f (carbon_config c)\<rparr>"

text \<open>Writing through \<open>protoc\<close>; a null pointer is undefined.\<close>

definition upd_protoc :: "(proto_config \<Rightarrow> proto_config) \<Rightarrow> parse_state \<Rightarrow> parse_state option" where
  "upd_protoc f s =
     (case protoc s of
        None \<Rightarrow> None
      | Some r \<Rightarrow> Some (s\<lparr>p_config := upd_section r f (p_config s)\<rparr>))"

text \<open>
  What one pass through the loop body leads to: another pass, the end of the loop, or the
  jump to \<open>parse_err\<close>.
\<close>

datatype parse_result = Go parse_state | Stop parse_state | Fail parse_state

text \<open>A scalar at nesting level 1 names the section, whether it is a key or a value.\<close>

definition scalar_section :: "bytes \<Rightarrow> parse_state \<Rightarrow> parse_result option" where
  "scalar_section strval s =
     (if strval = ''carbon'' then
        Some (Go (s\<lparr>protoc := Some Carbon,
                    p_config := upd_section Carbon (\<lambda>p. p\<lparr>initialized := True\<rparr>) (p_config s)\<rparr>))
      else if strval = ''statsd'' then
        Some (Go (s\<lparr>protoc := Some Statsd,
                    p_config := upd_section Statsd (\<lambda>p. p\<lparr>initialized := True\<rparr>) (p_config s)\<rparr>))
      else Some (Fail s))"

definition scalar_option_key :: "bytes \<Rightarrow> parse_state \<Rightarrow> parse_state" where
  "scalar_option_key strval s =
     (if strval = ''bind'' then s\<lparr>update_bind := True\<rparr>
      else if strval = ''max_send_queue'' then s\<lparr>update_send_queue := True\<rparr>
      else if strval = ''shard_map'' then s\<lparr>shard_count := -1, expect_shard_map := True\<rparr>
      else if strval = ''validate'' then s\<lparr>update_validate := True\<rparr>
      else if strval = ''tcp_cork'' then s\<lparr>update_tcp_cork := True\<rparr>
      else if strval = ''always_resolve_dns'' then s\<lparr>update_resolve_dns := True\<rparr>
      else s)"

definition set_field :: "(bool \<Rightarrow> proto_config \<Rightarrow> proto_config) \<Rightarrow> bytes \<Rightarrow> parse_state \<Rightarrow>
    (bool \<times> parse_state) option" where
  "set_field f strval s =
     (case protoc s of
        None \<Rightarrow> None
      | Some _ \<Rightarrow>
          (case set_boolean strval of
             None \<Rightarrow> Some (False, s)
           | Some v \<Rightarrow> do { s' \<leftarrow> upd_protoc (f v) s; Some (True, s') }))"

text \<open>
  A value at level 2. A \<open>max_send_queue\<close> that is no number is reported and then used anyway; the
  flag for \<open>always_resolve_dns\<close> is the one that is not cleared.
\<close>

definition scalar_option_value :: "allocator \<Rightarrow> bytes \<Rightarrow> parse_state \<Rightarrow> parse_result option" where
  "scalar_option_value S strval s =
     (if update_bind s then
        do {
          s' \<leftarrow> upd_protoc (\<lambda>p. p\<lparr>pc_bind := strdup S strval\<rparr>) s;
          Some (Go (s'\<lparr>update_bind := False\<rparr>))
        }
      else if update_send_queue s then
        do {
          s' \<leftarrow> upd_protoc (\<lambda>p. p\<lparr>max_send_queue := word_of_int (snd (convert_number strval))\<rparr>) s;
          Some (Go (s'\<lparr>update_send_queue := False\<rparr>))
        }
      else if update_validate s then
        do {
          (ok, s') \<leftarrow> set_field (\<lambda>v p. p\<lparr>enable_validation := v\<rparr>) strval s;
          Some (if ok then Go (s'\<lparr>update_validate := False\<rparr>) else Fail s')
        }
      else if update_tcp_cork s then
        do {
          (ok, s') \<leftarrow> set_field (\<lambda>v p. p\<lparr>enable_tcp_cork := v\<rparr>) strval s;
          Some (if ok then Go (s'\<lparr>update_tcp_cork := False\<rparr>) else Fail s')
        }
      else if update_resolve_dns s then
        do {
          (ok, s') \<leftarrow> set_field (\<lambda>v p. p\<lparr>always_resolve_dns := v\<rparr>) strval s;
          Some (if ok then Go s' else Fail s')
        }
      else Some (Go s))"

text \<open>
  Level 3: the keys of the shard map must count up from zero; each value is added to the ring.
  \<open>A\<close> answers the growth of the list and \<open>S\<close> the copy of the string.
\<close>

definition scalar_shard_key :: "bytes \<Rightarrow> parse_state \<Rightarrow> parse_result option" where
  "scalar_shard_key strval s =
     (case convert_number strval of
        (ok, numval) \<Rightarrow>
          if \<not> ok then Some (Fail s)
          else (let s' = s\<lparr>shard_count := shard_count s + 1\<rparr> in
                if numval \<noteq> shard_count s' then Some (Fail s') else Some (Go s')))"

definition scalar_shard_value :: "allocator \<Rightarrow> allocator \<Rightarrow> bytes \<Rightarrow> parse_state \<Rightarrow> parse_result option" where
  "scalar_shard_value A S strval s =
     do {
       r \<leftarrow> protoc s;
       ring \<leftarrow> pc_ring (get_section (p_config s) r);
       let dup = strdup S strval;
       (ok, ring') \<leftarrow> list_push A ring dup;
       let s' = s\<lparr>p_config := upd_section r (\<lambda>p. p\<lparr>pc_ring := Some ring'\<rparr>) (p_config s)\<rparr>;
       Some (if ok \<and> dup \<noteq> None then Go s' else Fail s')
     }"

definition toggle_key :: "parse_result \<Rightarrow> parse_result" where
  "toggle_key r = (case r of Go s \<Rightarrow> Go (s\<lparr>is_key := \<not> is_key s\<rparr>) | _ \<Rightarrow> r)"

definition parse_scalar :: "allocator \<Rightarrow> allocator \<Rightarrow> bytes \<Rightarrow> parse_state \<Rightarrow> parse_result option" where
  "parse_scalar A S strval s =
     map_option toggle_key
       (if map_nesting s = 0 then Some (Fail s)
        else if map_nesting s = 1 then scalar_section strval s
        else if map_nesting s = 2 then
          (if is_key s then Some (Go (scalar_option_key strval s)) else scalar_option_value S strval s)
        else if map_nesting s = 3 then
          (if \<not> expect_shard_map s then Some (Fail s)
           else if is_key s then scalar_shard_key strval s
           else scalar_shard_value A S strval s)
        else Some (Go s))"

definition parse_event :: "allocator \<Rightarrow> allocator \<Rightarrow> yaml_event \<Rightarrow> parse_state \<Rightarrow> parse_result option" where
  "parse_event A S ev s =
     (case ev of
        NoEvent \<Rightarrow> Some (Go s)
      | StreamStart \<Rightarrow> Some (Go s)
      | StreamEnd \<Rightarrow> Some (Stop s)
      | DocumentStart \<Rightarrow> Some (if in_document s then Fail s else Go (s\<lparr>in_document := True\<rparr>))
      | DocumentEnd \<Rightarrow> Some (Go (s\<lparr>in_document := False\<rparr>))
      | SequenceStart \<Rightarrow> Some (Fail s)
      | SequenceEnd \<Rightarrow> Some (Fail s)
      | MappingStart \<Rightarrow> Some (Go (s\<lparr>is_key := True, map_nesting := map_nesting s + 1\<rparr>))
      | MappingEnd \<Rightarrow> Some (Go (s\<lparr>map_nesting := map_nesting s - 1\<rparr>))
      | AliasEvent \<Rightarrow> Some (Fail s)
      | ScalarEvent v \<Rightarrow> parse_scalar A S v s
      | UnknownEvent \<Rightarrow> Some (Fail s))"

text \<open>
  The loop. \<open>mem\<close> gives the two allocators for each pass. The events are those the library
  delivers before it fails: asking for one more is a failed \<open>yaml_parser_parse\<close>.
\<close>

type_synonym config_mem = "nat \<Rightarrow> allocator \<times> allocator"

fun parse_loop :: "config_mem \<Rightarrow> nat \<Rightarrow> yaml_event list \<Rightarrow> parse_state \<Rightarrow> parse_result option" where
  "parse_loop mem i [] s = Some (Fail s)"
| "parse_loop mem i (ev # evs) s =
     do {
       r \<leftarrow> parse_event (fst (mem i)) (snd (mem i)) ev s;
       case r of
         Go s' \<Rightarrow> parse_loop mem (Suc i) evs s'
       | Stop s' \<Rightarrow> Some (Stop s')
       | Fail s' \<Rightarrow> Some (Fail s')
     }"

definition start_state :: "config \<Rightarrow> parse_state" where
  "start_state cfg =
     \<lparr>p_config = cfg, protoc = None, shard_count = -1, map_nesting = 0, in_document = False,
      is_key = False, update_bind = False, update_send_queue = False, update_validate = False,
      update_tcp_cork = False, update_resolve_dns = False, expect_shard_map = False\<rparr>"

text \<open>
  \<open>parse_config\<close>. The allocators are, in order: for the structure and the two lists, and for the
  copies of the two default addresses. When the library's parser cannot be initialised the error
  exit deletes an event that was never set, which is undefined. The result \<open>Some None\<close> is a null
  pointer.
\<close>

definition parse_config ::
    "allocator \<Rightarrow> allocator \<Rightarrow> allocator \<Rightarrow> bool \<Rightarrow> config_mem \<Rightarrow> yaml_event list \<Rightarrow> config option option" where
  "parse_config A1 A2 S yaml_init_ok mem evs =
     (case malloc A1 80 of
        None \<Rightarrow> Some None
      | Some _ \<Rightarrow>
          (let carbon = init_proto_config A1 in
           if pc_ring carbon = None then Some None
           else
             (let cfg = \<lparr>statsd_config = (init_proto_config A2)\<lparr>pc_bind := strdup S ''127.0.0.1:8125''\<rparr>,
                         carbon_config = carbon\<lparr>pc_bind := strdup S ''127.0.0.1:2003''\<rparr>\<rparr>
              in if \<not> yaml_init_ok then None
                 else do {
                   r \<leftarrow> parse_loop mem 0 evs (start_state cfg);
                   case r of
                     Fail s \<Rightarrow> do { _ \<leftarrow> destroy_config (Some (p_config s)); Some None }
                   | Stop s \<Rightarrow> Some (Some (p_config s))
                   | Go s \<Rightarrow> None
                 })))"

section \<open>Numbers\<close>

lemma less_ten: "(n :: nat) < 10 \<Longrightarrow> n \<in> {0, 1, 2, 3, 4, 5, 6, 7, 8, 9}"
  by (simp add: numeral_eq_Suc less_Suc_eq)

lemma digit_chars: "map (\<lambda>n. char_of (48 + n :: nat)) [0, 1, 2, 3, 4, 5, 6, 7, 8, 9] = ''0123456789''"
  by code_simp

lemma c_isdigit_of_char: "n < 10 \<Longrightarrow> c_isdigit (char_of (48 + n :: nat))"
  by (drule less_ten) (use digit_chars in \<open>auto simp: c_isdigit_def\<close>)

lemma of_char_digit: "n < 10 \<Longrightarrow> (of_char (char_of (48 + n :: nat)) :: int) = 48 + int n"
  by (drule less_ten) (use digit_chars in \<open>auto\<close>)

lemma decimal_digits: "decimal n \<noteq> [] \<and> (\<forall>c \<in> set (decimal n). c_isdigit c)"
proof (induction n rule: decimal.induct)
  case (1 n)
  then show ?case by (subst (1 2) decimal.simps) (auto simp: c_isdigit_of_char)
qed

lemma digits_value_decimal: "digits_value (decimal n) = int n"
proof (induction n rule: decimal.induct)
  case (1 n)
  show ?case
  proof (cases "n < 10")
    case True
    then show ?thesis by (subst decimal.simps) (simp add: digits_value_def of_char_digit)
  next
    case False
    have "digits_value (decimal n) = 10 * digits_value (decimal (n div 10)) + int (n mod 10)"
      using False by (subst decimal.simps) (simp add: digits_value_def of_char_digit)
    moreover have "int n = 10 * int (n div 10) + int (n mod 10)" by presburger
    ultimately show ?thesis using 1 False by simp
  qed
qed

lemma digit_not_sign: "c_isdigit c \<Longrightarrow> \<not> c_isspace c \<and> c \<noteq> CHR ''-'' \<and> c \<noteq> CHR ''+''"
  by (auto simp: c_isdigit_def c_isspace_def)

lemma convert_number_decimal:
  assumes "n < 2 ^ 63"
  shows "convert_number (decimal n) = (True, int n)"
proof -
  obtain c cs where d: "decimal n = c # cs" using decimal_digits [of n] by (cases "decimal n") auto
  have dig: "c_isdigit c" "takeWhile c_isdigit (decimal n) = decimal n"
    using decimal_digits [of n] d by auto
  have ds: "takeWhile c_isdigit cs = cs" using dig d by simp
  have "int n < int (2 ^ 63)" using assms by (simp only: of_nat_less_iff)
  then have "int n \<le> 2 ^ 63 - 1" by simp
  then show ?thesis
    using dig(1) d digit_not_sign [OF dig(1)] digits_value_decimal [of n]
    by (simp add: ds convert_number_def strtol10_def Let_def)
qed

section \<open>Reading back a configuration\<close>

text \<open>
  The events of a configuration file that lists every option of a section, in the order of the
  fields, with the shards numbered from zero.
\<close>

definition bool_text :: "bool \<Rightarrow> bytes" where
  "bool_text b = (if b then ''true'' else ''false'')"

fun shard_events :: "nat \<Rightarrow> bytes list \<Rightarrow> yaml_event list" where
  "shard_events k [] = []"
| "shard_events k (l # ls) = ScalarEvent (decimal k) # ScalarEvent l # shard_events (Suc k) ls"

definition section_name :: "section_ref \<Rightarrow> bytes" where
  "section_name r = (case r of Statsd \<Rightarrow> ''statsd'' | Carbon \<Rightarrow> ''carbon'')"

definition option_events :: "bytes \<Rightarrow> nat \<Rightarrow> bool \<Rightarrow> bool \<Rightarrow> bool \<Rightarrow> yaml_event list" where
  "option_events addr queue valid cork dns =
     [ScalarEvent ''bind'', ScalarEvent addr,
      ScalarEvent ''max_send_queue'', ScalarEvent (decimal queue),
      ScalarEvent ''validate'', ScalarEvent (bool_text valid),
      ScalarEvent ''tcp_cork'', ScalarEvent (bool_text cork),
      ScalarEvent ''always_resolve_dns'', ScalarEvent (bool_text dns)]"

record section_spec =
  sp_bind :: bytes
  sp_queue :: nat
  sp_validate :: bool
  sp_cork :: bool
  sp_dns :: bool
  sp_shards :: "bytes list"

definition section_events :: "section_ref \<Rightarrow> section_spec \<Rightarrow> yaml_event list" where
  "section_events r sp =
     [ScalarEvent (section_name r), MappingStart] @
     option_events (sp_bind sp) (sp_queue sp) (sp_validate sp) (sp_cork sp) (sp_dns sp) @
     [ScalarEvent ''shard_map'', MappingStart] @ shard_events 0 (sp_shards sp) @ [MappingEnd, MappingEnd]"

definition config_events :: "section_spec \<Rightarrow> section_spec \<Rightarrow> yaml_event list" where
  "config_events carbon statsd =
     [StreamStart, DocumentStart, MappingStart] @ section_events Carbon carbon @ section_events Statsd statsd @
     [MappingEnd, DocumentEnd, StreamEnd]"

text \<open>What C can represent: strings and lists that fit the address space, a queue limit that fits a
  \<open>long\<close>.\<close>

definition spec_ok :: "section_spec \<Rightarrow> bool" where
  "spec_ok sp \<longleftrightarrow>
     length (sp_bind sp) < 2 ^ 62 \<and> sp_queue sp < 2 ^ 63 \<and> length (sp_shards sp) < 2 ^ 58 \<and>
     (\<forall>l \<in> set (sp_shards sp). length l < 2 ^ 62)"

definition reads_as :: "proto_config \<Rightarrow> section_spec \<Rightarrow> bool" where
  "reads_as p sp \<longleftrightarrow>
     initialized p \<and> pc_bind p = Some (sp_bind sp) \<and> max_send_queue p = of_nat (sp_queue sp) \<and>
     enable_validation p = sp_validate sp \<and> enable_tcp_cork p = sp_cork sp \<and>
     always_resolve_dns p = sp_dns sp \<and>
     (\<exists>ring. pc_ring p = Some ring \<and> slist_wf ring \<and> slist_elems ring = map Some (sp_shards sp))"

text \<open>The state of the parser between two entries, at nesting level \<open>m\<close>.\<close>

definition between :: "int \<Rightarrow> config \<Rightarrow> section_ref option \<Rightarrow> int \<Rightarrow> bool \<Rightarrow> bool \<Rightarrow> bool \<Rightarrow> parse_state" where
  "between m cfg r k key dns shards =
     \<lparr>p_config = cfg, protoc = r, shard_count = k, map_nesting = m, in_document = True, is_key = key,
      update_bind = False, update_send_queue = False, update_validate = False, update_tcp_cork = False,
      update_resolve_dns = dns, expect_shard_map = shards\<rparr>"

abbreviation (input) generous_mem :: config_mem where
  "generous_mem \<equiv> (\<lambda>_. (\<lambda>_. Some [], \<lambda>_. Some []))"

lemma set_boolean_text [simp]: "set_boolean (bool_text b) = Some b"
  by (simp add: set_boolean_def bool_text_def)

lemma strdup_generous [simp]: "length s < 2 ^ 62 \<Longrightarrow> strdup (\<lambda>_. Some []) s = Some s"
  by (simp add: strdup_def malloc_def)

text \<open>With the same answers every time, the number of the pass does not matter.\<close>

lemma parse_loop_Suc [simp]: "parse_loop (\<lambda>_. m) (Suc i) evs s = parse_loop (\<lambda>_. m) i evs s"
  by (induction evs arbitrary: i s)
     (auto split: Option.bind_split parse_result.splits)

text \<open>The five options, one after the other.\<close>

lemma parse_options:
  assumes "length addr < 2 ^ 62" "queue < 2 ^ 63"
  shows "parse_loop generous_mem i (option_events addr queue valid cork dns @ evs)
      (between 2 cfg (Some r) k True d e) =
    parse_loop generous_mem i evs
      (between 2 (upd_section r (\<lambda>p. p\<lparr>pc_bind := Some addr, max_send_queue := word_of_int (int queue),
          enable_validation := valid, enable_tcp_cork := cork, always_resolve_dns := dns\<rparr>) cfg)
        (Some r) k True True e)"
  using assms convert_number_decimal [OF assms(2)]
  by (cases r) (simp_all add: option_events_def between_def parse_event_def parse_scalar_def toggle_key_def
      scalar_option_key_def scalar_option_value_def upd_protoc_def set_field_def)

lemma list_push_generous:
  assumes "slist_wf l" "allocated_size l \<le> 2 * l_size l" "l_size l < 2 ^ 58"
  shows "\<exists>l'. list_push (\<lambda>_. Some []) l v = Some (True, l') \<and> slist_wf l' \<and> slist_elems l' = slist_elems l @ [v] \<and>
    allocated_size l' \<le> 2 * l_size l' \<and> l_size l' = Suc (l_size l)"
proof -
  have small: "l_size l + 1 < 2 ^ 64" "allocated_size l * 2 < 2 ^ 64" "8 * (allocated_size l * 2) < 2 ^ 63"
    using assms by auto
  have m: "(l_size l + 1) mod 2 ^ 64 = l_size l + 1" "(allocated_size l * 2) mod 2 ^ 64 = allocated_size l * 2"
      "(8 * (allocated_size l * 2)) mod 2 ^ 64 = 8 * (allocated_size l * 2)"
    using small by simp_all
  have le: "l_size l \<le> allocated_size l" using assms(1) by (simp add: slist_wf_def)
  have "\<exists>i l1. statsrelay_list_expand (\<lambda>_. Some []) l = (Some i, l1) \<and> allocated_size l1 \<le> 2 * l_size l1"
  proof (cases "allocated_size l = l_size l")
    case False
    with le assms(2) show ?thesis unfolding statsrelay_list_expand_def m Let_def by simp
  next
    case True
    show ?thesis
    proof (cases "allocated_size l = 0")
      case z: True
      with True show ?thesis unfolding statsrelay_list_expand_def m Let_def by (simp split: option.split)
    next
      case z: False
      obtain blk where "malloc (\<lambda>_. Some []) (8 * (allocated_size l * 2)) = Some blk"
        using small(3) generous_malloc [of "8 * (allocated_size l * 2)"]
        by (cases "malloc (\<lambda>_. Some []) (8 * (allocated_size l * 2))") auto
      with True z m show ?thesis unfolding statsrelay_list_expand_def Let_def by simp
    qed
  qed
  then obtain i l1 where e: "statsrelay_list_expand (\<lambda>_. Some []) l = (Some i, l1)" "allocated_size l1 \<le> 2 * l_size l1"
    by blast
  obtain l' where l': "list_push (\<lambda>_. Some []) l v = Some (True, l')" "slist_wf l'" "slist_elems l' = slist_elems l @ [v]"
    using list_push_ok [OF assms(1) e(1)] by blast
  have "l_size l' = Suc (l_size l)" using l' assms(1) by (metis length_append_singleton length_slist_elems)
  moreover have "allocated_size l' = allocated_size l1 \<and> l_size l' = l_size l1"
    using l'(1) e(1) by (auto simp: list_push_def list_put_def split: option.splits if_splits)
  ultimately show ?thesis using l' e(2) by auto
qed

text \<open>The entries of a shard map.\<close>

lemma upd_section_twice [simp]: "upd_section r f (upd_section r g cfg) = upd_section r (f \<circ> g) cfg"
  by (cases r) simp_all

lemma get_upd_section [simp]: "get_section (upd_section r f cfg) r = f (get_section cfg r)"
  by (cases r) simp_all

lemma parse_shard:
  assumes "k < 2 ^ 63" "length l < 2 ^ 62" "pc_ring (get_section cfg r) = Some ring"
    and "list_push (\<lambda>_. Some []) ring (Some l) = Some (True, ring')"
  shows "parse_loop generous_mem i (ScalarEvent (decimal k) # ScalarEvent l # evs)
      (between 3 cfg (Some r) (int k - 1) True d True) =
    parse_loop generous_mem i evs
      (between 3 (upd_section r (\<lambda>p. p\<lparr>pc_ring := Some ring'\<rparr>) cfg) (Some r) (int (Suc k) - 1) True d True)"
  using assms convert_number_decimal [OF assms(1)]
  by (simp add: between_def parse_event_def parse_scalar_def toggle_key_def scalar_shard_key_def
      scalar_shard_value_def)

lemma parse_shards:
  assumes "pc_ring (get_section cfg r) = Some ring" "slist_wf ring" "allocated_size ring \<le> 2 * l_size ring"
    and "l_size ring = k" "k + length ls < 2 ^ 58" "\<forall>l \<in> set ls. length l < 2 ^ 62"
  shows "\<exists>ring'. slist_wf ring' \<and> slist_elems ring' = slist_elems ring @ map Some ls \<and>
    parse_loop generous_mem i (shard_events k ls @ evs) (between 3 cfg (Some r) (int k - 1) True d True) =
    parse_loop generous_mem i evs (between 3 (upd_section r (\<lambda>p. p\<lparr>pc_ring := Some ring'\<rparr>) cfg) (Some r)
      (int (k + length ls) - 1) True d True)"
  using assms
proof (induction ls arbitrary: cfg ring k)
  case Nil
  have "upd_section r (\<lambda>p. p\<lparr>pc_ring := Some ring\<rparr>) cfg = cfg" using Nil(1) by (cases r) simp_all
  with Nil show ?case by (intro exI [of _ ring]) simp
next
  case (Cons l ls)
  obtain r1 where r1: "list_push (\<lambda>_. Some []) ring (Some l) = Some (True, r1)" "slist_wf r1"
      "slist_elems r1 = slist_elems ring @ [Some l]" "allocated_size r1 \<le> 2 * l_size r1" "l_size r1 = Suc (l_size ring)"
    using list_push_generous [of ring "Some l"] Cons.prems by auto
  let ?cfg = "upd_section r (\<lambda>p. p\<lparr>pc_ring := Some r1\<rparr>) cfg"
  have "k < 2 ^ 63" "length l < 2 ^ 62" using Cons.prems by simp_all
  note step = parse_shard [OF this Cons.prems(1) r1(1), of i "shard_events (Suc k) ls @ evs" d]
  have "pc_ring (get_section ?cfg r) = Some r1" by simp
  from Cons.IH [OF this r1(2,4)] r1(3,5) Cons.prems obtain ring' where
    ring': "slist_wf ring'" "slist_elems ring' = slist_elems ring @ map Some (l # ls)"
      "parse_loop generous_mem i (shard_events (Suc k) ls @ evs) (between 3 ?cfg (Some r) (int (Suc k) - 1) True d True) =
       parse_loop generous_mem i evs (between 3 (upd_section r (\<lambda>p. p\<lparr>pc_ring := Some ring'\<rparr>) ?cfg) (Some r)
         (int (Suc k + length ls) - 1) True d True)"
    by auto
  have eq: "upd_section r (\<lambda>p. p\<lparr>pc_ring := Some ring'\<rparr>) ?cfg = upd_section r (\<lambda>p. p\<lparr>pc_ring := Some ring'\<rparr>) cfg"
    by (cases r) simp_all
  show ?case using ring'(1,2) step ring'(3) unfolding eq by (intro exI [of _ ring']) simp
qed

lemma parse_section:
  assumes sp: "spec_ok sp" and ring: "pc_ring (get_section cfg r) = Some ring" "slist_wf ring"
    "slist_elems ring = []" "allocated_size ring = 0"
  shows "\<exists>f k. reads_as (f (get_section cfg r)) sp \<and>
    parse_loop generous_mem i (section_events r sp @ evs) (between 1 cfg ro prev key d e) =
    parse_loop generous_mem i evs (between 1 (upd_section r f cfg) (Some r) k True True True)"
proof -
  let ?opt = "\<lambda>p. p\<lparr>pc_bind := Some (sp_bind sp), max_send_queue := word_of_int (int (sp_queue sp)),
      enable_validation := sp_validate sp, enable_tcp_cork := sp_cork sp, always_resolve_dns := sp_dns sp\<rparr>"
  let ?cfg1 = "upd_section r (\<lambda>p. p\<lparr>initialized := True\<rparr>) cfg"
  let ?cfg2 = "upd_section r ?opt ?cfg1"
  let ?sh = "[ScalarEvent ''shard_map'', MappingStart] @ shard_events 0 (sp_shards sp) @ [MappingEnd, MappingEnd] @ evs"
  have 1: "parse_loop generous_mem i (section_events r sp @ evs) (between 1 cfg ro prev key d e) =
      parse_loop generous_mem i (option_events (sp_bind sp) (sp_queue sp) (sp_validate sp) (sp_cork sp) (sp_dns sp) @ ?sh)
        (between 2 ?cfg1 (Some r) prev True d e)"
    by (cases r) (simp_all add: section_events_def between_def parse_event_def parse_scalar_def toggle_key_def
        scalar_section_def section_name_def)
  have 2: "\<dots> = parse_loop generous_mem i ?sh (between 2 ?cfg2 (Some r) prev True True e)"
    using sp by (intro parse_options) (auto simp: spec_ok_def)
  have 3: "\<dots> = parse_loop generous_mem i (shard_events 0 (sp_shards sp) @ [MappingEnd, MappingEnd] @ evs)
      (between 3 ?cfg2 (Some r) (int 0 - 1) True True True)"
    by (simp add: between_def parse_event_def parse_scalar_def toggle_key_def scalar_option_key_def)
  have "pc_ring (get_section ?cfg2 r) = Some ring" "l_size ring = 0" "allocated_size ring \<le> 2 * l_size ring"
    using ring length_slist_elems [OF ring(2)] by simp_all
  moreover have "0 + length (sp_shards sp) < 2 ^ 58" "\<forall>l \<in> set (sp_shards sp). length l < 2 ^ 62"
    using sp by (simp_all add: spec_ok_def)
  ultimately obtain ring' where
    r': "slist_wf ring'" "slist_elems ring' = slist_elems ring @ map Some (sp_shards sp)"
      "parse_loop generous_mem i (shard_events 0 (sp_shards sp) @ [MappingEnd, MappingEnd] @ evs)
        (between 3 ?cfg2 (Some r) (int 0 - 1) True True True) =
       parse_loop generous_mem i ([MappingEnd, MappingEnd] @ evs)
        (between 3 (upd_section r (\<lambda>p. p\<lparr>pc_ring := Some ring'\<rparr>) ?cfg2) (Some r)
          (int (0 + length (sp_shards sp)) - 1) True True True)"
    using parse_shards [where cfg = ?cfg2 and r = r and ring = ring and k = 0 and ls = "sp_shards sp" and i = i
        and evs = "[MappingEnd, MappingEnd] @ evs" and d = True] ring(2) by metis
  let ?f = "\<lambda>p. (?opt (p\<lparr>initialized := True\<rparr>))\<lparr>pc_ring := Some ring'\<rparr>"
  have eq: "upd_section r (\<lambda>p. p\<lparr>pc_ring := Some ring'\<rparr>) ?cfg2 = upd_section r ?f cfg"
    by (cases r) simp_all
  have 4: "parse_loop generous_mem i ([MappingEnd, MappingEnd] @ evs) (between 3 c (Some r) k True True True) =
      parse_loop generous_mem i evs (between 1 c (Some r) k True True True)" for c k
    by (simp add: between_def parse_event_def)
  have "reads_as (?f (get_section cfg r)) sp" using r'(1,2) ring(3) by (simp add: reads_as_def)
  then show ?thesis using 1 2 3 r'(3) 4 unfolding eq by (intro exI [of _ ?f] exI) simp
qed

text \<open>The smallest useful configuration: one statsd shard and the default options.\<close>

definition minimal_events :: "bytes \<Rightarrow> yaml_event list" where
  "minimal_events l =
     [StreamStart, DocumentStart, MappingStart, ScalarEvent ''statsd'', MappingStart, ScalarEvent ''shard_map'',
      MappingStart, ScalarEvent ''0'', ScalarEvent l, MappingEnd, MappingEnd, MappingEnd, DocumentEnd, StreamEnd]"

definition minimal_config :: "bytes \<Rightarrow> config" where
  "minimal_config l =
      \<lparr>statsd_config = \<lparr>initialized = True, pc_bind = Some ''127.0.0.1:8125'', enable_validation = True,
       enable_tcp_cork = True, always_resolve_dns = False, max_send_queue = 134217728,
       pc_ring = Some \<lparr>allocated_size = 1, l_size = 1, l_data = Some [Some (Some l)]\<rparr>\<rparr>,
     carbon_config = \<lparr>initialized = False, pc_bind = Some ''127.0.0.1:2003'', enable_validation = True,
       enable_tcp_cork = True, always_resolve_dns = False, max_send_queue = 134217728,
       pc_ring = Some \<lparr>allocated_size = 0, l_size = 0, l_data = None\<rparr>\<rparr>\<rparr>"

lemma parse_minimal:
  assumes "length l < 2 ^ 62"
  shows "parse_config (\<lambda>_. Some []) (\<lambda>_. Some []) (\<lambda>_. Some []) True
      (\<lambda>_. (\<lambda>_. Some [], \<lambda>_. Some [])) (minimal_events l) =
    Some (Some (minimal_config l))"
proof -
  have num: "convert_number ''0'' = (True, 0)" by code_simp
  obtain m where m: "malloc (\<lambda>_. Some []) 80 = Some m" by (simp add: malloc_def)
  have new: "statsrelay_list_new (\<lambda>_. Some []) =
      Some \<lparr>allocated_size = 0, l_size = 0, l_data = None :: bytes option option list option\<rparr>"
    by (simp add: statsrelay_list_new_def malloc_def)
  have push: "list_push (\<lambda>_. Some []) \<lparr>allocated_size = 0, l_size = 0, l_data = None\<rparr> (Some l) =
      Some (True, \<lparr>allocated_size = 1, l_size = 1, l_data = Some [Some (Some l)]\<rparr>)"
    by (simp add: list_push_def statsrelay_list_expand_def malloc_def list_put_def resize_slots_def sz_sub_def Let_def)
  show ?thesis
    using assms
    by (simp add: m num new push parse_config_def minimal_events_def minimal_config_def start_state_def
        init_proto_config_def parse_event_def
        parse_scalar_def toggle_key_def scalar_section_def scalar_option_key_def scalar_shard_key_def
        scalar_shard_value_def Let_def)
qed

section \<open>What a parsed configuration is like\<close>

text \<open>
  A list of shards: null when it could not be allocated, otherwise a list in order whose strings are
  all there, at most \<open>k\<close> of them.
\<close>

definition ring_ok :: "nat \<Rightarrow> bytes option slist option \<Rightarrow> bool" where
  "ring_ok k ring \<longleftrightarrow>
     (\<forall>l. ring = Some l \<longrightarrow> slist_wf l \<and> length (slist_elems l) \<le> k \<and> None \<notin> set (slist_elems l))"

definition rings_ok :: "nat \<Rightarrow> config \<Rightarrow> bool" where
  "rings_ok k cfg \<longleftrightarrow> ring_ok k (pc_ring (statsd_config cfg)) \<and> ring_ok k (pc_ring (carbon_config cfg))"

lemma rings_ok_section: "rings_ok k cfg \<Longrightarrow> ring_ok k (pc_ring (get_section cfg r))"
  by (cases r) (simp_all add: rings_ok_def)

lemma rings_ok_mono: "rings_ok k cfg \<Longrightarrow> k \<le> m \<Longrightarrow> rings_ok m cfg"
  unfolding rings_ok_def ring_ok_def by (meson order_trans)

lemma rings_ok_update: "rings_ok k cfg \<Longrightarrow> ring_ok k (pc_ring (f (get_section cfg r))) \<Longrightarrow> rings_ok k (upd_section r f cfg)"
  by (cases r) (simp_all add: rings_ok_def)

lemma rings_ok_frame: "rings_ok k cfg \<Longrightarrow> (\<And>p. pc_ring (f p) = pc_ring p) \<Longrightarrow> rings_ok k (upd_section r f cfg)"
  by (rule rings_ok_update) (simp_all add: rings_ok_section)

lemma ring_ok_push:
  assumes "ring_ok k (Some l)" "list_push A l (Some x) = Some (True, l')"
  shows "ring_ok (Suc k) (Some l')"
  using gl.push_elems [of l A "Some x" l'] assms by (auto simp: ring_ok_def)

lemma upd_protoc_rings:
  assumes "upd_protoc f s = Some s'" "rings_ok k (p_config s)" "\<And>p. pc_ring (f p) = pc_ring p"
  shows "rings_ok k (p_config s')"
  using assms by (auto simp: upd_protoc_def rings_ok_frame split: option.splits)

lemma set_field_rings:
  assumes "set_field f v s = Some (ok, s')" "rings_ok k (p_config s)" "\<And>b p. pc_ring (f b p) = pc_ring p"
  shows "rings_ok k (p_config s')"
  using assms by (auto simp: set_field_def intro: upd_protoc_rings split: option.splits Option.bind_splits)

lemma toggle_key_Go: "toggle_key r = Go s' \<longleftrightarrow> (\<exists>t. r = Go t \<and> s' = t\<lparr>is_key := \<not> is_key t\<rparr>)"
  by (cases r) (auto simp: toggle_key_def)

lemma parse_scalar_rings:
  assumes "parse_scalar A S v s = Some (Go s')" "rings_ok k (p_config s)"
  shows "rings_ok (Suc k) (p_config s')"
proof -
  have sec: "rings_ok k (p_config t)" if "scalar_section v s = Some (Go t)" for t
    using that assms(2) by (auto simp: scalar_section_def rings_ok_def split: if_splits)
  have key: "p_config (scalar_option_key v s) = p_config s" by (simp add: scalar_option_key_def)
  note upd = upd_protoc_rings [OF _ assms(2)] and field = set_field_rings [OF _ assms(2)]
  have copied: "upd_protoc (\<lambda>p. p\<lparr>pc_bind := x\<rparr>) s = Some t \<Longrightarrow> rings_ok k (p_config t)"
      "upd_protoc (\<lambda>p. p\<lparr>max_send_queue := q\<rparr>) s = Some t \<Longrightarrow> rings_ok k (p_config t)" for x q t
    by - (rule upd, assumption, simp)+
  have "set_field (\<lambda>v p. p\<lparr>enable_validation := v\<rparr>) v s = Some (ok, t) \<Longrightarrow> rings_ok k (p_config t)"
      "set_field (\<lambda>v p. p\<lparr>enable_tcp_cork := v\<rparr>) v s = Some (ok, t) \<Longrightarrow> rings_ok k (p_config t)"
      "set_field (\<lambda>v p. p\<lparr>always_resolve_dns := v\<rparr>) v s = Some (ok, t) \<Longrightarrow> rings_ok k (p_config t)" for ok t
    by - (rule field, assumption, simp)+
  with copied have opt: "rings_ok k (p_config t)" if "scalar_option_value S v s = Some (Go t)" for t
    using that assms(2) unfolding scalar_option_value_def by (auto split: if_splits Option.bind_splits)
  have num: "p_config t = p_config s" if "scalar_shard_key v s = Some (Go t)" for t
    using that by (auto simp: scalar_shard_key_def Let_def split: if_splits prod.splits)
  have shard: "rings_ok (Suc k) (p_config t)" if sv: "scalar_shard_value A S v s = Some (Go t)" for t
  proof -
    from sv obtain r ring x l' where *: "pc_ring (get_section (p_config s) r) = Some ring"
        "list_push A ring (Some x) = Some (True, l')"
        "t = s\<lparr>p_config := upd_section r (\<lambda>p. p\<lparr>pc_ring := Some l'\<rparr>) (p_config s)\<rparr>"
      by (auto simp: scalar_shard_value_def Let_def split: Option.bind_splits if_splits)
    then have "ring_ok k (Some ring)" using assms(2) by (metis rings_ok_section)
    from ring_ok_push [OF this *(2)] rings_ok_mono [OF assms(2), of "Suc k"] *(3) show ?thesis
      by (simp add: rings_ok_update)
  qed
  obtain t where t: "p_config s' = p_config t" "scalar_section v s = Some (Go t) \<or> t = scalar_option_key v s \<or>
      scalar_option_value S v s = Some (Go t) \<or> scalar_shard_key v s = Some (Go t) \<or>
      scalar_shard_value A S v s = Some (Go t) \<or> t = s"
    using assms(1) by (auto simp: parse_scalar_def toggle_key_Go split: if_splits)
  then have "rings_ok k (p_config t) \<or> rings_ok (Suc k) (p_config t)"
    using sec key opt num shard assms(2) by metis
  then show ?thesis unfolding t(1) using rings_ok_mono by auto
qed

lemma parse_event_rings:
  assumes "parse_event A S ev s = Some r" "rings_ok k (p_config s)" "r = Go s' \<or> r = Stop s'"
  shows "rings_ok (Suc k) (p_config s')"
proof (cases ev)
  case (ScalarEvent v)
  have "scalar_section v s \<noteq> Some (Stop s')" "scalar_option_value S v s \<noteq> Some (Stop s')"
      "scalar_shard_key v s \<noteq> Some (Stop s')" "scalar_shard_value A S v s \<noteq> Some (Stop s')"
    by (simp_all add: scalar_section_def scalar_option_value_def scalar_shard_key_def scalar_shard_value_def Let_def
        split: if_splits Option.bind_splits prod.splits)
  then have "parse_scalar A S v s \<noteq> Some (Stop s')"
    by (auto simp: parse_scalar_def toggle_key_def split: parse_result.splits if_splits)
  with ScalarEvent assms parse_scalar_rings [of A S v s s' k] show ?thesis by (auto simp: parse_event_def)
qed (use assms rings_ok_mono [of k "p_config s" "Suc k"] in \<open>auto simp: parse_event_def split: if_splits\<close>)

lemma parse_loop_rings:
  assumes "parse_loop mem i evs s = Some (Stop s')" "rings_ok k (p_config s)"
  shows "rings_ok (k + length evs) (p_config s')"
  using assms
proof (induction evs arbitrary: i s k)
  case (Cons ev evs)
  then obtain r where r: "parse_event (fst (mem i)) (snd (mem i)) ev s = Some r"
      "r = Stop s' \<or> (\<exists>t. r = Go t \<and> parse_loop mem (Suc i) evs t = Some (Stop s'))"
    by (auto split: Option.bind_splits parse_result.splits)
  from r(2) show ?case
  proof (elim disjE exE conjE)
    assume "r = Stop s'"
    with parse_event_rings [OF r(1) Cons.prems(2)] have "rings_ok (Suc k) (p_config s')" by blast
    then show ?thesis by (rule rings_ok_mono) simp
  next
    fix t assume t: "r = Go t" "parse_loop mem (Suc i) evs t = Some (Stop s')"
    with parse_event_rings [OF r(1) Cons.prems(2)] Cons.IH [OF t(2)] show ?thesis by fastforce
  qed
qed simp

lemma parsed_rings:
  assumes "parse_config A1 A2 S init_ok mem evs = Some (Some cfg)"
  shows "rings_ok (length evs) cfg"
proof -
  have fresh: "ring_ok 0 (pc_ring (init_proto_config A))" for A
    by (auto simp: ring_ok_def init_proto_config_def dest: list_new_wf)
  obtain c0 s where s: "parse_loop mem 0 evs (start_state c0) = Some (Stop s)" "cfg = p_config s" "rings_ok 0 c0"
  proof -
    let ?c = "\<lparr>statsd_config = (init_proto_config A2)\<lparr>pc_bind := strdup S ''127.0.0.1:8125''\<rparr>,
      carbon_config = (init_proto_config A1)\<lparr>pc_bind := strdup S ''127.0.0.1:2003''\<rparr>\<rparr>"
    have "rings_ok 0 ?c" using fresh by (simp add: rings_ok_def)
    moreover obtain s where "parse_loop mem 0 evs (start_state ?c) = Some (Stop s)" "cfg = p_config s"
      using assms by (simp add: parse_config_def Let_def split: option.splits if_splits Option.bind_splits parse_result.splits)
    ultimately show ?thesis using that by blast
  qed
  from parse_loop_rings [OF s(1), of 0] s(2,3) show ?thesis by (simp add: start_state_def)
qed


lemma all_Some:
  assumes "None \<notin> set xs"
  shows "\<exists>ys. xs = map Some ys"
proof -
  have "map (\<lambda>x. Some (the x)) xs = xs"
    using assms by (intro map_idI) (metis option.collapse)
  then have "xs = map Some (map the xs)" by (simp add: comp_def)
  then show ?thesis by blast
qed

text \<open>Both lists of a configuration can be released.\<close>

lemma destroy_config_ok:
  assumes "rings_ok k cfg" "pc_ring (statsd_config cfg) \<noteq> None" "pc_ring (carbon_config cfg) \<noteq> None"
  shows "destroy_config (Some cfg) = Some ()"
  using assms by (auto simp: destroy_config_def destroy_ring_def rings_ok_def ring_ok_def list_destroy_full_frees_all)

section \<open>Properties\<close>

text \<open>C21: whatever the file and the memory, a configuration that \<open>parse_config\<close> returns is well formed: each
  list of shards is in order, none of its strings is missing, and it has at most one entry per event
  of the file.\<close>

theorem parse_config_well_formed:
  assumes "parse_config A1 A2 S yaml_init_ok mem evs = Some (Some cfg)"
    and "pc_ring (get_section cfg r) = Some lines"
  shows "slist_wf lines \<and> (\<exists>ls. slist_elems lines = map Some ls \<and> length ls \<le> length evs)"
proof -
  have ok: "ring_ok (length evs) (Some lines)"
    using rings_ok_section [OF parsed_rings [OF assms(1)], of r] assms(2) by simp
  then obtain ls where ls: "slist_elems lines = map Some ls" using all_Some by (auto simp: ring_ok_def)
  with ok have "length ls \<le> length evs" by (simp add: ring_ok_def)
  with ok ls show ?thesis by (auto simp: ring_ok_def)
qed

theorem parse_config_well_formed_witness:
  "\<exists>lines. pc_ring (get_section (minimal_config ''h:1'') Statsd) = Some lines \<and> slist_wf lines \<and>
     (\<exists>ls. slist_elems lines = map Some ls \<and> length ls \<le> length (minimal_events ''h:1''))"
proof -
  have "pc_ring (get_section (minimal_config ''h:1'') Statsd) =
      Some \<lparr>allocated_size = 1, l_size = 1, l_data = Some [Some (Some ''h:1'')]\<rparr>"
    by (simp add: minimal_config_def)
  from parse_config_well_formed [OF parse_minimal [of "''h:1''"] this] this show ?thesis by simp
qed



end
