(* ===== verification/Hashring.thy ===== *)
theory Hashring
  imports Hashlib Yaml_Config
begin

text \<open>
  The ring of virtual shards of \<open>src/src/hashring.c\<close>: a growable array of backend pointers,
  indexed by the hash of the key. The callbacks \<open>alloc\<close> and \<open>dealloc\<close> and the data they work on
  are parameters, threaded as a state \<open>'s\<close>. Three interfaces are stated as locales: what the ring
  needs of the hash (\<open>key_hash\<close>), what it needs of the allocation callback
  (\<open>naming\<close>, and \<open>interning\<close> when it shares objects), and, in \<open>Dynlist\<close>, what it needs of the list.
\<close>

section \<open>The ring and its operations\<close>

record 'b hashring =
  backends :: "'b slist option"

type_synonym ('b, 's) alloc_func = "bytes \<Rightarrow> 's \<Rightarrow> ('b option \<times> 's) option"
type_synonym ('b, 's) dealloc_func = "'b \<Rightarrow> 's \<Rightarrow> 's option"

text \<open>\<open>hashring_init\<close> does not check whether the list could be allocated.\<close>

definition hashring_init :: "allocator \<Rightarrow> 'b hashring option" where
  "hashring_init A =
     (case malloc A 32 of
        None \<Rightarrow> None
      | Some _ \<Rightarrow> Some \<lparr>backends = statsrelay_list_new A\<rparr>)"

definition hashring_add ::
    "allocator \<Rightarrow> ('b, 's) alloc_func \<Rightarrow> ('b, 's) dealloc_func \<Rightarrow> 'b hashring \<Rightarrow> bytes option \<Rightarrow> 's \<Rightarrow>
     (bool \<times> 'b hashring \<times> 's) option" where
  "hashring_add A alloc dealloc ring line s =
     (case line of
        None \<Rightarrow> Some (False, ring, s)
      | Some l \<Rightarrow>
          do {
            (obj, s1) \<leftarrow> alloc l s;
            case obj of
              None \<Rightarrow> Some (False, ring, s1)
            | Some v \<Rightarrow>
                do {
                  bl \<leftarrow> backends ring;
                  (ok, bl') \<leftarrow> list_push A bl v;
                  if ok then Some (True, ring\<lparr>backends := Some bl'\<rparr>, s1)
                  else do {
                    s2 \<leftarrow> dealloc v s1;
                    Some (False, ring\<lparr>backends := Some bl'\<rparr>, s2)
                  }
                }
          })"

definition hashring_size :: "'b hashring option \<Rightarrow> nat option" where
  "hashring_size ring =
     (case ring of
        None \<Rightarrow> Some 0
      | Some r \<Rightarrow> (case backends r of None \<Rightarrow> None | Some bl \<Rightarrow> Some (l_size bl)))"

text \<open>The chosen backend and the shard number; \<open>Some None\<close> is the null result.\<close>

definition hashring_choose :: "'b hashring option \<Rightarrow> bytes \<Rightarrow> ('b \<times> u32) option option" where
  "hashring_choose ring key =
     (case ring of
        None \<Rightarrow> Some None
      | Some r \<Rightarrow>
          (case backends r of
             None \<Rightarrow> Some None
           | Some bl \<Rightarrow>
               if l_size bl = 0 then Some None
               else do {
                 index \<leftarrow> stats_hash key (of_nat (length key)) (of_nat (l_size bl));
                 v \<leftarrow> list_get bl (unat index);
                 Some (Some (v, index))
               }))"

text \<open>The inner loop of \<open>hashring_dealloc\<close>: is slot \<open>i\<close> equal to one of the slots \<open>j, \<dots>, i - 1\<close>?\<close>

function seen_before :: "'b slist \<Rightarrow> nat \<Rightarrow> nat \<Rightarrow> bool option" where
  "seen_before bl i j =
     (if j < i then
        do {
          a \<leftarrow> list_get bl i;
          b \<leftarrow> list_get bl j;
          if a = b then Some True else seen_before bl i (Suc j)
        }
      else Some False)"
  by pat_completeness auto
termination
  by (relation "measure (\<lambda>(bl, i, j). i - j)") auto

declare seen_before.simps [simp del]

function dealloc_from :: "('b, 's) dealloc_func \<Rightarrow> 'b slist \<Rightarrow> nat \<Rightarrow> 's \<Rightarrow> 's option" where
  "dealloc_from dealloc bl i s =
     (if i < l_size bl then
        do {
          dup \<leftarrow> seen_before bl i 0;
          s' \<leftarrow> (if dup then Some s else do { v \<leftarrow> list_get bl i; dealloc v s });
          dealloc_from dealloc bl (Suc i) s'
        }
      else Some s)"
  by pat_completeness auto
termination
  by (relation "measure (\<lambda>(dealloc, bl, i, s). l_size bl - i)") auto

declare dealloc_from.simps [simp del]

definition hashring_dealloc :: "('b, 's) dealloc_func \<Rightarrow> 'b hashring option \<Rightarrow> 's \<Rightarrow> 's option" where
  "hashring_dealloc dealloc ring s =
     (case ring of
        None \<Rightarrow> Some s
      | Some r \<Rightarrow>
          (case backends r of
             None \<Rightarrow> Some s
           | Some bl \<Rightarrow> do { s' \<leftarrow> dealloc_from dealloc bl 0 s; _ \<leftarrow> statsrelay_list_destroy bl; Some s' }))"

text \<open>The loop of \<open>hashring_load_from_config\<close> from shard \<open>i\<close> on; \<open>As i\<close> answers its allocations.\<close>

function load_from ::
    "(nat \<Rightarrow> allocator) \<Rightarrow> ('b, 's) alloc_func \<Rightarrow> ('b, 's) dealloc_func \<Rightarrow> bytes option slist \<Rightarrow> nat \<Rightarrow>
     'b hashring \<Rightarrow> 's \<Rightarrow> ('b hashring option \<times> 's) option" where
  "load_from As alloc dealloc lines i ring s =
     (if i < l_size lines then
        do {
          line \<leftarrow> list_get lines i;
          (ok, ring', s') \<leftarrow> hashring_add (As i) alloc dealloc ring line s;
          if ok then load_from As alloc dealloc lines (Suc i) ring' s'
          else do { s'' \<leftarrow> hashring_dealloc dealloc (Some ring') s'; Some (None, s'') }
        }
      else Some (Some ring, s))"
  by pat_completeness auto
termination
  by (relation "measure (\<lambda>(As, a, d, lines, i, ring, s). l_size lines - i)") auto

declare load_from.simps [simp del]

definition hashring_load_from_config ::
    "allocator \<Rightarrow> (nat \<Rightarrow> allocator) \<Rightarrow> ('b, 's) alloc_func \<Rightarrow> ('b, 's) dealloc_func \<Rightarrow> proto_config \<Rightarrow> 's \<Rightarrow>
     ('b hashring option \<times> 's) option" where
  "hashring_load_from_config A As alloc dealloc pc s =
     (case hashring_init A of
        None \<Rightarrow> Some (None, s)
      | Some ring \<Rightarrow>
          (case pc_ring pc of
             None \<Rightarrow> None
           | Some lines \<Rightarrow> load_from As alloc dealloc lines 0 ring s))"

section \<open>Invariant and abstraction\<close>

text \<open>The shards of a ring, in order.\<close>

definition ring_wf :: "'b hashring \<Rightarrow> bool" where
  "ring_wf r \<longleftrightarrow> (case backends r of None \<Rightarrow> False | Some bl \<Rightarrow> slist_wf bl)"

definition ring_shards :: "'b hashring \<Rightarrow> 'b list" where
  "ring_shards r = (case backends r of None \<Rightarrow> [] | Some bl \<Rightarrow> slist_elems bl)"

lemma ring_wfE:
  assumes "ring_wf r"
  obtains bl where "backends r = Some bl" "slist_wf bl" "ring_shards r = slist_elems bl"
  using assms by (auto simp: ring_wf_def ring_shards_def split: option.splits)

lemma ring_wf_Some [simp]: "ring_wf (r\<lparr>backends := Some bl\<rparr>) = slist_wf bl"
  by (simp add: ring_wf_def)

lemma ring_shards_Some [simp]: "ring_shards (r\<lparr>backends := Some bl\<rparr>) = slist_elems bl"
  by (simp add: ring_shards_def)

section \<open>Choosing a shard\<close>

text \<open>What the ring needs of the hash: a value in range for every key and every nonempty domain.\<close>

locale key_hash =
  fixes hash :: "bytes \<Rightarrow> u32 \<Rightarrow> u32 \<Rightarrow> u32 option"
  assumes hash_law:
    "length key < 2 ^ 32 \<Longrightarrow> d \<noteq> 0 \<Longrightarrow> \<exists>h. hash key (of_nat (length key)) d = Some h \<and> unat h < unat d"
begin

definition shard :: "nat \<Rightarrow> bytes \<Rightarrow> nat" where
  "shard n key = unat (the (hash key (of_nat (length key)) (of_nat n)))"

lemma shard_hash:
  assumes "length key < 2 ^ 32" "0 < n" "n < 2 ^ 32"
  shows "hash key (of_nat (length key)) (of_nat n) = Some (of_nat (shard n key))" "shard n key < n"
proof -
  have n: "unat (of_nat n :: u32) = n" using assms(3) by (simp add: unat_of_nat)
  then have "(of_nat n :: u32) \<noteq> 0" using assms(2) by (metis less_numeral_extra(3) unat_0)
  then obtain h where h: "hash key (of_nat (length key)) (of_nat n) = Some h" "unat h < unat (of_nat n :: u32)"
    using hash_law [OF assms(1)] by blast
  show "hash key (of_nat (length key)) (of_nat n) = Some (of_nat (shard n key))" using h by (simp add: shard_def)
  show "shard n key < n" using h n by (simp add: shard_def)
qed

end

interpretation kh: key_hash stats_hash
proof unfold_locales
  fix key :: bytes and d :: u32
  assume "length key < 2 ^ 32" "d \<noteq> 0"
  then show "\<exists>h. stats_hash key (of_nat (length key)) d = Some h \<and> unat h < unat d"
    by (simp add: stats_hash_eq word_mod_less)
qed

text \<open>The shard number of a key among \<open>n\<close> shards.\<close>

definition shard_of :: "nat \<Rightarrow> bytes \<Rightarrow> nat" where
  "shard_of n key = kh.shard n key"

lemma shard_of_less: "length key < 2 ^ 32 \<Longrightarrow> 0 < n \<Longrightarrow> n < 2 ^ 32 \<Longrightarrow> shard_of n key < n"
  unfolding shard_of_def by (rule kh.shard_hash)

lemma hashring_choose_eq:
  assumes "ring_wf r" "ring_shards r \<noteq> []" "length (ring_shards r) < 2 ^ 32" "length key < 2 ^ 32"
  shows "hashring_choose (Some r) key =
    Some (Some (ring_shards r ! shard_of (length (ring_shards r)) key,
                of_nat (shard_of (length (ring_shards r)) key)))"
proof -
  obtain bl where bl: "backends r = Some bl" "slist_wf bl" "ring_shards r = slist_elems bl"
    using assms(1) by (rule ring_wfE)
  let ?n = "length (slist_elems bl)" and ?i = "shard_of (length (slist_elems bl)) key"
  have n: "0 < ?n" "?n < 2 ^ 32" using assms bl by auto
  note h = kh.shard_hash [OF assms(4) n, folded shard_of_def]
  have "unat (of_nat ?i :: u32) = ?i" using h(2) n by (simp add: unat_of_nat)
  with h n bl gl.get_law [OF bl(2) h(2)] gl.count_law [OF bl(2)] show ?thesis
    by (simp add: hashring_choose_def)
qed

lemma hashring_choose_empty:
  "ring_wf r \<Longrightarrow> ring_shards r = [] \<Longrightarrow> hashring_choose (Some r) key = Some None"
  by (erule ring_wfE) (simp add: hashring_choose_def gl.count_law)


text \<open>When shard \<open>j\<close> of a ring is handed to another backend, every key that does not hash to
  shard \<open>j\<close> stays with its backend, and the keys that do all move to the new one.\<close>

lemma hashring_reassign_moves_one_shard:
  assumes "ring_wf r" "ring_wf r'" "ring_shards r' = (ring_shards r)[j := b]"
    "j < length (ring_shards r)" "length (ring_shards r) < 2 ^ 32" "length key < 2 ^ 32"
  shows "hashring_choose (Some r') key =
    (if shard_of (length (ring_shards r)) key = j then Some (Some (b, of_nat j))
     else hashring_choose (Some r) key)"
proof -
  have ne: "ring_shards r \<noteq> []" "ring_shards r' \<noteq> []" using assms(3,4) by auto
  then have "shard_of (length (ring_shards r)) key < length (ring_shards r)"
    using assms(5,6) by (intro shard_of_less) auto
  then show ?thesis
    using hashring_choose_eq [OF assms(1) ne(1) assms(5,6)]
      hashring_choose_eq [OF assms(2) ne(2), of key] assms by simp
qed

text \<open>A ring over given shards, for concrete examples.\<close>

definition ring_of :: "'b list \<Rightarrow> 'b hashring" where
  "ring_of xs = \<lparr>backends = Some \<lparr>allocated_size = length xs, l_size = length xs,
     l_data = (if xs = [] then None else Some (map Some xs))\<rparr>\<rparr>"

lemma ring_of_wf: "8 * length xs < 2 ^ 63 \<Longrightarrow> ring_wf (ring_of xs) \<and> ring_shards (ring_of xs) = xs"
  by (auto simp: ring_of_def ring_wf_def ring_shards_def slist_wf_def slist_elems_def comp_def)


text \<open>The choices asserted by the repository's ring test program
  (\<open>src/src/tests/test_hashring.c\<close>), before and after two shards are reassigned, are the ones
  the model makes.\<close>

lemma hashring_published_choices:
  "map (hashring_choose (Some (ring_of [9000, 9000, 9001, 9001 :: nat])))
       [''apple'', ''banana'', ''orange'', ''lemon''] =
     map Some [Some (9001, 2), Some (9001, 3), Some (9000, 0), Some (9000, 1)] \<and>
   map (hashring_choose (Some (ring_of [9000, 9002, 9001, 9003 :: nat])))
       [''apple'', ''banana'', ''orange'', ''lemon''] =
     map Some [Some (9001, 2), Some (9003, 3), Some (9000, 0), Some (9002, 1)]"
proof -
  have h: "stats_hash ''apple'' 5 4 = Some 2" "stats_hash ''banana'' 6 4 = Some 3"
      "stats_hash ''orange'' 6 4 = Some 0" "stats_hash ''lemon'' 5 4 = Some 1"
    by code_simp+
  show ?thesis by (simp add: hashring_choose_def ring_of_def list_get_def h)
qed

section \<open>Releasing the backends\<close>

text \<open>The elements of a list at their first occurrence, given those seen before.\<close>

fun fresh_elems :: "'b set \<Rightarrow> 'b list \<Rightarrow> 'b list" where
  "fresh_elems seen [] = []"
| "fresh_elems seen (x # xs) =
     (if x \<in> seen then fresh_elems seen xs else x # fresh_elems (insert x seen) xs)"

lemma fresh_elems_props:
  "distinct (fresh_elems seen xs) \<and> set (fresh_elems seen xs) = set xs - seen"
  by (induction xs arbitrary: seen) auto

fun dealloc_all :: "('b, 's) dealloc_func \<Rightarrow> 'b list \<Rightarrow> 's \<Rightarrow> 's option" where
  "dealloc_all dealloc [] s = Some s"
| "dealloc_all dealloc (v # vs) s = do { s' \<leftarrow> dealloc v s; dealloc_all dealloc vs s' }"

lemma seen_before_wf:
  assumes "slist_wf bl" "i < l_size bl" "j \<le> i"
  shows "seen_before bl i j = Some (slist_elems bl ! i \<in> set (drop j (take i (slist_elems bl))))"
  using assms(3)
proof (induction "i - j" arbitrary: j)
  case 0
  then show ?case by (subst seen_before.simps) simp
next
  case (Suc n)
  then have lt: "j < i" by simp
  have len: "i < length (slist_elems bl)" using assms by (simp add: length_slist_elems)
  have "drop j (take i (slist_elems bl)) = slist_elems bl ! j # drop (Suc j) (take i (slist_elems bl))"
    using lt len by (simp add: Cons_nth_drop_Suc [symmetric])
  with Suc lt assms show ?case
    by (subst seen_before.simps) (auto simp: list_get_wf)
qed

lemma dealloc_from_wf:
  assumes "slist_wf bl" "i \<le> l_size bl"
  shows "dealloc_from dealloc bl i s =
    dealloc_all dealloc (fresh_elems (set (take i (slist_elems bl))) (drop i (slist_elems bl))) s"
  using assms(2)
proof (induction "l_size bl - i" arbitrary: i s)
  case 0
  then show ?case using assms(1) by (subst dealloc_from.simps) (simp add: length_slist_elems)
next
  case (Suc n)
  then have lt: "i < l_size bl" "i < length (slist_elems bl)"
    using assms(1) by (simp_all add: length_slist_elems)
  have IH: "dealloc_from dealloc bl (Suc i) =
      dealloc_all dealloc (fresh_elems (set (take (Suc i) (slist_elems bl))) (drop (Suc i) (slist_elems bl)))"
    using Suc lt by (intro ext) simp
  have d: "drop i (slist_elems bl) = slist_elems bl ! i # drop (Suc i) (slist_elems bl)"
    using lt by (simp add: Cons_nth_drop_Suc)
  have t: "set (take (Suc i) (slist_elems bl)) = insert (slist_elems bl ! i) (set (take i (slist_elems bl)))"
    using lt by (simp add: take_Suc_conv_app_nth)
  show ?case
    using lt assms(1) IH seen_before_wf [OF assms(1) lt(1), of 0]
    by (subst dealloc_from.simps) (auto simp: d t list_get_wf insert_absorb)
qed

text \<open>C29: \<open>hashring_dealloc\<close> calls the release callback exactly once for every distinct backend of
  the ring, however many shards share it, in the order of their first shards.\<close>

theorem hashring_dealloc_once_each:
  assumes "ring_wf r"
  shows "\<exists>vs. distinct vs \<and> set vs = set (ring_shards r) \<and>
    hashring_dealloc dealloc (Some r) s = dealloc_all dealloc vs s"
proof -
  obtain bl where bl: "backends r = Some bl" "slist_wf bl" "ring_shards r = slist_elems bl"
    using assms by (rule ring_wfE)
  have "hashring_dealloc dealloc (Some r) s = dealloc_all dealloc (fresh_elems {} (slist_elems bl)) s"
    using dealloc_from_wf [OF bl(2), of 0 dealloc s] bl(1) by (simp add: hashring_dealloc_def)
  with bl(3) fresh_elems_props [of "{}" "slist_elems bl"] show ?thesis by auto
qed

theorem hashring_dealloc_once_each_witness:
  "\<exists>vs. distinct vs \<and> set vs = {4, 5 :: nat} \<and>
    hashring_dealloc (\<lambda>v s. Some (s @ [v])) (Some (ring_of [4, 4, 5 :: nat])) [] =
      dealloc_all (\<lambda>v s. Some (s @ [v])) vs []"
proof -
  have "ring_wf (ring_of [4, 4, 5 :: nat])" "set (ring_shards (ring_of [4, 4, 5 :: nat])) = {4, 5}"
    using ring_of_wf [of "[4, 4, 5 :: nat]"] by auto
  with hashring_dealloc_once_each [OF this(1), of "\<lambda>v s. Some (s @ [v])" "[]"] show ?thesis by simp
qed

section \<open>Loading the ring\<close>

lemma hashring_add_True:
  assumes "ring_wf ring" "hashring_add A alloc dealloc ring line s = Some (True, ring', s')"
  shows "\<exists>l v. line = Some l \<and> alloc l s = Some (Some v, s') \<and> ring_wf ring' \<and>
    ring_shards ring' = ring_shards ring @ [v]"
proof -
  obtain bl where bl: "backends ring = Some bl" "slist_wf bl" "ring_shards ring = slist_elems bl"
    using assms(1) by (rule ring_wfE)
  then obtain l v bl' where "line = Some l" "alloc l s = Some (Some v, s')"
      "list_push A bl v = Some (True, bl')" "ring' = ring\<lparr>backends := Some bl'\<rparr>"
    using assms(2) by (auto simp: hashring_add_def split: option.splits Option.bind_splits if_splits)
  with bl gl.push_elems [OF bl(2), of A v bl'] show ?thesis by simp
qed

lemma hashring_add_False:
  assumes "hashring_add A alloc dealloc ring line s = Some (False, ring', s')"
  shows "ring' = ring \<and> (s' = s \<or> (\<exists>l. alloc l s = Some (None, s'))) \<or>
    (\<exists>bl l1. backends ring = Some bl \<and> statsrelay_list_expand A bl = (None, l1) \<and>
       ring' = ring\<lparr>backends := Some l1\<rparr>)"
proof (cases line)
  case None
  with assms show ?thesis by (simp add: hashring_add_def)
next
  case (Some l)
  then obtain obj s1 where o: "alloc l s = Some (obj, s1)"
    using assms by (auto simp: hashring_add_def split: Option.bind_splits)
  show ?thesis
  proof (cases obj)
    case None
    with assms Some o show ?thesis by (auto simp: hashring_add_def)
  next
    case (Some v)
    with assms \<open>line = Some l\<close> o obtain bl where bl: "backends ring = Some bl"
      by (auto simp: hashring_add_def split: Option.bind_splits)
    obtain r l1 where r: "statsrelay_list_expand A bl = (r, l1)" by fastforce
    with assms \<open>line = Some l\<close> Some o bl show ?thesis
      by (cases r) (auto simp: hashring_add_def list_push_def split: Option.bind_splits if_splits)
  qed
qed

text \<open>A refused expansion leaves a slot that releasing the ring reads, which is undefined.\<close>

lemma dealloc_from_missing:
  assumes "list_get bl i = None" "i < l_size bl" "j \<le> i"
  shows "dealloc_from dealloc bl j h = None"
  using assms(3)
proof (induction "i - j" arbitrary: j h)
  case 0
  then have "j = i" by simp
  have "do { dup \<leftarrow> seen_before bl i 0; if dup then Some h else do { v \<leftarrow> list_get bl i; dealloc v h } } = None"
    using assms(1) by (cases "i = 0") (simp_all add: seen_before.simps [of bl i 0] seen_before.simps [of bl 0 0])
  then show ?case unfolding \<open>j = i\<close> using assms(1,2)
    by (subst dealloc_from.simps, cases "seen_before bl i 0") (simp_all add: Let_def split: if_splits)
next
  case (Suc n)
  then have "dealloc_from dealloc bl (Suc j) h' = None" for h' by simp
  moreover have "j < l_size bl" using Suc assms(2) by simp
  ultimately show ?case by (subst dealloc_from.simps) (auto split: Option.bind_splits)
qed

lemma load_from_step:
  assumes "i < l_size lines" "load_from As alloc dealloc lines i ring s = Some res"
  shows "\<exists>line ok ring1 s1. hashring_add (As i) alloc dealloc ring line s = Some (ok, ring1, s1) \<and>
    (if ok then load_from As alloc dealloc lines (Suc i) ring1 s1
     else do { s2 \<leftarrow> hashring_dealloc dealloc (Some ring1) s1; Some (None, s2) }) = Some res"
proof -
  have eq: "do { line \<leftarrow> list_get lines i;
          (ok, ring', s') \<leftarrow> hashring_add (As i) alloc dealloc ring line s;
          if ok then load_from As alloc dealloc lines (Suc i) ring' s'
          else do { s'' \<leftarrow> hashring_dealloc dealloc (Some ring') s'; Some (None, s'') } } = Some res"
    using assms by (simp add: load_from.simps [of _ _ _ _ i])
  then obtain line where "list_get lines i = Some line" by (cases "list_get lines i") auto
  with eq obtain ok ring1 s1 where "hashring_add (As i) alloc dealloc ring line s = Some (ok, ring1, s1)"
      "(if ok then load_from As alloc dealloc lines (Suc i) ring1 s1
        else do { s2 \<leftarrow> hashring_dealloc dealloc (Some ring1) s1; Some (None, s2) }) = Some res"
    by (cases "hashring_add (As i) alloc dealloc ring line s") auto
  then show ?thesis by blast
qed

text \<open>What every successful \<open>hashring_add\<close> keeps, a successful load keeps.\<close>

lemma load_from_keeps:
  assumes add: "\<And>A line ring s ring' s'.
      P ring s \<Longrightarrow> hashring_add A alloc dealloc ring line s = Some (True, ring', s') \<Longrightarrow> P ring' s'"
    and "P ring s" "load_from As alloc dealloc lines i ring s = Some (Some ring', s')"
  shows "P ring' s'"
  using assms(2,3)
proof (induction "l_size lines - i" arbitrary: i ring s)
  case 0
  then show ?case by (simp add: load_from.simps)
next
  case (Suc n)
  then obtain line ring1 s1 where "hashring_add (As i) alloc dealloc ring line s = Some (True, ring1, s1)"
      "load_from As alloc dealloc lines (Suc i) ring1 s1 = Some (Some ring', s')"
    by (subst (asm) (3) load_from.simps) (auto split: Option.bind_splits if_splits)
  with add [OF Suc.prems(1)] Suc.hyps(1) [of "Suc i" ring1 s1] Suc.hyps(2) show ?case by force
qed

lemma hashring_load_keeps:
  assumes add: "\<And>A line ring s ring' s'.
      P ring s \<Longrightarrow> hashring_add A alloc dealloc ring line s = Some (True, ring', s') \<Longrightarrow> P ring' s'"
    and "\<And>ring. hashring_init A = Some ring \<Longrightarrow> P ring s"
    and "hashring_load_from_config A As alloc dealloc pc s = Some (Some ring, s')"
  shows "P ring s'"
  using assms(2,3) by (auto simp: hashring_load_from_config_def split: option.splits
      intro: load_from_keeps [where P = P, OF add])

text \<open>
  What the ring needs of its allocation callback: an object carries a name computed from the line
  and keeps it while others are made.
\<close>

locale naming =
  fixes alloc :: "('b, 's) alloc_func"
    and ok :: "'s \<Rightarrow> bool"
    and name_of :: "'s \<Rightarrow> 'b \<Rightarrow> bytes option"
    and normal :: "bytes \<Rightarrow> bytes"
  assumes alloc_law:
      "ok s \<Longrightarrow> alloc l s = Some (Some v, s') \<Longrightarrow>
       ok s' \<and> name_of s' v = Some (normal l) \<and> (\<forall>w n. name_of s w = Some n \<longrightarrow> name_of s' w = Some n)"
begin

definition represents :: "'s \<Rightarrow> bytes option list \<Rightarrow> 'b hashring \<Rightarrow> bool" where
  "represents s lines ring \<longleftrightarrow>
     ok s \<and> ring_wf ring \<and>
     list_all2 (\<lambda>line v. \<exists>l. line = Some l \<and> name_of s v = Some (normal l)) lines (ring_shards ring)"

lemma represents_add:
  assumes "represents s lines ring" "hashring_add A alloc dealloc ring line s = Some (True, ring', s')"
  shows "represents s' (lines @ [line]) ring'"
proof -
  have "ring_wf ring" "ok s" using assms(1) by (auto simp: represents_def)
  with hashring_add_True [OF _ assms(2)] obtain l v where a: "line = Some l" "alloc l s = Some (Some v, s')"
      "ring_wf ring'" "ring_shards ring' = ring_shards ring @ [v]"
    by blast
  note law = alloc_law [OF \<open>ok s\<close> a(2)]
  have "list_all2 (\<lambda>line v. \<exists>l. line = Some l \<and> name_of s' v = Some (normal l)) lines (ring_shards ring)"
    using assms(1) law unfolding represents_def by (auto elim!: list_all2_mono)
  with a law show ?thesis by (auto simp: represents_def list_all2_appendI)
qed

lemma load_from_represents:
  assumes "slist_wf lines" "i \<le> l_size lines" "represents s (take i (slist_elems lines)) ring"
    "load_from As alloc dealloc lines i ring s = Some (Some ring', s')"
  shows "represents s' (slist_elems lines) ring'"
  using assms(2-4)
proof (induction "l_size lines - i" arbitrary: i ring s)
  case 0
  then show ?case using assms(1) by (simp add: load_from.simps length_slist_elems)
next
  case (Suc n)
  then have lt: "i < l_size lines" by simp
  have get: "list_get lines i = Some (slist_elems lines ! i)" using assms(1) lt by (rule list_get_wf)
  from Suc.prems(3) lt get obtain ring1 s1
    where add: "hashring_add (As i) alloc dealloc ring (slist_elems lines ! i) s = Some (True, ring1, s1)"
      and rest: "load_from As alloc dealloc lines (Suc i) ring1 s1 = Some (Some ring', s')"
    by (subst (asm) load_from.simps) (auto split: Option.bind_splits if_splits)
  have "take (Suc i) (slist_elems lines) = take i (slist_elems lines) @ [slist_elems lines ! i]"
    using lt assms(1) by (simp add: take_Suc_conv_app_nth length_slist_elems)
  with represents_add [OF Suc.prems(2) add] have "represents s1 (take (Suc i) (slist_elems lines)) ring1"
    by simp
  with Suc.hyps(1) [of "Suc i" s1 ring1] Suc.hyps(2) lt rest show ?case by simp
qed

lemma load_represents:
  assumes "pc_ring pc = Some lines" "slist_wf lines" "slist_elems lines \<noteq> []" "ok s"
    "hashring_load_from_config A As alloc dealloc pc s = Some (Some ring, s')"
  shows "represents s' (slist_elems lines) ring"
proof -
  from assms obtain r0 where r0: "hashring_init A = Some r0"
      "load_from As alloc dealloc lines 0 r0 s = Some (Some ring, s')"
    by (auto simp: hashring_load_from_config_def split: option.splits)
  show ?thesis
  proof (cases "statsrelay_list_new A :: 'b slist option")
    case None
    then have "backends r0 = None" using r0 by (auto simp: hashring_init_def split: option.splits)
    then have "hashring_add (As 0) alloc dealloc r0 line s \<noteq> Some (True, ring1, s1)" for line ring1 s1
      by (auto simp: hashring_add_def split: option.splits Option.bind_splits)
    moreover have "0 < l_size lines" using assms(2,3) by (simp flip: length_slist_elems)
    ultimately have False
      using r0(2) by (subst (asm) load_from.simps) (auto split: Option.bind_splits if_splits)
    then show ?thesis ..
  next
    case (Some bl)
    then have "backends r0 = Some bl" using r0 by (auto simp: hashring_init_def split: option.splits)
    with Some list_new_wf [OF Some] have "represents s [] r0"
      using assms(4) by (simp add: represents_def ring_wf_def ring_shards_def)
    then show ?thesis using load_from_represents [OF assms(2) _ _ r0(2)] by simp
  qed
qed

end

text \<open>A callback that shares objects also keeps the names unique.\<close>

locale interning = naming +
  assumes name_unique: "ok s \<Longrightarrow> name_of s v = Some n \<Longrightarrow> name_of s w = Some n \<Longrightarrow> v = w"
begin

lemma shards_equal_iff:
  assumes "represents s (map Some ls) ring" "i < length ls" "j < length ls"
  shows "ring_shards ring ! i = ring_shards ring ! j \<longleftrightarrow> normal (ls ! i) = normal (ls ! j)"
proof -
  have "name_of s (ring_shards ring ! k) = Some (normal (ls ! k))" if "k < length ls" for k
    using assms(1) that by (auto simp: represents_def list_all2_conv_all_nth)
  from this [OF assms(2)] this [OF assms(3)] show ?thesis
    using assms(1) name_unique unfolding represents_def by (metis option.inject)
qed

end

end
