(* ===== verification/Tcpclient.thy ===== *)
theory Tcpclient
  imports Buffer Yaml_Config
begin

text \<open>
  The outbound connection of \<open>src/src/tcpclient.c\<close> and \<open>src/src/tcpclient.h\<close>: a state machine
  driven by the event loop, with a send queue that survives reconnects. The sockets, the resolver,
  the clock and libev are outside the repository: their answers are arguments of the operations
  (\<open>connect_env\<close> and the result types below), and the calls the code makes to them are recorded,
  newest first, in the ghost field \<open>c_trace\<close>. What the trace means for descriptors and watchers
  (\<open>open_fds\<close>, \<open>watch_fd\<close>) is the documented behaviour of \<open>socket\<close>, \<open>close\<close>,
  \<open>ev_io_start\<close>, \<open>ev_io_stop\<close> and one-shot timers.
\<close>

section \<open>Data\<close>

datatype tcpclient_event = EVENT_CONNECTED | EVENT_SENT | EVENT_RECV | EVENT_ERROR

datatype tcpclient_state =
  STATE_INIT | STATE_CONNECTING | STATE_BACKOFF | STATE_CONNECTED | STATE_TERMINATED

datatype watcher = ConnectW | ReadW | WriteW | TimeoutW

record addrinfo =
  ai_family :: int
  ai_socktype :: int
  ai_protocol :: int

datatype ext_call =
    IoStart watcher int | IoStop watcher | TimerStart | TimerStop | TimerExpired
  | RecvMalloc | RecvFree
  | SocketCall int | CorkCall int | ConnectCall int | CloseCall int | SendCall bytes | FreeAddrinfo
  | Callback tcpclient_event bytes

datatype sent_callback = Default_callback | Client_callback

record tcpclient =
  c_state :: tcpclient_state
  c_sd :: int
  c_addr :: "addrinfo option"
  c_last_error :: int
  c_failing :: int
  c_config :: proto_config
  c_socktype :: int
  c_host :: bytes
  c_port :: bytes
  c_protocol :: bytes
  c_name :: bytes
  c_queue :: buffer
  callback_sent :: sent_callback
  connect_started :: bool
  read_started :: bool
  write_started :: bool
  c_trace :: "ext_call list"

abbreviation (input) "SOCK_STREAM \<equiv> 1 :: int"
abbreviation (input) "SOCK_DGRAM \<equiv> 2 :: int"
abbreviation (input) "AF_INET \<equiv> 2 :: int"
abbreviation (input) "IPPROTO_TCP \<equiv> 6 :: int"

definition TCPCLIENT_RETRY_TIMEOUT :: int where "TCPCLIENT_RETRY_TIMEOUT = 1"
definition TCPCLIENT_NAME_LEN :: nat where "TCPCLIENT_NAME_LEN = 256"
definition DEFAULT_BUFFER_SIZE :: nat where "DEFAULT_BUFFER_SIZE = 65536"

text \<open>The answers of the system to one call of \<open>tcpclient_connect\<close>.\<close>

datatype connect_result = Conn_ok | Conn_in_progress | Conn_error

record connect_env =
  e_now :: int
  e_now_err :: int
  e_addr :: "addrinfo option"
  e_sock :: int
  e_fcntl_ok :: bool
  e_connect :: connect_result

datatype recv_result = Recv_error | Recv_eof | Recv_data bytes

definition emit :: "ext_call \<Rightarrow> tcpclient \<Rightarrow> tcpclient" where
  "emit e c = c\<lparr>c_trace := e # c_trace c\<rparr>"

section \<open>Operations\<close>

text \<open>
  \<open>tcpclient_default_callback\<close> releases a received buffer and does nothing else. All callbacks but the
  one for sent data stay the default, and only the handler of reads passes a buffer on.
\<close>

definition tcpclient_default_callback :: "tcpclient_event \<Rightarrow> tcpclient \<Rightarrow> tcpclient" where
  "tcpclient_default_callback event c = (if event = EVENT_RECV then emit RecvFree c else c)"

definition tcpclient_set_state :: "tcpclient \<Rightarrow> tcpclient_state \<Rightarrow> tcpclient" where
  "tcpclient_set_state c st = c\<lparr>c_state := st\<rparr>"

text \<open>
  The common part of the error exits: remember the time, go to backoff, and, after the calls
  \<open>es\<close>, tell the error callback.
\<close>

definition backoff :: "int \<Rightarrow> ext_call list \<Rightarrow> tcpclient \<Rightarrow> tcpclient" where
  "backoff now es c =
     fold emit es (tcpclient_set_state (c\<lparr>c_last_error := now\<rparr>) STATE_BACKOFF)"

definition tcpclient_connect_timeout :: "int \<Rightarrow> tcpclient \<Rightarrow> tcpclient" where
  "tcpclient_connect_timeout now c =
     (let c1 = (if connect_started c then emit (IoStop ConnectW) c\<lparr>connect_started := False\<rparr> else c)
      in backoff now [Callback EVENT_ERROR []] (emit (CloseCall (c_sd c1)) c1))"

text \<open>
  \<open>tcpclient_init\<close>. \<open>As 0, As 1, As 2\<close> answer the copies of host, port and protocol, \<open>As 3\<close> and
  \<open>As 4\<close> the two requests for the send queue, whose results are not checked. A null host or port
  is refused; a null protocol means TCP.
\<close>

definition tcpclient_init ::
    "(nat \<Rightarrow> allocator) \<Rightarrow> tcpclient \<Rightarrow> proto_config \<Rightarrow> bytes option \<Rightarrow> bytes option \<Rightarrow> bytes option \<Rightarrow>
     (int \<times> tcpclient) option" where
  "tcpclient_init As c0 config host port protocol =
     (let c = c0\<lparr>c_state := STATE_INIT, c_sd := -1, c_addr := None, c_last_error := 0, c_failing := 0,
                 c_config := config, c_socktype := SOCK_DGRAM\<rparr>
      in case host of
           None \<Rightarrow> Some (1, c)
         | Some h \<Rightarrow>
             if malloc (As 0) (length h + 1) = None then Some (1, c)
             else (case port of
               None \<Rightarrow> Some (1, c)
             | Some p \<Rightarrow>
                 if malloc (As 1) (length p + 1) = None then Some (1, c)
                 else
                   (let pr = (case protocol of None \<Rightarrow> ''tcp'' | Some x \<Rightarrow> x) in
                    if malloc (As 2) (length pr + 1) = None then Some (1, c)
                    else do {
                      let q1 = snd (buffer_init (As 3) (c_queue c));
                      (_, q2) \<leftarrow> buffer_newsize (As 4) q1 DEFAULT_BUFFER_SIZE;
                      Some (0, c\<lparr>c_host := h, c_port := p, c_protocol := pr, c_name := ''UNRESOLVED'',
                                callback_sent := Default_callback, c_queue := q2,
                                connect_started := False, read_started := False,
                                write_started := False\<rparr>)
                    })))"

definition tcpclient_set_sent_callback :: "tcpclient \<Rightarrow> sent_callback \<Rightarrow> tcpclient" where
  "tcpclient_set_sent_callback c cb = c\<lparr>callback_sent := cb\<rparr>"

text \<open>
  \<open>tcpclient_read_event\<close>: the flag tells whether the event includes \<open>EV_READ\<close>, \<open>mem_ok\<close> whether the
  receive buffer could be allocated.
\<close>

definition tcpclient_read_event :: "bool \<Rightarrow> bool \<Rightarrow> recv_result \<Rightarrow> int \<Rightarrow> tcpclient \<Rightarrow> tcpclient" where
  "tcpclient_read_event ev_read mem_ok r now c0 =
     (if \<not> ev_read then c0
      else if \<not> mem_ok then c0
      else
        (let c = emit RecvMalloc c0 in
         case r of
           Recv_error \<Rightarrow>
             (let c1 = (if read_started c then emit (IoStop ReadW) c\<lparr>read_started := False\<rparr> else c);
                  c2 = (if write_started c1 then emit (IoStop WriteW) c1\<lparr>write_started := False\<rparr> else c1)
              in backoff now [CloseCall (c_sd c2), RecvFree, Callback EVENT_ERROR []] c2)
         | Recv_eof \<Rightarrow>
             (let c1 = emit RecvFree (emit (CloseCall (c_sd c)) (emit (IoStop WriteW) (emit (IoStop ReadW) c)));
                  c2 = (tcpclient_set_state c1 STATE_INIT)\<lparr>c_last_error := now\<rparr>
              in emit (Callback EVENT_ERROR []) c2)
         | Recv_data d \<Rightarrow> tcpclient_default_callback EVENT_RECV (emit (Callback EVENT_RECV d) c)))"

text \<open>
  \<open>tcpclient_write_event\<close>: \<open>sent\<close> is the result of \<open>send\<close>, \<open>None\<close> for an error.
\<close>

definition tcpclient_write_event :: "bool \<Rightarrow> nat option \<Rightarrow> int \<Rightarrow> tcpclient \<Rightarrow> tcpclient option" where
  "tcpclient_write_event ev_write sent now c =
     (if \<not> ev_write then Some c
      else
        (let buf_len = buffer_datacount (c_queue c) in
         if 0 < buf_len \<and> buf_len < 2 ^ 63 then
           do {
             d \<leftarrow> buffer_read_head (c_queue c) buf_len;
             case sent of
               None \<Rightarrow>
                 Some (backoff now [IoStop WriteW, IoStop ReadW, CloseCall (c_sd c), Callback EVENT_ERROR []] c)
             | Some n \<Rightarrow>
                 (let c1 = emit (Callback EVENT_SENT (take n d)) (emit (SendCall (take n d)) c);
                      (rc, q) = buffer_consume (c_queue c1) n
                  in if rc \<noteq> 0 then Some c1
                     else
                       (let c2 = c1\<lparr>c_queue := q\<rparr>;
                            qsize = buffer_datacount (c_queue c2);
                            c3 = (if c_failing c2 \<noteq> 0 \<and> qsize < unat (max_send_queue (c_config c2))
                                  then c2\<lparr>c_failing := 0\<rparr> else c2)
                        in Some (if qsize = 0 then emit (IoStop WriteW) c3\<lparr>write_started := False\<rparr>
                                 else c3)))
           }
         else Some (emit (IoStop WriteW) c\<lparr>write_started := False\<rparr>)))"

text \<open>
  \<open>tcpclient_connected\<close>: whether \<open>getsockopt\<close> worked, and whether the event or the socket reports
  an error.
\<close>

definition tcpclient_connected :: "bool \<Rightarrow> bool \<Rightarrow> int \<Rightarrow> tcpclient \<Rightarrow> tcpclient" where
  "tcpclient_connected sockopt_ok err now c =
     (let c1 = emit (IoStop ConnectW) (emit TimerStop c) in
      if \<not> sockopt_ok then c1
      else if err then backoff now [] (emit (CloseCall (c_sd c1)) c1)
      else
        (let c2 = tcpclient_set_state c1 STATE_CONNECTED;
             c3 = emit (IoStart ReadW (c_sd c2)) c2\<lparr>read_started := True\<rparr>;
             c4 = emit (IoStart WriteW (c_sd c3)) c3\<lparr>write_started := True\<rparr>
         in emit (Callback EVENT_CONNECTED []) c4))"

definition wants_cork :: "proto_config \<Rightarrow> addrinfo \<Rightarrow> bool" where
  "wants_cork cfg a \<longleftrightarrow>
     enable_tcp_cork cfg \<and> ai_family a = AF_INET \<and> ai_socktype a = SOCK_STREAM \<and>
     ai_protocol a = IPPROTO_TCP"

text \<open>The second half of the \<open>STATE_INIT\<close> block of \<open>tcpclient_connect\<close>, once the address is known.\<close>

definition connect_socket :: "connect_env \<Rightarrow> addrinfo \<Rightarrow> tcpclient \<Rightarrow> int \<times> tcpclient" where
  "connect_socket env addr c =
     (let sd = e_sock env in
      if sd < 0 then (4, backoff (e_now_err env) [Callback EVENT_ERROR []] c)
      else
        (let c1 = emit (SocketCall sd) c;
             c2 = (if wants_cork (c_config c1) addr then emit (CorkCall sd) c1 else c1);
             c3 = c2\<lparr>c_sd := sd\<rparr>
         in if \<not> e_fcntl_ok env then
              (5, backoff (e_now_err env) [CloseCall sd, Callback EVENT_ERROR []] c3)
            else
              (let c4 = emit TimerStart (emit (IoStart ConnectW sd) c3\<lparr>connect_started := True\<rparr>);
                   c5 = emit (ConnectCall sd) c4
               in case e_connect env of
                    Conn_error \<Rightarrow>
                      (6, backoff (e_now_err env)
                            [TimerStop, IoStop ConnectW, CloseCall sd, Callback EVENT_ERROR []] c5)
                  | _ \<Rightarrow> (0, tcpclient_set_state c5 STATE_CONNECTING))))"

definition client_name :: "tcpclient \<Rightarrow> bytes" where
  "client_name c =
     take (TCPCLIENT_NAME_LEN - 1) (c_host c @ ''/'' @ c_port c @ ''/'' @ c_protocol c)"

definition connect_from_init :: "connect_env \<Rightarrow> tcpclient \<Rightarrow> int \<times> tcpclient" where
  "connect_from_init env c =
     (let c1 = (if always_resolve_dns (c_config c) \<and> c_addr c \<noteq> None
                then emit FreeAddrinfo c\<lparr>c_addr := None\<rparr> else c)
      in case c_addr c1 of
           None \<Rightarrow>
             (let c2 = c1\<lparr>c_socktype :=
                           (if strncmp_eq (c_protocol c1) ''udp'' 3 then SOCK_DGRAM else SOCK_STREAM)\<rparr>
              in case e_addr env of
                   None \<Rightarrow> (3, backoff (e_now_err env) [Callback EVENT_ERROR []] c2)
                 | Some addr \<Rightarrow>
                     connect_socket env addr (c2\<lparr>c_addr := Some addr, c_name := client_name c2\<rparr>))
         | Some addr \<Rightarrow> connect_socket env addr c1)"

text \<open>
  \<open>tcpclient_connect\<close>. The recursive call after an expired backoff enters the \<open>STATE_INIT\<close>
  block.
\<close>

definition tcpclient_connect :: "connect_env \<Rightarrow> tcpclient \<Rightarrow> int \<times> tcpclient" where
  "tcpclient_connect env c =
     (if c_state c = STATE_CONNECTED \<or> c_state c = STATE_CONNECTING then (1, c)
      else if c_state c = STATE_BACKOFF then
        (if e_now env - c_last_error c > TCPCLIENT_RETRY_TIMEOUT
         then connect_from_init env (tcpclient_set_state c STATE_INIT)
         else (2, c))
      else if c_state c = STATE_INIT then connect_from_init env c
      else (7, c))"

text \<open>The loop of \<open>tcpclient_sendall\<close> that doubles the queue until \<open>len\<close> more bytes fit.\<close>

partial_function (option) grow_queue :: "allocator \<Rightarrow> buffer \<Rightarrow> nat \<Rightarrow> (int \<times> buffer) option" where
  "grow_queue A q len =
     (if buffer_spacecount q < len then
        do {
          (rc, q') \<leftarrow> buffer_expand A q;
          if rc \<noteq> 0 then Some (rc, q') else grow_queue A q' len
        }
      else Some (0, q))"

definition tcpclient_sendall ::
    "allocator \<Rightarrow> connect_env \<Rightarrow> tcpclient \<Rightarrow> bytes \<Rightarrow> nat \<Rightarrow> (int \<times> tcpclient) option" where
  "tcpclient_sendall A env c buf len =
     (if c_addr c = None then Some (1, c)
      else
        (let c1 = snd (tcpclient_connect env c) in
         if buffer_datacount (c_queue c1) \<ge> unat (max_send_queue (c_config c1)) then
           Some (2, if c_failing c1 = 0 then c1\<lparr>c_failing := 1\<rparr> else c1)
         else do {
           (rc, q1) \<leftarrow> (if buffer_spacecount (c_queue c1) < len then buffer_realign (c_queue c1)
                        else Some (0, c_queue c1));
           if rc \<noteq> 0 then Some (3, c1\<lparr>c_queue := q1\<rparr>)
           else do {
             (rc2, q2) \<leftarrow> grow_queue A q1 len;
             if rc2 \<noteq> 0 then Some (4, c1\<lparr>c_queue := q2\<rparr>)
             else do {
               d \<leftarrow> mload (Block buf) 0 len;
               (_, q3) \<leftarrow> buffer_append q2 d;
               let c2 = c1\<lparr>c_queue := q3\<rparr>;
               Some (0, if c_state c2 = STATE_CONNECTED
                        then emit (IoStart WriteW (c_sd c2)) c2\<lparr>write_started := True\<rparr> else c2)
             }
           }
         }))"

definition tcpclient_destroy :: "tcpclient \<Rightarrow> tcpclient option" where
  "tcpclient_destroy c =
     (let c0 = emit TimerStop c;
          c1 = (if connect_started c0 then emit (IoStop ConnectW) c0\<lparr>connect_started := False\<rparr> else c0);
          c2 = (if read_started c1 then emit (IoStop ReadW) c1\<lparr>read_started := False\<rparr> else c1);
          c3 = (if write_started c2 then emit (IoStop WriteW) c2\<lparr>write_started := False\<rparr> else c2);
          c4 = emit (CloseCall (c_sd c3)) c3;
          c5 = (if c_addr c4 \<noteq> None then emit FreeAddrinfo c4 else c4)
      in do { q \<leftarrow> buffer_destroy (c_queue c5); Some (c5\<lparr>c_queue := q\<rparr>) })"

section \<open>What the trace means\<close>

fun watch_fd :: "ext_call list \<Rightarrow> watcher \<Rightarrow> int option" where
  "watch_fd [] w = None"
| "watch_fd (e # tr) w =
     (case e of
        IoStart v fd \<Rightarrow> if v = w then Some fd else watch_fd tr w
      | IoStop v \<Rightarrow> if v = w then None else watch_fd tr w
      | TimerStart \<Rightarrow> if w = TimeoutW then Some 0 else watch_fd tr w
      | TimerStop \<Rightarrow> if w = TimeoutW then None else watch_fd tr w
      | TimerExpired \<Rightarrow> if w = TimeoutW then None else watch_fd tr w
      | _ \<Rightarrow> watch_fd tr w)"

fun open_fds :: "ext_call list \<Rightarrow> int set" where
  "open_fds [] = {}"
| "open_fds (e # tr) =
     (case e of
        SocketCall fd \<Rightarrow> insert fd (open_fds tr)
      | CloseCall fd \<Rightarrow> open_fds tr - {fd}
      | _ \<Rightarrow> open_fds tr)"

text \<open>Every \<open>close\<close> so far was for a descriptor that was open.\<close>

fun closes_ok :: "ext_call list \<Rightarrow> bool" where
  "closes_ok [] = True"
| "closes_ok (e # tr) =
     (case e of
        CloseCall fd \<Rightarrow> fd \<in> open_fds tr \<and> closes_ok tr
      | _ \<Rightarrow> closes_ok tr)"

text \<open>The receive buffers that are allocated, and that none was released that was not.\<close>

fun recv_buffers :: "ext_call list \<Rightarrow> nat" where
  "recv_buffers [] = 0"
| "recv_buffers (e # tr) =
     (case e of RecvMalloc \<Rightarrow> Suc (recv_buffers tr) | RecvFree \<Rightarrow> recv_buffers tr - 1 | _ \<Rightarrow> recv_buffers tr)"

fun frees_ok :: "ext_call list \<Rightarrow> bool" where
  "frees_ok [] = True"
| "frees_ok (e # tr) = (case e of RecvFree \<Rightarrow> 0 < recv_buffers tr \<and> frees_ok tr | _ \<Rightarrow> frees_ok tr)"

text \<open>The bytes handed to the network so far, oldest first.\<close>

fun sent_bytes :: "ext_call list \<Rightarrow> bytes" where
  "sent_bytes [] = []"
| "sent_bytes (e # tr) = (case e of SendCall d \<Rightarrow> sent_bytes tr @ d | _ \<Rightarrow> sent_bytes tr)"

section \<open>The send queue\<close>

lemma emit_fields [simp]:
  "c_state (emit e c) = c_state c" "c_sd (emit e c) = c_sd c" "c_addr (emit e c) = c_addr c"
  "c_queue (emit e c) = c_queue c" "c_config (emit e c) = c_config c" "c_failing (emit e c) = c_failing c"
  "callback_sent (emit e c) = callback_sent c" "connect_started (emit e c) = connect_started c"
  "read_started (emit e c) = read_started c" "write_started (emit e c) = write_started c"
  "c_trace (emit e c) = e # c_trace c" "c_protocol (emit e c) = c_protocol c"
  by (simp_all add: emit_def)

lemma fold_emit_fields [simp]:
  "c_state (fold emit es c) = c_state c" "c_sd (fold emit es c) = c_sd c"
  "c_addr (fold emit es c) = c_addr c" "c_queue (fold emit es c) = c_queue c"
  "c_config (fold emit es c) = c_config c" "c_failing (fold emit es c) = c_failing c"
  "callback_sent (fold emit es c) = callback_sent c" "connect_started (fold emit es c) = connect_started c"
  "read_started (fold emit es c) = read_started c" "write_started (fold emit es c) = write_started c"
  "c_trace (fold emit es c) = rev es @ c_trace c"
  by (induction es arbitrary: c) auto

lemma set_state_fields [simp]:
  "c_state (tcpclient_set_state c s) = s" "c_sd (tcpclient_set_state c s) = c_sd c"
  "c_addr (tcpclient_set_state c s) = c_addr c" "c_queue (tcpclient_set_state c s) = c_queue c"
  "c_config (tcpclient_set_state c s) = c_config c" "c_failing (tcpclient_set_state c s) = c_failing c"
  "callback_sent (tcpclient_set_state c s) = callback_sent c"
  "connect_started (tcpclient_set_state c s) = connect_started c"
  "read_started (tcpclient_set_state c s) = read_started c"
  "write_started (tcpclient_set_state c s) = write_started c"
  "c_trace (tcpclient_set_state c s) = c_trace c"
  by (simp_all add: tcpclient_set_state_def)

lemma backoff_fields [simp]:
  "c_state (backoff now es c) = STATE_BACKOFF" "c_sd (backoff now es c) = c_sd c"
  "c_addr (backoff now es c) = c_addr c" "c_queue (backoff now es c) = c_queue c"
  "c_config (backoff now es c) = c_config c" "c_failing (backoff now es c) = c_failing c"
  "callback_sent (backoff now es c) = callback_sent c" "c_trace (backoff now es c) = rev es @ c_trace c"
  by (simp_all add: backoff_def)

text \<open>
  What a connection attempt leaves alone: the queue, the configuration and what was sent.
\<close>

definition same_queue :: "tcpclient \<Rightarrow> tcpclient \<Rightarrow> bool" where
  "same_queue c c' \<longleftrightarrow>
     c_queue c' = c_queue c \<and> c_config c' = c_config c \<and> c_failing c' = c_failing c \<and>
     callback_sent c' = callback_sent c \<and> sent_bytes (c_trace c') = sent_bytes (c_trace c)"

lemma connect_socket_frame: "same_queue c (snd (connect_socket env addr c))"
  by (auto simp: connect_socket_def same_queue_def Let_def split: connect_result.split)

lemma connect_from_init_frame: "same_queue c (snd (connect_from_init env c))"
proof -
  have step: "same_queue c (snd (connect_socket env addr d))" if "same_queue c d" for addr d
    using that connect_socket_frame [of d env addr] by (simp add: same_queue_def)
  show ?thesis
    unfolding connect_from_init_def Let_def
    by (auto split: option.split intro!: step) (auto simp: same_queue_def)
qed

lemma connect_same_queue: "same_queue c (snd (tcpclient_connect env c))"
  using connect_from_init_frame [of c env] connect_from_init_frame [of "tcpclient_set_state c STATE_INIT" env]
  by (auto simp: tcpclient_connect_def same_queue_def)

lemmas tcpclient_connect_frame [frame_simps] = connect_same_queue [unfolded same_queue_def, THEN conjunct1]
  connect_same_queue [unfolded same_queue_def, THEN conjunct2, THEN conjunct1]
  connect_same_queue [unfolded same_queue_def, THEN conjunct2, THEN conjunct2, THEN conjunct1]
  connect_same_queue [unfolded same_queue_def, THEN conjunct2, THEN conjunct2, THEN conjunct2, THEN conjunct1]
  connect_same_queue [unfolded same_queue_def, THEN conjunct2, THEN conjunct2, THEN conjunct2, THEN conjunct2]

text \<open>
  The growing loop ends: each round doubles a size that starts positive and stays below
  \<open>2 ^ 63\<close>. It fails only when the allocator refuses a request of less than twice the space
  that is needed.
\<close>

lemma grow_queue_total:
  assumes "buffer_wf q" "0 < b_size q"
  shows "\<exists>rc q'. grow_queue A q len = Some (rc, q') \<and> buffer_wf q' \<and> buffer_data q' = buffer_data q \<and>
    0 < b_size q' \<and> (rc = 0 \<longrightarrow> len \<le> buffer_spacecount q') \<and>
    (rc \<noteq> 0 \<longrightarrow> (\<exists>n < 2 * (b_tail q + len). malloc A n = None))"
  using assms
proof (induction "2 ^ 63 - b_size q" arbitrary: q rule: less_induct)
  case less
  show ?case
  proof (cases "buffer_spacecount q < len")
    case False
    with less.prems show ?thesis by (simp add: grow_queue.simps [of A q])
  next
    case True
    from less.prems(1) have small: "b_size q < 2 ^ 63" by (rule buffer_wfE)
    from True less.prems(1) have need: "b_size q * 2 < 2 * (b_tail q + len)"
      by (auto simp: buffer_simps)
    from buffer_expand_cases [OF less.prems(1), of A] show ?thesis
    proof (elim disjE exE conjE)
      assume "buffer_expand A q = Some (-1, q)" "malloc A (b_size q * 2) = None"
      with True need less.prems show ?thesis by (auto simp: grow_queue.simps [of A q])
    next
      fix q1 assume q1: "buffer_expand A q = Some (0, q1)" "buffer_wf q1" "buffer_data q1 = buffer_data q"
        "b_size q1 = b_size q * 2" "b_tail q1 = b_tail q"
      have "2 ^ 63 - b_size q1 < 2 ^ 63 - b_size q" using q1(4) small less.prems(2) by linarith
      from less.hyps [OF this q1(2)] less.prems(2) q1 True show ?thesis
        by (auto simp: grow_queue.simps [of A q])
    qed
  qed
qed

text \<open>
  What \<open>tcpclient_sendall\<close> does on each branch: the client it leaves, from the result code and
  the queue it ends with, and when each code is returned.
\<close>

definition after_send :: "connect_env \<Rightarrow> tcpclient \<Rightarrow> int \<Rightarrow> buffer \<Rightarrow> tcpclient" where
  "after_send env c rc q' =
     (if rc = 1 then c
      else let c1 = snd (tcpclient_connect env c)\<lparr>c_queue := q'\<rparr> in
        if rc = 0 \<and> c_state c1 = STATE_CONNECTED
        then emit (IoStart WriteW (c_sd c1)) c1\<lparr>write_started := True\<rparr>
        else if rc = 2 \<and> c_failing c1 = 0 then c1\<lparr>c_failing := 1\<rparr> else c1)"

lemma tcpclient_sendall_cases:
  assumes wf: "buffer_wf (c_queue c)" and pos: "0 < b_size (c_queue c)" and len: "len \<le> length buf"
  shows "\<exists>rc q'. buffer_wf q' \<and> 0 < b_size q' \<and>
    tcpclient_sendall A env c buf len =
      Some (rc, after_send env c rc q') \<and>
    (rc = 1 \<longleftrightarrow> c_addr c = None) \<and>
    (rc = 2 \<longleftrightarrow> c_addr c \<noteq> None \<and> unat (max_send_queue (c_config c)) \<le> length (buffer_data (c_queue c))) \<and>
    rc \<in> {0, 1, 2, 4} \<and>
    buffer_data q' = buffer_data (c_queue c) @ (if rc = 0 then take len buf else []) \<and>
    (rc = 4 \<longrightarrow> (\<exists>n < 2 * (length (buffer_data (c_queue c)) + len). malloc A n = None))"
    (is "\<exists>rc q'. ?P rc q'")
proof -
  let ?q = "c_queue c"
  let ?c1 = "snd (tcpclient_connect env c)"
  consider (noaddr) "c_addr c = None"
    | (full) "c_addr c \<noteq> None" "unat (max_send_queue (c_config c)) \<le> length (buffer_data ?q)"
    | (go) "c_addr c \<noteq> None" "length (buffer_data ?q) < unat (max_send_queue (c_config c))"
    by linarith
  then show ?thesis
  proof cases
    case noaddr
    then have P: "?P 1 ?q" using wf pos by (simp add: after_send_def tcpclient_sendall_def)
    show ?thesis by (intro exI, rule P)
  next
    case full
    then have P: "?P 2 ?q" using wf pos
      by (simp add: after_send_def tcpclient_sendall_def frame_simps buffer_simps Let_def)
    show ?thesis by (intro exI, rule P)
  next
    case go
    define room where
      "room = (if buffer_spacecount ?q < len then buffer_realign ?q else Some (0, ?q))"
    obtain q1 where q1: "room = Some (0, q1)" "buffer_wf q1" "buffer_data q1 = buffer_data ?q"
        "0 < b_size q1" "len \<le> buffer_spacecount q1 \<or> b_tail q1 = length (buffer_data ?q)"
      using buffer_realign_wf [OF wf] wf pos unfolding room_def
      by (cases "buffer_spacecount ?q < len") auto
    obtain rc q2 where q2: "grow_queue A q1 len = Some (rc, q2)" "buffer_wf q2"
        "buffer_data q2 = buffer_data q1" "0 < b_size q2" "rc = 0 \<longrightarrow> len \<le> buffer_spacecount q2"
        "rc \<noteq> 0 \<longrightarrow> (\<exists>n < 2 * (b_tail q1 + len). malloc A n = None)"
      using grow_queue_total [OF q1(2) q1(4)] by blast
    show ?thesis
    proof (cases "rc = 0")
      case False
      then have "\<not> len \<le> buffer_spacecount q1" using q2(1) by (auto simp: grow_queue.simps)
      then have "\<exists>n < 2 * (length (buffer_data ?q) + len). malloc A n = None"
        using q1(5) q2(6) False by auto
      then have P: "?P 4 q2" using go False q1 q2 wf
        by (simp add: after_send_def tcpclient_sendall_def frame_simps buffer_datacount_wf Let_def room_def [symmetric] cong: if_cong)
      show ?thesis by (intro exI, rule P)
    next
      case True
      have "length (take len buf) \<le> buffer_spacecount q2" using True q2(5) len by simp
      from buffer_append_wf [OF q2(2) this] obtain q3 where q3: "buffer_append q2 (take len buf) = Some (0, q3)"
          "buffer_wf q3" "buffer_data q3 = buffer_data q2 @ take len buf" "b_size q3 = b_size q2"
        by auto
      have P: "?P 0 q3" using go True q1 q2 q3 wf len
        by (simp add: after_send_def tcpclient_sendall_def frame_simps buffer_datacount_wf Let_def room_def [symmetric] cong: if_cong)
      show ?thesis by (intro exI, rule P)
    qed
  qed
qed

section \<open>The connection state machine\<close>

text \<open>
  What each state of the connection means for the descriptor and the watchers. A client in
  \<open>STATE_CONNECTING\<close> whose connect watcher is stopped is the one whose \<open>getsockopt\<close> failed.
\<close>

definition idle :: "ext_call list \<Rightarrow> bool" where
  "idle tr \<longleftrightarrow> open_fds tr = {} \<and> (\<forall>w. watch_fd tr w = None)"

definition connecting :: "tcpclient \<Rightarrow> bool" where
  "connecting c \<longleftrightarrow>
     open_fds (c_trace c) = {c_sd c} \<and> c_addr c \<noteq> None \<and> connect_started c \<and>
     watch_fd (c_trace c) ReadW = None \<and> watch_fd (c_trace c) WriteW = None \<and>
     (watch_fd (c_trace c) ConnectW = None \<longleftrightarrow> watch_fd (c_trace c) TimeoutW = None) \<and>
     (\<forall>fd. watch_fd (c_trace c) ConnectW = Some fd \<longrightarrow> fd = c_sd c)"

definition connected :: "tcpclient \<Rightarrow> bool" where
  "connected c \<longleftrightarrow>
     open_fds (c_trace c) = {c_sd c} \<and> c_addr c \<noteq> None \<and> read_started c \<and>
     watch_fd (c_trace c) ReadW = Some (c_sd c) \<and>
     watch_fd (c_trace c) ConnectW = None \<and> watch_fd (c_trace c) TimeoutW = None \<and>
     (\<forall>fd. watch_fd (c_trace c) WriteW = Some fd \<longrightarrow> fd = c_sd c \<and> write_started c) \<and>
     (buffer_data (c_queue c) \<noteq> [] \<longrightarrow> watch_fd (c_trace c) WriteW \<noteq> None)"

definition client_inv :: "tcpclient \<Rightarrow> bool" where
  "client_inv c \<longleftrightarrow>
     buffer_wf (c_queue c) \<and> 0 < b_size (c_queue c) \<and> closes_ok (c_trace c) \<and>
     recv_buffers (c_trace c) = 0 \<and> frees_ok (c_trace c) \<and>
     (case c_state c of
        STATE_INIT \<Rightarrow> idle (c_trace c)
      | STATE_BACKOFF \<Rightarrow> idle (c_trace c)
      | STATE_CONNECTING \<Rightarrow> connecting c
      | STATE_CONNECTED \<Rightarrow> connected c
      | STATE_TERMINATED \<Rightarrow> False)"

lemmas phase_defs = idle_def connecting_def connected_def

lemma all_watchers: "(\<forall>w. P w) \<longleftrightarrow> P ConnectW \<and> P ReadW \<and> P WriteW \<and> P TimeoutW"
  by (metis watcher.exhaust)

lemma client_inv_queue: "client_inv c \<Longrightarrow> buffer_wf (c_queue c) \<and> 0 < b_size (c_queue c)"
  by (simp add: client_inv_def)

text \<open>The handlers run only while their watcher is active, which fixes the state.\<close>

lemma watched_state:
  assumes "client_inv c"
  shows "watch_fd (c_trace c) ConnectW \<noteq> None \<Longrightarrow> c_state c = STATE_CONNECTING"
    and "watch_fd (c_trace c) TimeoutW \<noteq> None \<Longrightarrow> c_state c = STATE_CONNECTING"
    and "watch_fd (c_trace c) ReadW \<noteq> None \<Longrightarrow> c_state c = STATE_CONNECTED"
    and "watch_fd (c_trace c) WriteW \<noteq> None \<Longrightarrow> c_state c = STATE_CONNECTED"
  using assms by (auto simp: client_inv_def phase_defs split: tcpclient_state.splits)

definition idle_client :: "tcpclient \<Rightarrow> bool" where
  "idle_client c \<longleftrightarrow>
     buffer_wf (c_queue c) \<and> 0 < b_size (c_queue c) \<and> closes_ok (c_trace c) \<and>
     recv_buffers (c_trace c) = 0 \<and> frees_ok (c_trace c) \<and> idle (c_trace c)"

lemma connect_socket_inv:
  assumes "idle_client c" "c_addr c \<noteq> None"
  shows "client_inv (snd (connect_socket env addr c))"
  using assms
  by (auto simp: connect_socket_def idle_client_def client_inv_def Let_def phase_defs all_watchers
      split: connect_result.split)

lemma connect_from_init_inv: "idle_client c \<Longrightarrow> client_inv (snd (connect_from_init env c))"
  unfolding connect_from_init_def Let_def
  by (auto split: option.split intro!: connect_socket_inv)
     (auto simp: idle_client_def client_inv_def phase_defs all_watchers)

lemma tcpclient_connect_inv:
  assumes "client_inv c"
  shows "client_inv (snd (tcpclient_connect env c))"
proof (cases "c_state c = STATE_INIT \<or> c_state c = STATE_BACKOFF")
  case True
  then have "idle_client c" "idle_client (tcpclient_set_state c STATE_INIT)"
    using assms by (auto simp: client_inv_def idle_client_def)
  with assms show ?thesis
    by (auto simp: tcpclient_connect_def intro: connect_from_init_inv)
next
  case False
  with assms show ?thesis by (auto simp: tcpclient_connect_def)
qed

lemma tcpclient_sendall_inv:
  assumes inv: "client_inv c" and len: "len \<le> length buf"
    and r: "tcpclient_sendall A env c buf len = Some (rc, c')"
  shows "client_inv c' \<and> sent_bytes (c_trace c') = sent_bytes (c_trace c) \<and>
    buffer_data (c_queue c') = buffer_data (c_queue c) @ (if rc = 0 then take len buf else [])"
proof -
  from tcpclient_sendall_cases [OF _ _ len, of c A env] client_inv_queue [OF inv] r
  obtain q' where q': "buffer_wf q'" "0 < b_size q'"
    "buffer_data q' = buffer_data (c_queue c) @ (if rc = 0 then take len buf else [])"
    "c' = after_send env c rc q'"
    by auto
  show ?thesis
  proof (cases "rc = 1")
    case True
    with q' inv show ?thesis by (simp add: after_send_def)
  next
    case False
    with q' tcpclient_connect_inv [OF inv, of env] show ?thesis
      by (auto simp: after_send_def frame_simps Let_def client_inv_def phase_defs split: tcpclient_state.splits)
  qed
qed

lemma tcpclient_connected_inv:
  assumes "client_inv c" "watch_fd (c_trace c) ConnectW \<noteq> None"
  shows "client_inv (tcpclient_connected sockopt_ok err now c)"
  using assms watched_state(1) [OF assms]
  by (auto simp: tcpclient_connected_def client_inv_def phase_defs all_watchers Let_def)

lemma tcpclient_connect_timeout_inv:
  assumes "client_inv c" "watch_fd (c_trace c) TimeoutW \<noteq> None"
  shows "client_inv (tcpclient_connect_timeout now (emit TimerExpired c))"
  using assms watched_state(2) [OF assms]
  by (auto simp: tcpclient_connect_timeout_def client_inv_def phase_defs all_watchers Let_def)

lemma tcpclient_read_event_inv:
  assumes "client_inv c" "watch_fd (c_trace c) ReadW \<noteq> None"
  shows "client_inv (tcpclient_read_event ev_read mem_ok r now c)"
  using assms watched_state(3) [OF assms]
  by (auto simp: tcpclient_read_event_def tcpclient_default_callback_def client_inv_def phase_defs all_watchers Let_def
      split: recv_result.split)

lemma handlers_frame [frame_simps]:
  "sent_bytes (c_trace (tcpclient_connected sockopt_ok err now c)) = sent_bytes (c_trace c)"
  "sent_bytes (c_trace (tcpclient_connect_timeout now c)) = sent_bytes (c_trace c)"
  "sent_bytes (c_trace (tcpclient_read_event ev_read mem_ok r now c)) = sent_bytes (c_trace c)"
  "c_queue (tcpclient_connected sockopt_ok err now c) = c_queue c"
  "c_queue (tcpclient_connect_timeout now c) = c_queue c"
  "c_queue (tcpclient_read_event ev_read mem_ok r now c) = c_queue c"
  by (auto simp: tcpclient_connected_def tcpclient_connect_timeout_def tcpclient_read_event_def tcpclient_default_callback_def Let_def
      split: recv_result.split)

text \<open>
  The write handler on a live connection never fails, sends a prefix of the queue and removes
  exactly what was sent; \<open>send\<close> reports at most what it was offered.
\<close>

lemma write_event_empty:
  assumes "buffer_wf (c_queue c)" "buffer_data (c_queue c) = []"
  shows "tcpclient_write_event True sent now c = Some (emit (IoStop WriteW) c\<lparr>write_started := False\<rparr>)"
  using assms by (simp add: tcpclient_write_event_def buffer_simps)

lemma write_event_error:
  assumes "buffer_wf (c_queue c)" "buffer_data (c_queue c) \<noteq> []"
  shows "tcpclient_write_event True None now c =
    Some (backoff now [IoStop WriteW, IoStop ReadW, CloseCall (c_sd c), Callback EVENT_ERROR []] c)"
proof -
  have "length (buffer_data (c_queue c)) < 2 ^ 63"
    using assms(1) buffer_data_le_size [OF assms(1)] by (auto elim!: buffer_wfE)
  then show ?thesis
    using assms by (simp add: tcpclient_write_event_def buffer_datacount_wf buffer_read_head_wf)
qed

lemma write_event_sent:
  assumes "buffer_wf (c_queue c)" "buffer_data (c_queue c) \<noteq> []" "n \<le> length (buffer_data (c_queue c))"
  shows "\<exists>c'. tcpclient_write_event True (Some n) now c = Some c' \<and>
    c_queue c' = (c_queue c)\<lparr>b_head := b_head (c_queue c) + n\<rparr> \<and>
    c_state c' = c_state c \<and> c_sd c' = c_sd c \<and> c_addr c' = c_addr c \<and> read_started c' = read_started c \<and>
    callback_sent c' = callback_sent c \<and> c_config c' = c_config c \<and>
    (c_failing c' = 0 \<longleftrightarrow> c_failing c = 0 \<or>
       length (buffer_data (c_queue c)) - n < unat (max_send_queue (c_config c))) \<and>
    c_trace c' = (if n = length (buffer_data (c_queue c)) then [IoStop WriteW] else []) @
      [Callback EVENT_SENT (take n (buffer_data (c_queue c))), SendCall (take n (buffer_data (c_queue c)))] @
      c_trace c \<and>
    write_started c' = (write_started c \<and> n \<noteq> length (buffer_data (c_queue c)))"
proof -
  have small: "length (buffer_data (c_queue c)) < 2 ^ 63"
    using assms(1) buffer_data_le_size [OF assms(1)] by (auto elim!: buffer_wfE)
  note adv = buffer_advance_wf [OF assms(1,3)]
  show ?thesis
    using assms small
    by (simp add: tcpclient_write_event_def buffer_datacount_wf buffer_read_head_wf buffer_consume_wf
        adv Let_def)
qed

lemma tcpclient_write_event_inv:
  assumes inv: "client_inv c" and w: "watch_fd (c_trace c) WriteW \<noteq> None"
    and contract: "\<And>n. sent = Some n \<Longrightarrow> n \<le> length (buffer_data (c_queue c))"
  shows "\<exists>c'. tcpclient_write_event ev_write sent now c = Some c' \<and> client_inv c' \<and>
    sent_bytes (c_trace c') @ buffer_data (c_queue c') = sent_bytes (c_trace c) @ buffer_data (c_queue c)"
proof -
  note st = watched_state(4) [OF inv w]
  from inv have wf: "buffer_wf (c_queue c)" by (simp add: client_inv_def)
  consider (ignored) "\<not> ev_write" | (empty) "ev_write" "buffer_data (c_queue c) = []"
    | (err) "ev_write" "buffer_data (c_queue c) \<noteq> []" "sent = None"
    | (ok) n where "ev_write" "buffer_data (c_queue c) \<noteq> []" "sent = Some n"
    by (cases sent) auto
  then show ?thesis
  proof cases
    case ignored
    with inv show ?thesis by (simp add: tcpclient_write_event_def)
  next
    case empty
    with inv st write_event_empty [OF wf empty(2), of sent now] show ?thesis
      by (auto simp: client_inv_def connected_def)
  next
    case err
    with inv st w write_event_error [OF wf err(2), of now] show ?thesis
      by (auto simp: client_inv_def phase_defs all_watchers)
  next
    case ok
    note n = contract [OF ok(3)]
    note adv = buffer_advance_wf [OF wf n]
    from write_event_sent [OF wf ok(2) n, of now] obtain c' where
      c': "tcpclient_write_event True (Some n) now c = Some c'"
        "c_queue c' = (c_queue c)\<lparr>b_head := b_head (c_queue c) + n\<rparr>" "c_state c' = c_state c"
        "c_sd c' = c_sd c" "c_addr c' = c_addr c" "read_started c' = read_started c"
        "c_trace c' = (if n = length (buffer_data (c_queue c)) then [IoStop WriteW] else []) @
          [Callback EVENT_SENT (take n (buffer_data (c_queue c))), SendCall (take n (buffer_data (c_queue c)))] @
          c_trace c"
        "write_started c' = (write_started c \<and> n \<noteq> length (buffer_data (c_queue c)))"
      by blast
    have "client_inv c'" using inv st w adv c'(2-) by (auto simp: client_inv_def connected_def)
    moreover have "sent_bytes (c_trace c') = sent_bytes (c_trace c) @ take n (buffer_data (c_queue c))"
      using c'(7) by simp
    ultimately show ?thesis using c' ok adv by simp
  qed
qed

section \<open>Runs of the event loop\<close>

text \<open>
  A run of one client: the owner calls \<open>tcpclient_connect\<close> and \<open>tcpclient_sendall\<close>, the event
  loop calls a handler whose watcher is active. The second component collects the bytes the
  owner was told were accepted.
\<close>

inductive client_step :: "tcpclient \<times> bytes \<Rightarrow> tcpclient \<times> bytes \<Rightarrow> bool" where
  step_connect: "client_step (c, acc) (snd (tcpclient_connect env c), acc)"
| step_sendall:
    "tcpclient_sendall A env c buf len = Some (rc, c') \<Longrightarrow> len \<le> length buf \<Longrightarrow>
     client_step (c, acc) (c', if rc = 0 then acc @ take len buf else acc)"
| step_connected:
    "watch_fd (c_trace c) ConnectW \<noteq> None \<Longrightarrow>
     client_step (c, acc) (tcpclient_connected sockopt_ok err now c, acc)"
| step_timeout:
    "watch_fd (c_trace c) TimeoutW \<noteq> None \<Longrightarrow>
     client_step (c, acc) (tcpclient_connect_timeout now (emit TimerExpired c), acc)"
| step_read:
    "watch_fd (c_trace c) ReadW \<noteq> None \<Longrightarrow>
     client_step (c, acc) (tcpclient_read_event ev_read mem_ok r now c, acc)"
| step_write:
    "watch_fd (c_trace c) WriteW \<noteq> None \<Longrightarrow>
     (\<And>n. sent = Some n \<Longrightarrow> n \<le> length (buffer_data (c_queue c))) \<Longrightarrow>
     tcpclient_write_event ev_write sent now c = Some c' \<Longrightarrow> client_step (c, acc) (c', acc)"

text \<open>
  A fresh client: \<open>tcpclient_init\<close> succeeded and so did the first allocation of the send queue,
  whose failure it does not report.
\<close>

definition fresh_client :: "tcpclient \<Rightarrow> bool" where
  "fresh_client c \<longleftrightarrow>
     (\<exists>As c0 config host port protocol.
        tcpclient_init As c0 config host port protocol = Some (0, c) \<and> c_trace c0 = [] \<and>
        malloc (As 3) INITIAL_BUFFER_SIZE \<noteq> None)"

definition conserving :: "tcpclient \<times> bytes \<Rightarrow> bool" where
  "conserving s = (case s of (c, acc) \<Rightarrow>
     client_inv c \<and> acc = sent_bytes (c_trace c) @ buffer_data (c_queue c))"

lemma tcpclient_init_queue:
  assumes "malloc A INITIAL_BUFFER_SIZE \<noteq> None"
  shows "\<exists>rc q'. buffer_newsize B (snd (buffer_init A q)) DEFAULT_BUFFER_SIZE = Some (rc, q') \<and>
    buffer_wf q' \<and> buffer_data q' = [] \<and> 0 < b_size q'"
proof -
  let ?q = "snd (buffer_init A q)"
  have q: "buffer_wf ?q" "buffer_data ?q = []" "b_size ?q = 4096"
    using assms buffer_allocate_cases [of A q INITIAL_BUFFER_SIZE]
    by (cases "buffer_init A q"; auto simp: buffer_init_def INITIAL_BUFFER_SIZE_def)+
  then have "b_size ?q \<le> DEFAULT_BUFFER_SIZE" by (simp add: DEFAULT_BUFFER_SIZE_def)
  from buffer_newsize_cases [OF q(1) this, of B] q show ?thesis by (auto simp: DEFAULT_BUFFER_SIZE_def)
qed

lemma fresh_client_start:
  assumes "fresh_client c"
  shows "client_inv c \<and> c_state c = STATE_INIT \<and> c_trace c = [] \<and> buffer_data (c_queue c) = []"
proof -
  from assms obtain As c0 config host port protocol where
    i: "tcpclient_init As c0 config host port protocol = Some (0, c)" "c_trace c0 = []"
      "malloc (As 3) INITIAL_BUFFER_SIZE \<noteq> None"
    by (auto simp: fresh_client_def)
  obtain rc q' where q': "buffer_newsize (As 4) (snd (buffer_init (As 3) (c_queue c0))) DEFAULT_BUFFER_SIZE =
      Some (rc, q')" "buffer_wf q'" "buffer_data q' = []" "0 < b_size q'"
    using tcpclient_init_queue [OF i(3)] by blast
  from i(1,2) q' show ?thesis
    by (auto simp: tcpclient_init_def client_inv_def idle_def Let_def split: option.splits if_splits)
qed

lemma client_step_conserves: "client_step s t \<Longrightarrow> conserving s \<Longrightarrow> conserving t"
proof (induction rule: client_step.induct)
  case (step_sendall A env c buf len rc c' acc)
  then show ?case
    using tcpclient_sendall_inv [of c len buf A env rc c'] by (simp add: conserving_def)
next
  case (step_write c sent ev_write now c' acc)
  then have "client_inv c" by (simp add: conserving_def)
  from tcpclient_write_event_inv [of c sent ev_write now, OF this step_write(1,2)] step_write(3,4)
  show ?case by (simp add: conserving_def)
qed (auto simp: conserving_def frame_simps
      intro: tcpclient_connect_inv tcpclient_connected_inv tcpclient_connect_timeout_inv
        tcpclient_read_event_inv)

interpretation client_run: invariant_system "\<lambda>s. fresh_client (fst s) \<and> snd s = []" client_step conserving
proof unfold_locales
  fix s :: "tcpclient \<times> bytes" assume "fresh_client (fst s) \<and> snd s = []"
  then show "conserving s" using fresh_client_start [of "fst s"] by (cases s) (simp add: conserving_def)
next
  fix s t assume "conserving s" "client_step s t"
  then show "conserving t" by (blast intro: client_step_conserves)
qed

section \<open>A run\<close>

definition good_env :: connect_env where
  "good_env = \<lparr>e_now = 100, e_now_err = 100,
     e_addr = Some \<lparr>ai_family = AF_INET, ai_socktype = SOCK_STREAM, ai_protocol = IPPROTO_TCP\<rparr>,
     e_sock = 7, e_fcntl_ok = True, e_connect = Conn_in_progress\<rparr>"

definition example_config :: proto_config where
  "example_config = \<lparr>initialized = True, pc_bind = None, enable_validation = True, enable_tcp_cork = True,
     always_resolve_dns = False, max_send_queue = 1000, pc_ring = None\<rparr>"

text \<open>With memory granted, initialisation succeeds.\<close>

lemma tcpclient_init_succeeds:
  assumes "length h < 2 ^ 62" "length p < 2 ^ 62" "length pr < 2 ^ 62" "c_trace c0 = []"
  shows "\<exists>c. tcpclient_init (\<lambda>_ _. Some []) c0 config (Some h) (Some p) (Some pr) = Some (0, c) \<and>
    fresh_client c \<and> c_config c = config \<and> c_addr c = None"
proof -
  let ?As = "\<lambda>_::nat. (\<lambda>_. Some []) :: allocator"
  have m: "malloc (?As 3) INITIAL_BUFFER_SIZE \<noteq> None" by (simp add: INITIAL_BUFFER_SIZE_def)
  obtain rc q' where q': "buffer_newsize (?As 4) (snd (buffer_init (?As 3) (c_queue c0))) DEFAULT_BUFFER_SIZE =
      Some (rc, q')"
    using tcpclient_init_queue [OF m] by blast
  have "\<exists>c. tcpclient_init ?As c0 config (Some h) (Some p) (Some pr) = Some (0, c) \<and> c_config c = config \<and>
      c_addr c = None"
    using q' assms by (simp add: tcpclient_init_def Let_def)
  then obtain c where c: "tcpclient_init ?As c0 config (Some h) (Some p) (Some pr) = Some (0, c)"
      "c_config c = config" "c_addr c = None"
    by blast
  moreover from c(1) m assms(4) have "fresh_client c" unfolding fresh_client_def by blast
  ultimately show ?thesis by blast
qed

definition example_memory :: tcpclient where
  "example_memory = \<lparr>c_state = STATE_INIT, c_sd = 0, c_addr = None, c_last_error = 0, c_failing = 0,
     c_config = example_config, c_socktype = 0, c_host = [], c_port = [], c_protocol = [], c_name = [],
     c_queue = unset_buffer, callback_sent = Default_callback, connect_started = False,
     read_started = False, write_started = False, c_trace = []\<rparr>"

lemma fresh_client_exists:
  "\<exists>c. fresh_client c \<and> c_config c = example_config \<and> c_addr c = None"
  using tcpclient_init_succeeds [of "''h''" "''1''" "''tcp''" example_memory example_config]
  by (auto simp: example_memory_def)

text \<open>A fresh client that connects.\<close>

lemma fresh_client_connects:
  assumes "fresh_client c" "c_addr c = None"
  shows "tcpclient_connect good_env c = (0, snd (tcpclient_connect good_env c))"
    and "c_state (snd (tcpclient_connect good_env c)) = STATE_CONNECTING"
    and "c_sd (snd (tcpclient_connect good_env c)) = 7"
    and "c_addr (snd (tcpclient_connect good_env c)) \<noteq> None"
    and "watch_fd (c_trace (snd (tcpclient_connect good_env c))) ConnectW = Some 7"
    and "watch_fd (c_trace (snd (tcpclient_connect good_env c))) TimeoutW = Some 0"
  using assms fresh_client_start [OF assms(1)]
  by (simp_all add: tcpclient_connect_def connect_from_init_def connect_socket_def good_env_def Let_def)

text \<open>On a client with an address, room below the limit and memory, \<open>tcpclient_sendall\<close> accepts.\<close>

lemma sendall_accepts:
  assumes "client_inv c" "c_addr c \<noteq> None"
    and "length (buffer_data (c_queue c)) < unat (max_send_queue (c_config c))"
    and "length (buffer_data (c_queue c)) + length buf < 2 ^ 62"
  shows "\<exists>c'. tcpclient_sendall (\<lambda>_. Some []) env c buf (length buf) = Some (0, c') \<and>
    c_state c' = c_state (snd (tcpclient_connect env c)) \<and> c_config c' = c_config c"
proof -
  obtain rc q' where r: "tcpclient_sendall (\<lambda>_. Some []) env c buf (length buf) = Some (rc, after_send env c rc q')"
      "rc = 1 \<longleftrightarrow> c_addr c = None"
      "rc = 2 \<longleftrightarrow> c_addr c \<noteq> None \<and> unat (max_send_queue (c_config c)) \<le> length (buffer_data (c_queue c))"
      "rc \<in> {0, 1, 2, 4}"
      "rc = 4 \<longrightarrow> (\<exists>n < 2 * (length (buffer_data (c_queue c)) + length buf). malloc (\<lambda>_. Some []) n = None)"
    using tcpclient_sendall_cases [of c "length buf" buf "\<lambda>_. Some []" env] client_inv_queue [OF assms(1)]
    by (metis order_refl)
  have "rc \<noteq> 4"
  proof
    assume "rc = 4"
    with r(5) obtain n where "n < 2 * (length (buffer_data (c_queue c)) + length buf)" "\<not> n < 2 ^ 63"
      by auto
    with assms(4) show False by simp
  qed
  moreover have "rc \<noteq> 1" "rc \<noteq> 2" using r(2,3) assms(2,3) by auto
  ultimately have "rc = 0" using r(4) by blast
  with r(1) show ?thesis by (simp add: after_send_def Let_def frame_simps)
qed

lemma example_run:
  "\<exists>c c'. fresh_client c \<and> client_step\<^sup>*\<^sup>* (c, []) (c', ''ab'') \<and> c_state c' = STATE_CONNECTED \<and>
     c_addr c' \<noteq> None \<and> c_config c' = example_config \<and> buffer_data (c_queue c') = ''b''"
proof -
  obtain c where c: "fresh_client c" "c_config c = example_config" "c_addr c = None"
    using fresh_client_exists by blast
  define c1 where "c1 = snd (tcpclient_connect good_env c)"
  define c2 where "c2 = tcpclient_connected True False 100 c1"
  have c1: "c_state c1 = STATE_CONNECTING" "c_addr c1 \<noteq> None" "watch_fd (c_trace c1) ConnectW \<noteq> None"
    using fresh_client_connects [OF c(1,3)] by (auto simp: c1_def)
  have q1: "buffer_data (c_queue c1) = []" "c_config c1 = example_config"
    using fresh_client_start [OF c(1)] c(2) by (auto simp: c1_def frame_simps)
  have c2: "c_state c2 = STATE_CONNECTED" "c_addr c2 \<noteq> None" "buffer_data (c_queue c2) = []"
      "c_config c2 = example_config"
    using c1 q1 by (auto simp: c2_def tcpclient_connected_def Let_def)
  have s12: "client_step\<^sup>*\<^sup>* (c, []) (c2, [])"
    using step_connect [of c "[]" good_env] step_connected [OF c1(3), of "[]" True False 100]
    unfolding c2_def c1_def by (meson converse_rtranclp_into_rtranclp rtranclp.rtrancl_refl)
  then have inv2: "client_inv c2"
    using client_run.reachable_inv [of "(c, [])" "(c2, [])"] c(1) by (simp add: conserving_def)
  have "tcpclient_connect good_env c2 = (1, c2)" using c2 by (simp add: tcpclient_connect_def)
  then obtain c3 where c3: "tcpclient_sendall (\<lambda>_. Some []) good_env c2 ''ab'' (length ''ab'') = Some (0, c3)"
      "c_state c3 = STATE_CONNECTED" "c_config c3 = example_config"
    using sendall_accepts [OF inv2 c2(2), of "''ab''" good_env] c2(1,3,4)
    by (auto simp: example_config_def)
  have inv3: "client_inv c3" and q3: "buffer_data (c_queue c3) = ''ab''"
    using tcpclient_sendall_inv [OF inv2 _ c3(1)] c2(3) by auto
  have w3: "watch_fd (c_trace c3) WriteW \<noteq> None" and a3: "c_addr c3 \<noteq> None"
    using inv3 c3(2) q3 by (auto simp: client_inv_def connected_def)
  have n: "1 \<le> length (buffer_data (c_queue c3))" "buffer_data (c_queue c3) \<noteq> []" using q3 by simp_all
  from write_event_sent [OF _ n(2,1), of 100] client_inv_queue [OF inv3]
  obtain c4 where c4: "tcpclient_write_event True (Some 1) 100 c3 = Some c4" "c_state c4 = c_state c3"
      "c_addr c4 = c_addr c3" "c_config c4 = c_config c3"
      "c_queue c4 = (c_queue c3)\<lparr>b_head := b_head (c_queue c3) + 1\<rparr>"
    by blast
  have q4: "buffer_data (c_queue c4) = ''b''"
    using buffer_advance_wf(2) [OF _ n(1)] client_inv_queue [OF inv3] c4(5) q3 by simp
  have s3: "client_step (c2, []) (c3, ''ab'')"
    using step_sendall [OF c3(1), of "[]"] by simp
  have s4: "client_step (c3, ''ab'') (c4, ''ab'')"
    using step_write [OF w3 _ c4(1), of "''ab''"] n by simp
  have "client_step\<^sup>*\<^sup>* (c, []) (c4, ''ab'')"
    using s12 s3 s4 by (meson rtranclp.rtrancl_into_rtrancl)
  then show ?thesis
    using c(1) c3(2,3) c4(2-4) a3 q4 by (intro exI [of _ c] exI [of _ c4]) simp
qed

section \<open>Properties\<close>

lemma run_inv:
  assumes "fresh_client c" "client_step\<^sup>*\<^sup>* (c, []) (c', accepted)"
  shows "client_inv c'" and "accepted = sent_bytes (c_trace c') @ buffer_data (c_queue c')"
  using client_run.reachable_inv [of "(c, [])" "(c', accepted)"] assms by (auto simp: conserving_def)

text \<open>C5: whatever the order of connects, sends, timeouts, disconnections, write events and
  reconnects, the bytes a client accepted are exactly the bytes it gave to the network, in order,
  followed by the bytes in its send queue.\<close>

theorem tcpclient_delivers_in_order:
  assumes "fresh_client c" "client_step\<^sup>*\<^sup>* (c, []) (c', accepted)"
  shows "accepted = sent_bytes (c_trace c') @ buffer_data (c_queue c')"
  using assms by (rule run_inv(2))

theorem tcpclient_delivers_in_order_witness:
  "\<exists>c c'. fresh_client c \<and> client_step\<^sup>*\<^sup>* (c, []) (c', ''ab'') \<and>
     sent_bytes (c_trace c') = ''a'' \<and> buffer_data (c_queue c') = ''b''"
proof -
  from example_run obtain c c' where r: "fresh_client c" "client_step\<^sup>*\<^sup>* (c, []) (c', ''ab'')"
      "buffer_data (c_queue c') = ''b''"
    by blast
  from tcpclient_delivers_in_order [OF r(1,2)] r(3) have "sent_bytes (c_trace c') = ''a''"
    by (auto simp: append_eq_Cons_conv)
  with r show ?thesis by blast
qed

text \<open>C15: a client never closes a descriptor that is not open and never leaks one: it holds
  exactly its current socket while it is connecting or connected and none otherwise. Nor does it
  keep or release twice a buffer for received data.\<close>

theorem tcpclient_owns_one_socket:
  assumes "fresh_client c" "client_step\<^sup>*\<^sup>* (c, []) (c', accepted)"
  shows "closes_ok (c_trace c') \<and> frees_ok (c_trace c') \<and> recv_buffers (c_trace c') = 0 \<and> c_state c' \<noteq> STATE_TERMINATED \<and>
    open_fds (c_trace c') =
      (if c_state c' = STATE_CONNECTING \<or> c_state c' = STATE_CONNECTED then {c_sd c'} else {})"
  using run_inv(1) [OF assms] by (auto simp: client_inv_def phase_defs split: tcpclient_state.splits)

theorem tcpclient_owns_one_socket_witness:
  "\<exists>c c'. fresh_client c \<and> client_step\<^sup>*\<^sup>* (c, []) (c', ''ab'') \<and> closes_ok (c_trace c') \<and>
     open_fds (c_trace c') = {c_sd c'}"
proof -
  from example_run obtain c c' where r: "fresh_client c" "client_step\<^sup>*\<^sup>* (c, []) (c', ''ab'')"
      "c_state c' = STATE_CONNECTED"
    by blast
  from tcpclient_owns_one_socket [OF r(1,2)] r show ?thesis by auto
qed

text \<open>C16: no lost wakeup: a connected client waits for reads on its socket, and while its queue
  holds data it also waits for the socket to become writable; a handler is never left active on
  another descriptor.\<close>

theorem tcpclient_no_lost_wakeup:
  assumes "fresh_client c" "client_step\<^sup>*\<^sup>* (c, []) (c', accepted)"
  shows "(c_state c' = STATE_CONNECTED \<longrightarrow>
      watch_fd (c_trace c') ReadW = Some (c_sd c') \<and>
      (buffer_data (c_queue c') \<noteq> [] \<longrightarrow> watch_fd (c_trace c') WriteW = Some (c_sd c'))) \<and>
    (\<forall>w fd. watch_fd (c_trace c') w = Some fd \<longrightarrow> w = TimeoutW \<or> fd \<in> open_fds (c_trace c'))"
  using run_inv(1) [OF assms]
  by (auto simp: client_inv_def phase_defs all_watchers split: tcpclient_state.splits)

theorem tcpclient_no_lost_wakeup_witness:
  "\<exists>c c'. fresh_client c \<and> client_step\<^sup>*\<^sup>* (c, []) (c', ''ab'') \<and>
     watch_fd (c_trace c') ReadW = Some (c_sd c') \<and> watch_fd (c_trace c') WriteW = Some (c_sd c')"
proof -
  from example_run obtain c c' where r: "fresh_client c" "client_step\<^sup>*\<^sup>* (c, []) (c', ''ab'')"
      "c_state c' = STATE_CONNECTED" "buffer_data (c_queue c') = ''b''"
    by blast
  from tcpclient_no_lost_wakeup [OF r(1,2)] r show ?thesis by auto
qed

text \<open>C13: \<open>tcpclient_sendall\<close> always returns, without undefined behaviour. It refuses with 1 exactly
  when the address was never resolved and with 2 exactly when the queue has reached
  \<open>max_send_queue\<close>; it returns 4 only when the allocator refused less than twice the space needed,
  and never 3. On 0 the data is at the end of the queue, otherwise the queue is unchanged.\<close>

theorem tcpclient_sendall_correct:
  assumes "client_inv c" "len \<le> length buf"
  shows "\<exists>rc c'. tcpclient_sendall A env c buf len = Some (rc, c') \<and> client_inv c' \<and> rc \<in> {0, 1, 2, 4} \<and>
    (rc = 1 \<longleftrightarrow> c_addr c = None) \<and>
    (rc = 2 \<longleftrightarrow> c_addr c \<noteq> None \<and> unat (max_send_queue (c_config c)) \<le> length (buffer_data (c_queue c))) \<and>
    (rc = 4 \<longrightarrow> (\<exists>n < 2 * (length (buffer_data (c_queue c)) + len). malloc A n = None)) \<and>
    buffer_data (c_queue c') = buffer_data (c_queue c) @ (if rc = 0 then take len buf else [])"
proof -
  from tcpclient_sendall_cases [OF _ _ assms(2), of c A env] client_inv_queue [OF assms(1)]
  obtain rc q' where r: "tcpclient_sendall A env c buf len = Some (rc, after_send env c rc q')"
      "rc = 1 \<longleftrightarrow> c_addr c = None" "rc \<in> {0, 1, 2, 4}"
      "rc = 2 \<longleftrightarrow> c_addr c \<noteq> None \<and> unat (max_send_queue (c_config c)) \<le> length (buffer_data (c_queue c))"
      "rc = 4 \<longrightarrow> (\<exists>n < 2 * (length (buffer_data (c_queue c)) + len). malloc A n = None)"
    by metis
  with tcpclient_sendall_inv [OF assms r(1)] show ?thesis by metis
qed

theorem tcpclient_sendall_correct_witness:
  "\<exists>c c'. client_inv c \<and> buffer_data (c_queue c) = ''b'' \<and>
     tcpclient_sendall (\<lambda>_. Some []) good_env c ''cd'' 2 = Some (0, c') \<and>
     buffer_data (c_queue c') = ''bcd''"
proof -
  from example_run obtain c0 c where r: "fresh_client c0" "client_step\<^sup>*\<^sup>* (c0, []) (c, ''ab'')"
      "buffer_data (c_queue c) = ''b''" "c_addr c \<noteq> None" "c_config c = example_config"
    by blast
  from run_inv(1) [OF r(1,2)] have inv: "client_inv c" .
  have l: "2 \<le> length ''cd''" by simp
  have m: "\<not> (\<exists>n < 2 * (length (buffer_data (c_queue c)) + 2). malloc (\<lambda>_. Some []) n = None)"
    using r(3) by simp
  obtain rc c' where s: "tcpclient_sendall (\<lambda>_. Some []) good_env c ''cd'' 2 = Some (rc, c')" "rc \<in> {0, 1, 2, 4}"
      "rc = 1 \<longleftrightarrow> c_addr c = None"
      "rc = 2 \<longleftrightarrow> c_addr c \<noteq> None \<and> unat (max_send_queue (c_config c)) \<le> length (buffer_data (c_queue c))"
      "rc = 4 \<longrightarrow> (\<exists>n < 2 * (length (buffer_data (c_queue c)) + 2). malloc (\<lambda>_. Some []) n = None)"
      "buffer_data (c_queue c') = buffer_data (c_queue c) @ (if rc = 0 then take 2 ''cd'' else [])"
    using tcpclient_sendall_correct [OF inv l, of "\<lambda>_. Some []" good_env] by metis
  have "rc = 0" using s(2-5) m r(3-5) by (auto simp: example_config_def)
  then show ?thesis using s(1,6) inv r(3) by (intro exI [of _ c] exI [of _ c']) simp
qed

text \<open>When a write event on a live connection sends \<open>n\<close> bytes, they are the first \<open>n\<close> bytes of
  the queue, exactly those are removed, the owner is told about exactly those, and the handler
  stops waiting for writability exactly when the queue is empty.\<close>

lemma tcpclient_write_event_sends_prefix:
  assumes "client_inv c" "buffer_data (c_queue c) = front @ rest" "front @ rest \<noteq> []"
  shows "\<exists>c'. tcpclient_write_event True (Some (length front)) now c = Some c' \<and>
    buffer_data (c_queue c') = rest \<and>
    c_trace c' = (if rest = [] then [IoStop WriteW] else []) @
      [Callback EVENT_SENT front, SendCall front] @ c_trace c"
proof -
  have wf: "buffer_wf (c_queue c)" using assms(1) by (simp add: client_inv_def)
  have n: "length front \<le> length (buffer_data (c_queue c))" "buffer_data (c_queue c) \<noteq> []"
    using assms(2,3) by simp_all
  from write_event_sent [OF wf n(2,1), of now] buffer_advance_wf(2) [OF wf n(1)] assms(2)
  show ?thesis by force
qed

text \<open>The result codes of a connection attempt.\<close>

lemma connect_socket_outcome:
  "connect_socket env addr c = (rc, c') \<Longrightarrow>
     (rc = 0 \<and> c_state c' = STATE_CONNECTING \<and> c_addr c' = c_addr c) \<or>
     (rc \<in> {4, 5, 6} \<and> c_state c' = STATE_BACKOFF \<and> c_last_error c' = e_now_err env)"
  by (auto simp: connect_socket_def Let_def backoff_def emit_def tcpclient_set_state_def
      split: if_splits connect_result.splits)

lemma connect_from_init_outcome:
  "connect_from_init env c = (rc, c') \<Longrightarrow>
     (rc = 0 \<and> c_state c' = STATE_CONNECTING \<and> c_addr c' \<noteq> None) \<or>
     (rc \<in> {3, 4, 5, 6} \<and> c_state c' = STATE_BACKOFF \<and> c_last_error c' = e_now_err env)"
  unfolding connect_from_init_def Let_def
  by (auto split: option.splits if_splits dest!: connect_socket_outcome
      simp: backoff_def emit_def tcpclient_set_state_def)



text \<open>A client that waits for a connection without any active watcher.\<close>

definition stuck :: "tcpclient \<Rightarrow> bool" where
  "stuck c \<longleftrightarrow> c_state c = STATE_CONNECTING \<and> (\<forall>w. watch_fd (c_trace c) w = None)"

lemma stuck_step: "client_step s t \<Longrightarrow> stuck (fst s) \<Longrightarrow> client_inv (fst s) \<Longrightarrow>
   stuck (fst t) \<and> client_inv (fst t) \<and> c_trace (fst t) = c_trace (fst s)"
proof (induction rule: client_step.induct)
  case (step_sendall A env c buf len rc c' acc)
  then have inv: "client_inv c" and st: "stuck c" by simp_all
  from st have conn: "snd (tcpclient_connect env c) = c" by (simp add: stuck_def tcpclient_connect_def)
  obtain q' where "c' = after_send env c rc q'"
    using tcpclient_sendall_cases [of c len buf A env] client_inv_queue [OF inv] step_sendall by auto
  with st conn tcpclient_sendall_inv [OF inv step_sendall(2,1)] show ?case
    by (auto simp: after_send_def stuck_def Let_def)
qed (auto simp: stuck_def tcpclient_connect_def)

lemma stuck_forever:
  assumes "client_step\<^sup>*\<^sup>* s t" "stuck (fst s)" "client_inv (fst s)"
  shows "stuck (fst t) \<and> client_inv (fst t) \<and> c_trace (fst t) = c_trace (fst s)"
  using assms by (induction rule: rtranclp_induct) (auto dest: stuck_step)

lemma getsockopt_failure_stuck:
  assumes "client_inv c" "watch_fd (c_trace c) ConnectW \<noteq> None"
  shows "stuck (tcpclient_connected False err now c)"
  using assms watched_state(1) [OF assms]
  by (auto simp: stuck_def tcpclient_connected_def client_inv_def connecting_def Let_def all_watchers)

text \<open>C33: a client whose \<open>getsockopt\<close> call failed in the connect handler stays in
  \<open>STATE_CONNECTING\<close> with no active watcher for the rest of its life: no later call or event makes
  it connect again, and no byte is ever sent.\<close>

theorem tcpclient_getsockopt_failure_is_final:
  assumes "client_inv c" "watch_fd (c_trace c) ConnectW \<noteq> None"
    and "client_step\<^sup>*\<^sup>* (tcpclient_connected False err now c, acc) (c', acc')"
  shows "c_state c' = STATE_CONNECTING \<and> (\<forall>w. watch_fd (c_trace c') w = None) \<and>
    sent_bytes (c_trace c') = sent_bytes (c_trace c)"
  using stuck_forever [OF assms(3)] getsockopt_failure_stuck [OF assms(1,2), of err now]
    tcpclient_connected_inv [OF assms(1,2), of False err now]
  by (simp add: stuck_def frame_simps)

theorem tcpclient_getsockopt_failure_is_final_witness:
  "\<exists>c c'. client_inv c \<and> client_step (tcpclient_connected False False 100 c, []) (c', []) \<and>
     c_state c' = STATE_CONNECTING \<and> watch_fd (c_trace c') TimeoutW = None"
proof -
  obtain c0 where c0: "fresh_client c0" "c_config c0 = example_config" "c_addr c0 = None"
    using fresh_client_exists by blast
  let ?c = "snd (tcpclient_connect good_env c0)"
  have inv: "client_inv ?c" using fresh_client_start [OF c0(1)] by (blast intro: tcpclient_connect_inv)
  have w: "watch_fd (c_trace ?c) ConnectW \<noteq> None" using fresh_client_connects(5) [OF c0(1,3)] by simp
  note st = step_connect [of "tcpclient_connected False False 100 ?c" "[]" good_env]
  from st have "client_step\<^sup>*\<^sup>* (tcpclient_connected False False 100 ?c, [])
      (snd (tcpclient_connect good_env (tcpclient_connected False False 100 ?c)), [])"
    by (rule r_into_rtranclp)
  from tcpclient_getsockopt_failure_is_final [OF inv w this] inv st show ?thesis by blast
qed

text \<open>C32: \<open>tcpclient_destroy\<close> returns and leaves no open descriptor and no active watcher; its
  \<open>close\<close> is of an open descriptor exactly when the client is connecting or connected. In the
  other states it closes a descriptor number that is already closed (or was never opened).\<close>

theorem tcpclient_destroy_releases:
  assumes "client_inv c"
  shows "\<exists>c'. tcpclient_destroy c = Some c' \<and> open_fds (c_trace c') = {} \<and>
    (\<forall>w. watch_fd (c_trace c') w = None) \<and> b_ptr (c_queue c') = Freed \<and>
    (closes_ok (c_trace c') \<longleftrightarrow> c_state c = STATE_CONNECTING \<or> c_state c = STATE_CONNECTED)"
proof -
  from client_inv_queue [OF assms] buffer_destroy_wf obtain q where
    "buffer_destroy (c_queue c) = Some q" "b_ptr q = Freed"
    by blast
  with assms show ?thesis
    by (cases "c_state c") (auto simp: tcpclient_destroy_def client_inv_def phase_defs all_watchers Let_def)
qed

theorem tcpclient_destroy_releases_witness:
  "\<exists>c c'. client_inv c \<and> c_state c = STATE_INIT \<and> tcpclient_destroy c = Some c' \<and> \<not> closes_ok (c_trace c')"
proof -
  obtain c where "fresh_client c" using fresh_client_exists by blast
  from fresh_client_start [OF this] have c: "client_inv c" "c_state c = STATE_INIT" by simp_all
  from tcpclient_destroy_releases [OF c(1)] c show ?thesis by auto
qed

end
