(* ===== verification/Delivery.thy ===== *)
theory Delivery
  imports Tcpclient
begin

text \<open>
  Progress of the outbound connection of \<open>src/src/tcpclient.c\<close>: while the network takes at least a byte
  each time the socket is writable, the write handler empties the send queue and then stops waiting;
  and a client that lost its connection reconnects with the next line once the backoff is over, so
  that everything that was queued during the outage is sent, before the new line.
\<close>

section \<open>Emptying the queue\<close>

text \<open>
  The event loop calls the write handler as long as its watcher is active. The list has the number of
  bytes \<open>send\<close> takes each time, if there are as many.
\<close>

fun write_events :: "int \<Rightarrow> nat list \<Rightarrow> tcpclient \<Rightarrow> tcpclient option" where
  "write_events now [] c = Some c"
| "write_events now (n # ns) c =
     (if watch_fd (c_trace c) WriteW = None then Some c
      else do {
        c' \<leftarrow> tcpclient_write_event True (Some (min n (length (buffer_data (c_queue c))))) now c;
        write_events now ns c'
      })"

lemma write_events_idle: "watch_fd (c_trace c) WriteW = None \<Longrightarrow> write_events now ns c = Some c"
  by (cases ns) simp_all

text \<open>One call of the handler on a connected client.\<close>

lemma write_event_progress:
  assumes inv: "client_inv c" "c_state c = STATE_CONNECTED" and w: "watch_fd (c_trace c) WriteW \<noteq> None"
    and n: "0 < n"
  shows "\<exists>c'. tcpclient_write_event True (Some (min n (length (buffer_data (c_queue c))))) now c = Some c' \<and>
    client_inv c' \<and> c_state c' = STATE_CONNECTED \<and> buffer_data (c_queue c') = drop n (buffer_data (c_queue c)) \<and>
    sent_bytes (c_trace c') = sent_bytes (c_trace c) @ take n (buffer_data (c_queue c)) \<and>
    (drop n (buffer_data (c_queue c)) = [] \<longrightarrow> watch_fd (c_trace c') WriteW = None)"
proof -
  let ?d = "buffer_data (c_queue c)"
  let ?m = "min n (length ?d)"
  have wf: "buffer_wf (c_queue c)" using inv(1) by (simp add: client_inv_def)
  obtain c' where c': "tcpclient_write_event True (Some ?m) now c = Some c'" "client_inv c'"
    using tcpclient_write_event_inv [OF inv(1) w, of "Some ?m" True now] by auto
  show ?thesis
  proof (cases "?d = []")
    case True
    with c' inv(2) write_event_empty [OF wf True, of "Some ?m" now] show ?thesis by auto
  next
    case False
    from write_event_sent [OF wf False, of ?m now] c'(1) have
      s: "c_queue c' = (c_queue c)\<lparr>b_head := b_head (c_queue c) + ?m\<rparr>" "c_state c' = c_state c"
        "c_trace c' = (if ?m = length ?d then [IoStop WriteW] else []) @
          [Callback EVENT_SENT (take ?m ?d), SendCall (take ?m ?d)] @ c_trace c"
      by auto
    have "take ?m ?d = take n ?d" "drop ?m ?d = drop n ?d" by (simp_all add: min_def)
    with c' s inv(2) buffer_advance_wf(2) [OF wf, of ?m] show ?thesis by auto
  qed
qed

lemma write_events_drain:
  "client_inv c \<Longrightarrow> c_state c = STATE_CONNECTED \<Longrightarrow> \<forall>n \<in> set ns. 0 < n \<Longrightarrow> ns \<noteq> [] \<Longrightarrow>
   length (buffer_data (c_queue c)) \<le> length ns \<Longrightarrow>
   \<exists>c'. write_events now ns c = Some c' \<and> client_inv c' \<and> c_state c' = STATE_CONNECTED \<and>
     buffer_data (c_queue c') = [] \<and> sent_bytes (c_trace c') = sent_bytes (c_trace c) @ buffer_data (c_queue c) \<and>
     watch_fd (c_trace c') WriteW = None"
proof (induction ns arbitrary: c)
  case (Cons n ns)
  show ?case
  proof (cases "watch_fd (c_trace c) WriteW = None")
    case True
    with Cons.prems(1,2) show ?thesis by (auto simp: client_inv_def connected_def)
  next
    case False
    let ?d = "buffer_data (c_queue c)"
    have n: "0 < n" "\<forall>n \<in> set ns. 0 < n" using Cons.prems(3) by simp_all
    obtain c1 where c1: "tcpclient_write_event True (Some (min n (length ?d))) now c = Some c1" "client_inv c1"
        "c_state c1 = STATE_CONNECTED" "buffer_data (c_queue c1) = drop n ?d"
        "sent_bytes (c_trace c1) = sent_bytes (c_trace c) @ take n ?d"
        "drop n ?d = [] \<longrightarrow> watch_fd (c_trace c1) WriteW = None"
      using write_event_progress [OF Cons.prems(1,2) False n(1), of now] by blast
    have step: "write_events now (n # ns) c = write_events now ns c1" using False c1(1) by auto
    show ?thesis
    proof (cases "drop n ?d = []")
      case True
      moreover have "take n ?d = ?d" using True by simp
      ultimately show ?thesis using c1 step write_events_idle [of c1 now ns] by simp
    next
      case False
      then have "ns \<noteq> []" "length (buffer_data (c_queue c1)) \<le> length ns"
        using c1(4) n(1) Cons.prems(5) by (cases ns; simp)+
      from Cons.IH [OF c1(2,3) n(2) this] c1(4,5) step show ?thesis
        by (metis append.assoc append_take_drop_id)
    qed
  qed
qed simp

section \<open>Recovering from an outage\<close>

text \<open>The backoff is over, and the system can make a connection.\<close>

definition can_reconnect :: "connect_env \<Rightarrow> tcpclient \<Rightarrow> bool" where
  "can_reconnect env c \<longleftrightarrow>
     e_now env - c_last_error c > TCPCLIENT_RETRY_TIMEOUT \<and> 0 \<le> e_sock env \<and> e_fcntl_ok env \<and>
     e_connect env \<noteq> Conn_error \<and> (always_resolve_dns (c_config c) \<longrightarrow> e_addr env \<noteq> None)"

lemma connect_socket_watches:
  assumes "0 \<le> e_sock env" "e_fcntl_ok env" "e_connect env \<noteq> Conn_error"
  shows "c_state (snd (connect_socket env addr c)) = STATE_CONNECTING \<and>
    watch_fd (c_trace (snd (connect_socket env addr c))) ConnectW \<noteq> None"
  using assms by (auto simp: connect_socket_def Let_def split: connect_result.split)

lemma backoff_ends:
  assumes "c_state c = STATE_BACKOFF" "c_addr c \<noteq> None" "can_reconnect env c"
  shows "c_state (snd (tcpclient_connect env c)) = STATE_CONNECTING \<and>
    watch_fd (c_trace (snd (tcpclient_connect env c))) ConnectW \<noteq> None"
proof -
  have "tcpclient_connect env c = connect_from_init env (tcpclient_set_state c STATE_INIT)"
    using assms(1,3) by (simp add: tcpclient_connect_def can_reconnect_def)
  moreover have sys: "0 \<le> e_sock env" "e_fcntl_ok env" "e_connect env \<noteq> Conn_error"
    using assms(3) by (simp_all add: can_reconnect_def)
  ultimately show ?thesis using assms(2,3) connect_socket_watches [OF sys]
    by (cases "always_resolve_dns (c_config c)") (auto simp: connect_from_init_def can_reconnect_def Let_def)
qed

text \<open>C17: a client that lost its connection recovers with the next line after the backoff: the line is
  queued and a connection is started; once it is established, the write handler, called as long as
  its watcher is active and the network takes a byte each time, sends all that was queued during
  the outage and then the line, and stops waiting.\<close>

theorem tcpclient_recovers:
  assumes "client_inv c" "c_state c = STATE_BACKOFF" "c_addr c \<noteq> None" "can_reconnect env c"
    and "length (buffer_data (c_queue c)) < unat (max_send_queue (c_config c))"
    and "len \<le> length buf" "\<forall>n < 2 * (length (buffer_data (c_queue c)) + len). malloc A n \<noteq> None"
    and "\<forall>n \<in> set ns. 0 < n" "ns \<noteq> []" "length (buffer_data (c_queue c)) + len \<le> length ns"
  shows "\<exists>c1 c2. tcpclient_sendall A env c buf len = Some (0, c1) \<and> watch_fd (c_trace c1) ConnectW \<noteq> None \<and>
    write_events now ns (tcpclient_connected True False now c1) = Some c2 \<and> c_state c2 = STATE_CONNECTED \<and>
    buffer_data (c_queue c2) = [] \<and> watch_fd (c_trace c2) WriteW = None \<and>
    sent_bytes (c_trace c2) = sent_bytes (c_trace c) @ buffer_data (c_queue c) @ take len buf"
proof -
  note start = backoff_ends [OF assms(2-4)]
  have wf: "buffer_wf (c_queue c)" "0 < b_size (c_queue c)" using client_inv_queue [OF assms(1)] by simp_all
  obtain rc q' where r: "tcpclient_sendall A env c buf len = Some (rc, after_send env c rc q')" "rc \<in> {0, 1, 2, 4}"
      "rc = 1 \<longleftrightarrow> c_addr c = None"
      "rc = 2 \<longleftrightarrow> c_addr c \<noteq> None \<and> unat (max_send_queue (c_config c)) \<le> length (buffer_data (c_queue c))"
      "rc = 4 \<longrightarrow> (\<exists>n < 2 * (length (buffer_data (c_queue c)) + len). malloc A n = None)"
    using tcpclient_sendall_cases [OF wf assms(6), of A env] by (elim exE conjE) (rule that)
  have rc: "rc = 0" using r(2-5) assms(3,5,7) by auto
  let ?c1 = "after_send env c 0 q'"
  have c1: "c_state ?c1 = STATE_CONNECTING" "watch_fd (c_trace ?c1) ConnectW \<noteq> None"
    using start by (simp_all add: after_send_def Let_def)
  have s1: "client_inv ?c1 \<and> sent_bytes (c_trace ?c1) = sent_bytes (c_trace c) \<and>
      buffer_data (c_queue ?c1) = buffer_data (c_queue c) @ take len buf"
    using tcpclient_sendall_inv [OF assms(1,6), of A env rc "after_send env c rc q'"] r(1) rc by simp
  let ?c2 = "tcpclient_connected True False now ?c1"
  have c2: "client_inv ?c2" "c_state ?c2 = STATE_CONNECTED"
    using tcpclient_connected_inv [of ?c1 True False now] s1 c1 by (auto simp: tcpclient_connected_def Let_def)
  have "length (buffer_data (c_queue ?c2)) \<le> length ns" using s1 assms(6,10) by (simp add: frame_simps)
  from write_events_drain [OF c2 assms(8,9) this, of now] r(1) rc c1 s1 show ?thesis by (auto simp: frame_simps)
qed

text \<open>A client whose connection broke while a byte was queued.\<close>

lemma example_outage:
  "\<exists>c. client_inv c \<and> c_state c = STATE_BACKOFF \<and> c_addr c \<noteq> None \<and> c_config c = example_config \<and>
     c_last_error c = 100 \<and> buffer_data (c_queue c) = ''b''"
proof -
  from example_run obtain c0 c where c: "fresh_client c0" "client_step\<^sup>*\<^sup>* (c0, []) (c, ''ab'')" "c_state c = STATE_CONNECTED"
      "c_addr c \<noteq> None" "c_config c = example_config" "buffer_data (c_queue c) = ''b''"
    by blast
  have inv: "client_inv c" using run_inv(1) [OF c(1,2)] .
  have w: "watch_fd (c_trace c) WriteW \<noteq> None" using inv c(3,6) by (auto simp: client_inv_def connected_def)
  let ?c = "backoff 100 [IoStop WriteW, IoStop ReadW, CloseCall (c_sd c), Callback EVENT_ERROR []] c"
  have "tcpclient_write_event True None 100 c = Some ?c"
    using client_inv_queue [OF inv] c(6) by (intro write_event_error) simp_all
  with tcpclient_write_event_inv [OF inv w, of None True 100] have "client_inv ?c" by simp
  moreover have "c_last_error ?c = 100" by (simp add: backoff_def emit_def tcpclient_set_state_def)
  ultimately show ?thesis using c by (intro exI [of _ ?c]) simp
qed

theorem tcpclient_recovers_witness:
  "\<exists>c c1 c2. c_state c = STATE_BACKOFF \<and> buffer_data (c_queue c) = ''b'' \<and>
     tcpclient_sendall (\<lambda>_. Some []) (good_env\<lparr>e_now := 102\<rparr>) c ''x'' 1 = Some (0, c1) \<and>
     write_events 103 [1, 5] (tcpclient_connected True False 103 c1) = Some c2 \<and>
     sent_bytes (c_trace c2) = sent_bytes (c_trace c) @ ''bx''"
proof -
  obtain c where c: "client_inv c" "c_state c = STATE_BACKOFF" "c_addr c \<noteq> None" and
    q: "c_config c = example_config" "c_last_error c = 100" "buffer_data (c_queue c) = ''b''"
    using example_outage by blast
  have "can_reconnect (good_env\<lparr>e_now := 102\<rparr>) c"
    using q by (simp add: can_reconnect_def good_env_def TCPCLIENT_RETRY_TIMEOUT_def)
  moreover have "length (buffer_data (c_queue c)) < unat (max_send_queue (c_config c))" using q by (simp add: example_config_def)
  ultimately show ?thesis
    using tcpclient_recovers [OF c, of "good_env\<lparr>e_now := 102\<rparr>" 1 "''x''" "\<lambda>_. Some []" "[1, 5]" 103] q c(2) by fastforce
qed

end
