(* ===== verification/Backends.thy ===== *)
theory Backends
  imports Hashring Tcpclient Protocol Validate
begin

text \<open>
  The first half of \<open>src/src/stats.c\<close>: the backends of a server, how they are made while the ring is
  loaded and released with it. Backends are heap objects that the ring and the backend list share
  by pointer: a pointer is a number, and the field \<open>s_backends\<close> is the part of the heap that holds
  them. The ghost counter \<open>s_calls\<close> numbers the calls of \<open>make_backend\<close>; it selects the
  environment's answers for the call and names the block the call allocates. The theory shows that
  the backends of a loaded ring are exactly the normalised lines of the configuration, with equal
  lines sharing one backend (interpretation \<open>mb\<close> of the ring's \<open>interning\<close> interface), and that
  destroying a server releases each backend once.
\<close>

section \<open>Backends and servers\<close>

record stats_backend =
  bk_client :: tcpclient
  bk_key :: bytes
  bytes_queued :: u64
  bytes_sent :: u64
  relayed_lines :: u64
  dropped_lines :: u64
  bk_failing :: int

text \<open>
  The server. \<open>ring_freed\<close> records that the ring has been released while the field still points to
  it; \<open>s_lines\<close> numbers the lines handled and \<open>s_replies\<close> collects the status replies sent, newest
  first; both are ghosts like \<open>s_calls\<close>.
\<close>

record stats_server =
  bytes_recv_udp :: u64
  bytes_recv_tcp :: u64
  total_connections :: u64
  malformed_lines :: u64
  last_reload :: int
  s_config :: proto_config
  backend_list :: "nat list"
  s_backends :: "nat \<Rightarrow> stats_backend option"
  s_ring :: "nat hashring option"
  ring_freed :: bool
  s_parser :: protocol_parser
  s_validator :: "line_validator_fn option"
  s_calls :: nat
  s_lines :: nat
  s_replies :: "(int \<times> bytes) list"

text \<open>\<open>stats_sent\<close>, the callback after bytes were sent.\<close>

definition stats_sent :: "stats_backend \<Rightarrow> nat \<Rightarrow> stats_backend" where
  "stats_sent backend len = backend\<lparr>bytes_sent := bytes_sent backend + of_nat len\<rparr>"

text \<open>\<open>add_backend\<close>; \<open>ok\<close> tells whether the list could be reallocated.\<close>

definition add_backend :: "bool \<Rightarrow> stats_server \<Rightarrow> nat \<Rightarrow> int \<times> stats_server" where
  "add_backend ok server backend =
     (if \<not> ok then (1, server)
      else (0, server\<lparr>backend_list := backend_list server @ [backend]\<rparr>))"

text \<open>\<open>find_backend\<close> from a position of the list on; a pointer to a released backend is undefined.\<close>

fun find_among :: "(nat \<Rightarrow> stats_backend option) \<Rightarrow> nat list \<Rightarrow> bytes \<Rightarrow> nat option option" where
  "find_among heap [] key = Some None"
| "find_among heap (p # ps) key =
     (case heap p of
        None \<Rightarrow> None
      | Some backend \<Rightarrow> if bk_key backend = key then Some (Some p) else find_among heap ps key)"

definition find_backend :: "stats_server \<Rightarrow> bytes \<Rightarrow> nat option option" where
  "find_backend server key = find_among (s_backends server) (backend_list server) key"

text \<open>
  The environment's answers to one call of \<open>make_backend\<close>: \<open>m_ok 0\<close> to \<open>m_ok 4\<close> tell whether memory
  for the host, the port, the protocol, the key and the backend was granted, \<open>m_ok 5\<close> whether the
  list could grow; \<open>m_client\<close> and \<open>m_connect\<close> are for the client, \<open>m_old\<close> is what the fresh memory
  held.
\<close>

record make_env =
  m_ok :: "nat \<Rightarrow> bool"
  m_client :: "nat \<Rightarrow> allocator"
  m_connect :: connect_env
  m_old :: tcpclient

text \<open>The fields of a line: host, port, protocol and the normalised key.\<close>

definition split_backend :: "bytes \<Rightarrow> (bytes \<times> bytes \<times> bytes \<times> bytes) option" where
  "split_backend host_and_port =
     (case cut_at (CHR '':'') host_and_port of
        None \<Rightarrow> None
      | Some (host, rest) \<Rightarrow>
          (case cut_at (CHR '':'') rest of
             None \<Rightarrow> Some (host, rest, ''tcp'', host_and_port @ '':'' @ ''tcp'')
           | Some (port, protocol) \<Rightarrow> Some (host, port, protocol, host_and_port)))"

definition make_backend :: "(nat \<Rightarrow> make_env) \<Rightarrow> (nat, stats_server) alloc_func" where
  "make_backend E host_and_port server0 =
     (let e = E (s_calls server0);
          server = server0\<lparr>s_calls := Suc (s_calls server0)\<rparr>
      in case split_backend host_and_port of
           None \<Rightarrow> Some (None, server)
         | Some (host, port, protocol, full_key) \<Rightarrow>
             if \<not> m_ok e 0 then Some (None, server)
             else if \<not> m_ok e 1 \<or> \<not> m_ok e 2 then Some (None, server)
             else if \<not> m_ok e 3 then Some (None, server)
             else do {
               found \<leftarrow> find_backend server full_key;
               case found of
                 Some backend \<Rightarrow> Some (Some backend, server)
               | None \<Rightarrow>
                   if \<not> m_ok e 4 then Some (None, server)
                   else do {
                     (rc, client) \<leftarrow> tcpclient_init (m_client e) (m_old e) (s_config server)
                                       (Some host) (Some port) (Some protocol);
                     if rc \<noteq> 0 then Some (None, server)
                     else
                       (let (rc2, client2) = tcpclient_connect (m_connect e) client in
                        if rc2 \<noteq> 0 then Some (None, server)
                        else
                          (let backend = \<lparr>bk_client = tcpclient_set_sent_callback client2 Client_callback,
                                          bk_key = full_key, bytes_queued = 0, bytes_sent = 0,
                                          relayed_lines = 0, dropped_lines = 0, bk_failing = 0\<rparr>;
                               p = s_calls server0;
                               server2 = server\<lparr>s_backends := (s_backends server)(p \<mapsto> backend)\<rparr>
                           in Some (Some p, snd (add_backend (m_ok e 5) server2 p))))
                   }
             })"

definition kill_backend :: "(nat, stats_server) dealloc_func" where
  "kill_backend p server =
     do {
       backend \<leftarrow> s_backends server p;
       _ \<leftarrow> tcpclient_destroy (bk_client backend);
       Some (server\<lparr>s_backends := (s_backends server)(p := None)\<rparr>)
     }"

text \<open>
  \<open>stats_server_create\<close>: \<open>mem_ok\<close> answers the allocation of the server, \<open>A\<close> and \<open>As\<close> those of the
  ring. A null result after a failed load is \<open>Some None\<close>.
\<close>

definition fresh_server :: "proto_config \<Rightarrow> protocol_parser \<Rightarrow> line_validator_fn option \<Rightarrow> stats_server" where
  "fresh_server config parser validator =
     \<lparr>bytes_recv_udp = 0, bytes_recv_tcp = 0, total_connections = 0, malformed_lines = 0,
      last_reload = 0, s_config = config, backend_list = [], s_backends = Map.empty,
      s_ring = None, ring_freed = False, s_parser = parser, s_validator = validator,
      s_calls = 0, s_lines = 0, s_replies = []\<rparr>"

definition stats_server_create ::
    "bool \<Rightarrow> allocator \<Rightarrow> (nat \<Rightarrow> allocator) \<Rightarrow> (nat \<Rightarrow> make_env) \<Rightarrow> proto_config \<Rightarrow> protocol_parser \<Rightarrow>
     line_validator_fn option \<Rightarrow> stats_server option option" where
  "stats_server_create mem_ok A As E config parser validator =
     (if \<not> mem_ok then Some None
      else do {
        (ring, server2) \<leftarrow> hashring_load_from_config A As (make_backend E) kill_backend config
                            (fresh_server config parser validator);
        (case ring of
           None \<Rightarrow> Some None
         | Some r \<Rightarrow> Some (Some (server2\<lparr>s_ring := Some r\<rparr>)))
      })"

definition stats_num_backends :: "stats_server \<Rightarrow> nat" where
  "stats_num_backends server = length (backend_list server)"

text \<open>\<open>stats_server_reload\<close> releases the ring and the list and does not build them again.\<close>

definition stats_server_reload :: "int \<Rightarrow> stats_server \<Rightarrow> stats_server option" where
  "stats_server_reload now server =
     (if ring_freed server then None
      else do {
        server1 \<leftarrow> hashring_dealloc kill_backend (s_ring server) server;
        Some (server1\<lparr>ring_freed := True, backend_list := [], last_reload := now\<rparr>)
      })"

text \<open>\<open>stats_server_destroy\<close>; what remains of the heap is the result.\<close>

definition stats_server_destroy :: "stats_server \<Rightarrow> (nat \<Rightarrow> stats_backend option) option" where
  "stats_server_destroy server =
     (if ring_freed server then None
      else do {
        server1 \<leftarrow> hashring_dealloc kill_backend (s_ring server) server;
        Some (s_backends server1)
      })"

section \<open>The pool of backends\<close>

text \<open>
  A backend is in order when its client is, when the client reports to it, and when the bytes it
  queued are the bytes it sent and the bytes still in its send queue.
\<close>

definition backend_ok :: "stats_backend \<Rightarrow> bool" where
  "backend_ok b \<longleftrightarrow>
     client_inv (bk_client b) \<and> callback_sent (bk_client b) = Client_callback \<and>
     bytes_queued b = bytes_sent b + of_nat (length (buffer_data (c_queue (bk_client b))))"

text \<open>A backend through which nothing has gone yet.\<close>

definition quiet :: "proto_config \<Rightarrow> stats_backend \<Rightarrow> bool" where
  "quiet config b \<longleftrightarrow>
     sent_bytes (c_trace (bk_client b)) = [] \<and> buffer_data (c_queue (bk_client b)) = [] \<and>
     c_addr (bk_client b) \<noteq> None \<and> c_config (bk_client b) = config"

definition all_quiet :: "stats_server \<Rightarrow> bool" where
  "all_quiet s \<longleftrightarrow> (\<forall>p b. s_backends s p = Some b \<longrightarrow> quiet (s_config s) b)"

lemma all_quiet_setup [simp]: "all_quiet (s\<lparr>s_calls := n\<rparr>) = all_quiet s" "all_quiet (s\<lparr>s_ring := r\<rparr>) = all_quiet s"
  by (simp_all add: all_quiet_def)

lemma all_quiet_add:
  "all_quiet s \<Longrightarrow> quiet (s_config s) b \<Longrightarrow>
   all_quiet (s\<lparr>s_calls := n, s_backends := (s_backends s)(p \<mapsto> b), backend_list := ps\<rparr>)"
  by (simp add: all_quiet_def)

text \<open>
  The pool: the list names exactly the live backends, numbers not yet used are free, and no two
  backends have the same key.
\<close>

definition pool_ok :: "stats_server \<Rightarrow> bool" where
  "pool_ok s \<longleftrightarrow>
     dom (s_backends s) = set (backend_list s) \<and> distinct (backend_list s) \<and>
     (\<forall>p \<in> dom (s_backends s). p < s_calls s) \<and>
     (\<forall>p b. s_backends s p = Some b \<longrightarrow> backend_ok b) \<and>
     (\<forall>p q b c. s_backends s p = Some b \<longrightarrow> s_backends s q = Some c \<longrightarrow> bk_key b = bk_key c \<longrightarrow> p = q)"

text \<open>
  What the pool needs of the environment: the list can grow, and the first allocation of a send
  queue, which the code does not check, is granted; the memory of a new client has no history.
\<close>

definition make_env_ok :: "make_env \<Rightarrow> bool" where
  "make_env_ok e \<longleftrightarrow>
     m_ok e 5 \<and> malloc (m_client e 3) INITIAL_BUFFER_SIZE \<noteq> None \<and> c_trace (m_old e) = []"

lemma find_among_find:
  "set ps \<subseteq> dom heap \<Longrightarrow>
   find_among heap ps key = Some (find (\<lambda>p. map_option bk_key (heap p) = Some key) ps)"
  by (induction ps) (auto split: option.splits)

lemma find_backend_pool:
  assumes "pool_ok s"
  shows "\<exists>found. find_backend s key = Some found \<and>
    (case found of
       Some p \<Rightarrow> \<exists>b. s_backends s p = Some b \<and> bk_key b = key
     | None \<Rightarrow> \<forall>p b. s_backends s p = Some b \<longrightarrow> bk_key b \<noteq> key)"
proof -
  have sub: "set (backend_list s) \<subseteq> dom (s_backends s)" "dom (s_backends s) \<subseteq> set (backend_list s)"
    using assms by (auto simp: pool_ok_def)
  let ?P = "\<lambda>p. map_option bk_key (s_backends s p) = Some key"
  have e: "find_backend s key = Some (find ?P (backend_list s))"
    by (simp add: find_backend_def find_among_find [OF sub(1)])
  show ?thesis
  proof (cases "find ?P (backend_list s)")
    case None
    then have "find_backend s key = Some None" using e by simp
    moreover have "\<forall>p b. s_backends s p = Some b \<longrightarrow> bk_key b \<noteq> key"
      using None sub(2) by (auto simp: find_None_iff)
    ultimately show ?thesis by simp
  next
    case (Some p)
    then have "find_backend s key = Some (Some p)" using e by simp
    with Some show ?thesis by (auto simp: find_Some_iff)
  qed
qed

lemma make_client_ok:
  assumes "make_env_ok e"
    and "tcpclient_init (m_client e) (m_old e) config (Some host) (Some port) (Some protocol) = Some (0, client)"
    and "tcpclient_connect (m_connect e) client = (0, client2)"
  shows "client_inv (tcpclient_set_sent_callback client2 Client_callback) \<and>
    callback_sent (tcpclient_set_sent_callback client2 Client_callback) = Client_callback \<and>
    buffer_data (c_queue (tcpclient_set_sent_callback client2 Client_callback)) = [] \<and>
    sent_bytes (c_trace (tcpclient_set_sent_callback client2 Client_callback)) = [] \<and>
    c_addr (tcpclient_set_sent_callback client2 Client_callback) \<noteq> None \<and>
    c_config (tcpclient_set_sent_callback client2 Client_callback) = config"
proof -
  have f: "fresh_client client" using assms(1,2) unfolding fresh_client_def make_env_ok_def by blast
  from assms(3) have c2: "client2 = snd (tcpclient_connect (m_connect e) client)" by simp
  have "client_inv client2" "buffer_data (c_queue client2) = []" "sent_bytes (c_trace client2) = []"
    using fresh_client_start [OF f] tcpclient_connect_inv [of client "m_connect e"]
    by (simp_all add: c2 frame_simps)
  moreover have "c_config client2 = config"
    using assms(2) by (auto simp: c2 frame_simps tcpclient_init_def Let_def split: option.splits if_splits Option.bind_splits)
  moreover have "c_addr client2 \<noteq> None"
    using assms(3) fresh_client_start [OF f] connect_from_init_outcome [of "m_connect e" client 0 client2]
    by (auto simp: tcpclient_connect_def)
  ultimately show ?thesis
    by (auto simp: tcpclient_set_sent_callback_def client_inv_def phase_defs split: tcpclient_state.splits)
qed

text \<open>A call of \<open>make_backend\<close> either finds a live backend, or makes one, or fails.\<close>

lemma make_backend_cases:
  assumes ok: "pool_ok s" and env: "make_env_ok (E (s_calls s))"
    and r: "make_backend E l s = Some (obj, s')"
  obtains (none) "obj = None" "s' = s\<lparr>s_calls := Suc (s_calls s)\<rparr>"
  | (old) p b host port protocol key where "obj = Some p" "s' = s\<lparr>s_calls := Suc (s_calls s)\<rparr>"
      "split_backend l = Some (host, port, protocol, key)" "s_backends s p = Some b" "bk_key b = key"
  | (made) p b host port protocol key where "obj = Some p" "p = s_calls s"
      "split_backend l = Some (host, port, protocol, key)" "backend_ok b" "quiet (s_config s) b" "bk_key b = key"
      "\<forall>q c. s_backends s q = Some c \<longrightarrow> bk_key c \<noteq> key"
      "s' = s\<lparr>s_calls := Suc (s_calls s), s_backends := (s_backends s)(p \<mapsto> b),
             backend_list := backend_list s @ [p]\<rparr>"
proof -
  let ?e = "E (s_calls s)"
  let ?s = "s\<lparr>s_calls := Suc (s_calls s)\<rparr>"
  have find: "find_backend ?s k = find_backend s k" for k by (simp add: find_backend_def)
  show ?thesis
  proof (cases "split_backend l")
    case None
    with r show ?thesis by (intro none) (auto simp: make_backend_def)
  next
    case (Some t)
    obtain host port protocol key where t: "t = (host, port, protocol, key)" by (cases t)
    obtain found where f: "find_backend s key = Some found"
        "case found of Some p \<Rightarrow> \<exists>b. s_backends s p = Some b \<and> bk_key b = key
         | None \<Rightarrow> \<forall>p b. s_backends s p = Some b \<longrightarrow> bk_key b \<noteq> key"
      using find_backend_pool [OF ok, of key] by blast
    consider (fail) "obj = None" "s' = ?s"
      | (hit) p where "found = Some p" "obj = Some p" "s' = ?s"
      | (new) client client2 where "found = None"
          "tcpclient_init (m_client ?e) (m_old ?e) (s_config s) (Some host) (Some port) (Some protocol) = Some (0, client)"
          "tcpclient_connect (m_connect ?e) client = (0, client2)" "obj = Some (s_calls s)"
          "s' = snd (add_backend (m_ok ?e 5) (?s\<lparr>s_backends := (s_backends s)(s_calls s \<mapsto>
            \<lparr>bk_client = tcpclient_set_sent_callback client2 Client_callback, bk_key = key,
             bytes_queued = 0, bytes_sent = 0, relayed_lines = 0, dropped_lines = 0, bk_failing = 0\<rparr>)\<rparr>) (s_calls s))"
      using r Some t f(1)
      by (auto simp: make_backend_def find Let_def split: if_splits option.splits Option.bind_splits prod.splits)
    then show ?thesis
    proof cases
      case fail
      then show ?thesis by (rule none)
    next
      case hit
      with f(2) Some t show ?thesis by (auto intro: old)
    next
      case new
      let ?b = "\<lparr>bk_client = tcpclient_set_sent_callback client2 Client_callback, bk_key = key,
             bytes_queued = 0, bytes_sent = 0, relayed_lines = 0, dropped_lines = 0, bk_failing = 0\<rparr>"
      have "backend_ok ?b \<and> quiet (s_config s) ?b"
        using make_client_ok [OF env new(2,3)] by (simp add: backend_ok_def quiet_def)
      with new f(2) Some t env show ?thesis
        by (intro made [of "s_calls s" host port protocol key ?b]) (auto simp: add_backend_def make_env_ok_def)
    qed
  qed
qed

section \<open>Loading a server\<close>

definition normal_key :: "bytes \<Rightarrow> bytes" where
  "normal_key l = (case split_backend l of None \<Rightarrow> l | Some (host, port, protocol, key) \<Rightarrow> key)"

definition key_of :: "stats_server \<Rightarrow> nat \<Rightarrow> bytes option" where
  "key_of s p = map_option bk_key (s_backends s p)"

definition making :: "(nat \<Rightarrow> make_env) \<Rightarrow> stats_server \<Rightarrow> bool" where
  "making E s \<longleftrightarrow> pool_ok s \<and> (\<forall>i. make_env_ok (E i))"

text \<open>What a running server never changes.\<close>

definition same_setup :: "stats_server \<Rightarrow> stats_server \<Rightarrow> bool" where
  "same_setup s s' \<longleftrightarrow>
     ring_freed s' = ring_freed s \<and> s_parser s' = s_parser s \<and> s_validator s' = s_validator s \<and>
     s_config s' = s_config s"

lemma pool_ok_call: "pool_ok s \<Longrightarrow> pool_ok (s\<lparr>s_calls := Suc (s_calls s)\<rparr>)"
  by (auto simp: pool_ok_def less_SucI)

lemma pool_ok_add:
  assumes "pool_ok s" "backend_ok b" "\<forall>q c. s_backends s q = Some c \<longrightarrow> bk_key c \<noteq> bk_key b"
  shows "pool_ok (s\<lparr>s_calls := Suc (s_calls s), s_backends := (s_backends s)(s_calls s \<mapsto> b),
    backend_list := backend_list s @ [s_calls s]\<rparr>)"
proof -
  have "s_calls s \<notin> dom (s_backends s)" using assms(1) by (auto simp: pool_ok_def)
  then show ?thesis using assms unfolding pool_ok_def by (auto simp: less_SucI split: if_splits) metis
qed

lemma make_backend_law:
  assumes "making E s" "make_backend E l s = Some (Some v, s')"
  shows "making E s'" "key_of s' v = Some (normal_key l)"
    and "key_of s w = Some n \<Longrightarrow> key_of s' w = Some n"
    and "set (backend_list s') = insert v (set (backend_list s))"
    and "same_setup s s'"
    and "all_quiet s \<Longrightarrow> all_quiet s'"
proof -
  have ok: "pool_ok s" and env: "make_env_ok (E (s_calls s))" and envs: "\<forall>i. make_env_ok (E i)"
    using assms(1) by (auto simp: making_def)
  have "making E s' \<and> key_of s' v = Some (normal_key l) \<and> (key_of s w = Some n \<longrightarrow> key_of s' w = Some n) \<and>
    set (backend_list s') = insert v (set (backend_list s)) \<and>
    same_setup s s' \<and>
    (all_quiet s \<longrightarrow> all_quiet s')"
    using ok env assms(2)
  proof (cases rule: make_backend_cases)
    case old
    with ok envs pool_ok_call [OF ok] show ?thesis
      by (auto simp: making_def key_of_def normal_key_def pool_ok_def same_setup_def)
  next
    case (made p b host port protocol key)
    have "pool_ok s'" unfolding made(8) made(2) by (rule pool_ok_add [OF ok made(4)]) (use made in auto)
    moreover have "s_calls s \<notin> dom (s_backends s)" using ok by (auto simp: pool_ok_def)
    moreover have "all_quiet s \<longrightarrow> all_quiet s'" using made(5,8) all_quiet_add by blast
    ultimately show ?thesis using made envs by (auto simp: making_def key_of_def normal_key_def same_setup_def)
  qed simp
  then show "making E s'" "key_of s' v = Some (normal_key l)"
    "key_of s w = Some n \<Longrightarrow> key_of s' w = Some n"
    "set (backend_list s') = insert v (set (backend_list s))" "same_setup s s'"
    "all_quiet s \<Longrightarrow> all_quiet s'" by auto
qed

interpretation mb: interning "make_backend E" "making E" key_of normal_key for E
proof unfold_locales
  fix s l v s'
  assume a: "making E s" "make_backend E l s = Some (Some v, s')"
  show "making E s' \<and> key_of s' v = Some (normal_key l) \<and>
      (\<forall>w n. key_of s w = Some n \<longrightarrow> key_of s' w = Some n)"
    using make_backend_law [OF a] by blast
next
  fix s v n w
  assume "making E s" "key_of s v = Some n" "key_of s w = Some n"
  then show "v = w" by (auto simp: making_def pool_ok_def key_of_def)
qed

text \<open>The invariant of a running server.\<close>

definition server_inv :: "stats_server \<Rightarrow> bool" where
  "server_inv s \<longleftrightarrow>
     pool_ok s \<and> \<not> ring_freed s \<and>
     (\<exists>r. s_ring s = Some r \<and> ring_wf r \<and> set (ring_shards r) = set (backend_list s))"

text \<open>The ring and the list hold the same backends while the ring is loaded.\<close>

definition same_backends :: "(nat \<Rightarrow> make_env) \<Rightarrow> stats_server \<Rightarrow> nat hashring \<Rightarrow> stats_server \<Rightarrow> bool" where
  "same_backends E s0 ring s \<longleftrightarrow>
     making E s \<and> (backends ring \<noteq> None \<longrightarrow> ring_wf ring) \<and> set (ring_shards ring) = set (backend_list s) \<and>
     same_setup s0 s \<and> all_quiet s"

lemma same_backends_add:
  assumes "same_backends E s0 ring s" "hashring_add A (make_backend E) dealloc ring line s = Some (True, ring', s')"
  shows "same_backends E s0 ring' s'"
proof -
  have "backends ring \<noteq> None"
    using assms(2) by (auto simp: hashring_add_def split: option.splits Option.bind_splits if_splits)
  then have wf: "ring_wf ring" and ok: "making E s" and eq: "set (ring_shards ring) = set (backend_list s)"
    using assms(1) by (auto simp: same_backends_def)
  from hashring_add_True [OF wf assms(2)] obtain l v where a: "make_backend E l s = Some (Some v, s')"
      "ring_wf ring'" "ring_shards ring' = ring_shards ring @ [v]"
    by blast
  from make_backend_law(1,4,5,6) [OF ok a(1)] a eq assms(1) show ?thesis
    by (auto simp: same_backends_def same_setup_def)
qed

lemma stats_server_create_cases:
  assumes env: "\<forall>i. make_env_ok (E i)" and ring: "pc_ring config = Some lines" "slist_wf lines" "slist_elems lines \<noteq> []"
    and r: "stats_server_create mem_ok A As E config parser validator = Some (Some s)"
  obtains r where "server_inv s" "s_ring s = Some r" "mb.represents E s (slist_elems lines) r"
    "same_setup (fresh_server config parser validator) s"
    "all_quiet s"
proof -
  define s0 where "s0 = fresh_server config parser validator"
  have s0: "pool_ok s0" "backend_list s0 = []" "all_quiet s0" and f0: "\<not> ring_freed s0"
    by (auto simp: s0_def fresh_server_def pool_ok_def all_quiet_def)
  obtain s1 r where load: "hashring_load_from_config A As (make_backend E) kill_backend config s0 = Some (Some r, s1)"
      and s: "s = s1\<lparr>s_ring := Some r\<rparr>"
    using r by (auto simp: stats_server_create_def s0_def split: if_splits Option.bind_splits option.splits)
  have m0: "making E s0" using s0 env by (simp add: making_def)
  have rep: "mb.represents E s1 (slist_elems lines) r"
    using mb.load_represents [OF ring m0 load] .
  have same: "same_backends E s0 r s1"
  proof (rule hashring_load_keeps [where P = "same_backends E s0", OF _ _ load])
    show "same_backends E s0 ring s0" if "hashring_init A = Some ring" for ring
      using that m0 s0 f0
      by (cases "statsrelay_list_new A :: nat slist option")
         (auto simp: same_backends_def same_setup_def hashring_init_def ring_wf_def ring_shards_def
           split: option.splits dest: list_new_wf)
  qed (rule same_backends_add)
  have "server_inv s"
    using rep same f0
    by (auto simp: server_inv_def s mb.represents_def same_backends_def same_setup_def making_def pool_ok_def)
  moreover have "mb.represents E s (slist_elems lines) r"
    using rep by (simp add: mb.represents_def s making_def pool_ok_def key_of_def)
  moreover have "same_setup s0 s" using same by (simp add: same_backends_def same_setup_def s)
  moreover have "all_quiet s" using same by (simp add: same_backends_def s)
  ultimately show ?thesis using that s by (simp add: s0_def)
qed

section \<open>Releasing a server\<close>

lemma kill_backend_ok:
  assumes "s_backends s p = Some b" "backend_ok b"
  shows "kill_backend p s = Some (s\<lparr>s_backends := (s_backends s)(p := None)\<rparr>)"
proof -
  have inv: "client_inv (bk_client b)" using assms(2) by (simp add: backend_ok_def)
  from buffer_destroy_wf [of "c_queue (bk_client b)"] client_inv_queue [OF inv]
  obtain q where "buffer_destroy (c_queue (bk_client b)) = Some q" by blast
  then have "tcpclient_destroy (bk_client b) \<noteq> None" by (simp add: tcpclient_destroy_def Let_def)
  with assms(1) show ?thesis by (auto simp: kill_backend_def)
qed

lemma kill_all:
  assumes "distinct vs" "\<forall>p \<in> set vs. \<exists>b. s_backends s p = Some b \<and> backend_ok b"
  shows "dealloc_all kill_backend vs s = Some (s\<lparr>s_backends := s_backends s |` (- set vs)\<rparr>)"
  using assms
proof (induction vs arbitrary: s)
  case (Cons p vs)
  then obtain b where "s_backends s p = Some b" "backend_ok b" by auto
  note k = kill_backend_ok [OF this]
  define h where "h = (s_backends s)(p := None)"
  have "\<forall>q \<in> set vs. \<exists>c. s_backends (s\<lparr>s_backends := h\<rparr>) q = Some c \<and> backend_ok c"
    using Cons.prems by (auto simp: h_def)
  from Cons.IH [OF _ this] Cons.prems(1)
  have "dealloc_all kill_backend vs (s\<lparr>s_backends := h\<rparr>) = Some (s\<lparr>s_backends := h |` (- set vs)\<rparr>)"
    by simp
  moreover have "h |` (- set vs) = s_backends s |` (- set (p # vs))"
    by (auto simp: h_def restrict_map_def fun_eq_iff)
  ultimately show ?case using k by (simp add: h_def [symmetric])
qed (simp add: restrict_map_def)

lemma hashring_dealloc_server:
  assumes "server_inv s"
  shows "hashring_dealloc kill_backend (s_ring s) s = Some (s\<lparr>s_backends := Map.empty\<rparr>)"
proof -
  from assms obtain r bl where r: "s_ring s = Some r" "backends r = Some bl" "slist_wf bl"
      "set (slist_elems bl) = dom (s_backends s)"
    by (auto simp: server_inv_def pool_ok_def elim!: ring_wfE)
  let ?vs = "fresh_elems {} (slist_elems bl)"
  have vs: "distinct ?vs" "set ?vs = dom (s_backends s)"
    using fresh_elems_props [of "{}" "slist_elems bl"] r(4) by auto
  have "\<exists>b. s_backends s p = Some b \<and> backend_ok b" if "p \<in> dom (s_backends s)" for p
    using that assms unfolding server_inv_def pool_ok_def by blast
  then have "dealloc_all kill_backend ?vs s = Some (s\<lparr>s_backends := s_backends s |` (- set ?vs)\<rparr>)"
    using vs by (intro kill_all) auto
  moreover have "s_backends s |` (- set ?vs) = Map.empty"
    unfolding vs(2) by (auto simp: restrict_map_def dom_def fun_eq_iff)
  ultimately show ?thesis
    using dealloc_from_wf [OF r(3), of 0 kill_backend s] r(1,2) by (simp add: hashring_dealloc_def)
qed

section \<open>A server\<close>

definition good_make :: make_env where
  "good_make = \<lparr>m_ok = (\<lambda>_. True), m_client = (\<lambda>_ _. Some []), m_connect = good_env, m_old = example_memory\<rparr>"

lemma good_make_ok: "make_env_ok good_make"
  by (simp add: make_env_ok_def good_make_def example_memory_def INITIAL_BUFFER_SIZE_def)

lemma make_backend_succeeds:
  assumes "pool_ok s" "split_backend l = Some (host, port, protocol, key)"
    and "length host < 2 ^ 62" "length port < 2 ^ 62" "length protocol < 2 ^ 62"
  shows "\<exists>p s'. make_backend (\<lambda>_. good_make) l s = Some (Some p, s')"
proof -
  let ?s = "s\<lparr>s_calls := Suc (s_calls s)\<rparr>"
  obtain found where f: "find_backend ?s key = Some found"
    using find_backend_pool [OF pool_ok_call [OF assms(1)], of key] by blast
  have "c_trace example_memory = []" by (simp add: example_memory_def)
  from tcpclient_init_succeeds [OF assms(3-5) this, of "s_config ?s"] obtain c where
    c: "tcpclient_init (\<lambda>_ _. Some []) example_memory (s_config ?s) (Some host) (Some port) (Some protocol) =
        Some (0, c)" "fresh_client c" "c_addr c = None"
    by blast
  obtain c2 where conn: "tcpclient_connect good_env c = (0, c2)"
    using fresh_client_connects(1) [OF c(2,3)] by blast
  from f c(1) conn assms(2) show ?thesis
    by (cases found) (simp_all add: make_backend_def good_make_def Let_def)
qed

definition example_lines :: "bytes option slist" where
  "example_lines = \<lparr>allocated_size = 2, l_size = 2,
     l_data = Some [Some (Some ''h:1''), Some (Some ''h:1:tcp'')]\<rparr>"

lemma example_lines_props:
  "slist_wf example_lines" "slist_elems example_lines = map Some [''h:1'', ''h:1:tcp'']"
  by (simp_all add: example_lines_def slist_wf_def slist_elems_def)

definition ring_config :: proto_config where
  "ring_config = example_config\<lparr>pc_ring := Some example_lines\<rparr>"

definition create_example :: "protocol_parser \<Rightarrow> line_validator_fn option \<Rightarrow> stats_server option option" where
  "create_example parser validator =
     stats_server_create True (\<lambda>_. Some []) (\<lambda>_ _. Some []) (\<lambda>_. good_make) ring_config parser validator"

lemma example_server: "\<exists>s. create_example parser validator = Some (Some s)"
proof -
  let ?E = "\<lambda>_::nat. good_make"
  let ?s0 = "fresh_server ring_config parser validator"
  let ?A = "(\<lambda>_. Some []) :: allocator"
  have env: "\<forall>i. make_env_ok (?E i)" by (simp add: good_make_ok)
  have ok0: "pool_ok ?s0" by (simp add: fresh_server_def pool_ok_def)
  obtain p1 s1 where m1: "make_backend ?E ''h:1'' ?s0 = Some (Some p1, s1)"
    using make_backend_succeeds [OF ok0, of "''h:1''" "''h''" "''1''" "''tcp''" "''h:1:tcp''"]
    by (auto simp: split_backend_def cut_at_def)
  have "pool_ok s1" using make_backend_law(1) [of ?E ?s0] m1 ok0 env by (auto simp: making_def)
  then obtain p2 s2 where m2: "make_backend ?E ''h:1:tcp'' s1 = Some (Some p2, s2)"
    using make_backend_succeeds [of s1 "''h:1:tcp''" "''h''" "''1''" "''tcp''" "''h:1:tcp''"]
    by (auto simp: split_backend_def cut_at_def)
  have new: "(hashring_init ?A :: nat hashring option) = Some \<lparr>backends = Some \<lparr>allocated_size = 0, l_size = 0, l_data = None\<rparr>\<rparr>"
    by (simp add: hashring_init_def statsrelay_list_new_def malloc_def)
  have push: "list_push ?A \<lparr>allocated_size = 0, l_size = 0, l_data = None\<rparr> p1 =
      Some (True, \<lparr>allocated_size = 1, l_size = 1, l_data = Some [Some p1]\<rparr>)"
    "list_push ?A \<lparr>allocated_size = 1, l_size = 1, l_data = Some [Some p1]\<rparr> p2 =
      Some (True, \<lparr>allocated_size = 2, l_size = 2, l_data = Some [Some p1, Some p2]\<rparr>)"
    by (simp_all add: list_push_def statsrelay_list_expand_def malloc_def list_put_def resize_slots_def
        sz_sub_def Let_def)
  have get: "list_get example_lines 0 = Some (Some ''h:1'')"
      "list_get example_lines (Suc 0) = Some (Some ''h:1:tcp'')" "l_size example_lines = 2"
    by (simp_all add: example_lines_def list_get_def)
  have "hashring_load_from_config ?A (\<lambda>_. ?A) (make_backend ?E) kill_backend ring_config ?s0 =
      Some (Some \<lparr>backends = Some \<lparr>allocated_size = 2, l_size = 2, l_data = Some [Some p1, Some p2]\<rparr>\<rparr>, s2)"
    using m1 m2 new push get
    by (simp add: hashring_load_from_config_def ring_config_def hashring_add_def
        load_from.simps [of _ _ _ _ 0] load_from.simps [of _ _ _ _ "Suc 0"] load_from.simps [of _ _ _ _ "Suc (Suc 0)"])
  then show ?thesis by (simp add: create_example_def stats_server_create_def)
qed

lemma example_server_inv:
  assumes "create_example parser validator = Some (Some s)"
  shows "server_inv s" "s_parser s = parser" "s_validator s = validator" "s_config s = ring_config"
    "\<exists>r. s_ring s = Some r \<and> length (ring_shards r) = 2" "all_quiet s"
proof -
  have env: "\<forall>i. make_env_ok ((\<lambda>_. good_make) (i :: nat))" by (simp add: good_make_ok)
  have ring: "pc_ring ring_config = Some example_lines" by (simp add: ring_config_def)
  have ne: "slist_elems example_lines \<noteq> []" using example_lines_props by simp
  from stats_server_create_cases [OF env ring example_lines_props(1) ne assms [unfolded create_example_def]]
  obtain r where r: "server_inv s" "s_ring s = Some r"
      "mb.represents (\<lambda>_. good_make) s (slist_elems example_lines) r"
      "same_setup (fresh_server ring_config parser validator) s"
      "all_quiet s"
    by blast
  then show "server_inv s" "s_parser s = parser" "s_validator s = validator" "s_config s = ring_config"
      "all_quiet s"
    by (simp_all add: same_setup_def fresh_server_def)
  show "\<exists>r. s_ring s = Some r \<and> length (ring_shards r) = 2"
    using r(2,3) by (auto simp: mb.represents_def example_lines_props(2) dest: list_all2_lengthD)
qed

lemma stats_server_released: "server_inv s \<Longrightarrow> stats_server_destroy s = Some Map.empty"
  using hashring_dealloc_server [of s] by (simp add: stats_server_destroy_def server_inv_def)

section \<open>Properties\<close>

text \<open>C14: a server that was created holds one shard per configured line, in order; the shard's
  backend has the normalised key of its line (\<open>host:port:protocol\<close>), two shards share a backend
  exactly when their normalised keys are equal, and the number of backends is the number of
  different keys.\<close>

theorem stats_server_create_interns_backends:
  assumes "\<forall>i. make_env_ok (E i)"
    and "pc_ring config = Some lines" "slist_wf lines" "slist_elems lines = map Some ls" "ls \<noteq> []"
    and "stats_server_create mem_ok A As E config parser validator = Some (Some s)"
  shows "\<exists>r. s_ring s = Some r \<and> length (ring_shards r) = length ls \<and>
    (\<forall>i < length ls. \<exists>b. s_backends s (ring_shards r ! i) = Some b \<and> bk_key b = normal_key (ls ! i)) \<and>
    (\<forall>i < length ls. \<forall>j < length ls.
       ring_shards r ! i = ring_shards r ! j \<longleftrightarrow> normal_key (ls ! i) = normal_key (ls ! j)) \<and>
    stats_num_backends s = card (normal_key ` set ls)"
proof -
  have ne: "slist_elems lines \<noteq> []" using assms(4,5) by simp
  from stats_server_create_cases [OF assms(1,2,3) ne assms(6)] obtain r where
    inv: "server_inv s" and r: "s_ring s = Some r" and rep: "mb.represents E s (slist_elems lines) r"
    by blast
  have ok: "making E s" using rep by (simp add: mb.represents_def)
  have all: "list_all2 (\<lambda>l p. key_of s p = Some (normal_key l)) ls (ring_shards r)"
    using rep assms(4) by (simp add: mb.represents_def list.rel_map)
  then have len: "length (ring_shards r) = length ls" by (simp add: list_all2_lengthD)
  have key: "key_of s (ring_shards r ! i) = Some (normal_key (ls ! i))" if "i < length ls" for i
    using list_all2_nthD [OF all that] .
  have set_eq: "set (ring_shards r) = set (backend_list s)" and dist: "distinct (backend_list s)"
    using inv r by (auto simp: server_inv_def pool_ok_def)
  have "map (key_of s) (ring_shards r) = map (\<lambda>l. Some (normal_key l)) ls"
    using key len by (intro nth_equalityI) auto
  from arg_cong [OF this, of set] have img: "key_of s ` set (backend_list s) = Some ` normal_key ` set ls"
    by (simp add: set_eq image_image)
  have "inj_on (key_of s) (set (backend_list s))"
  proof (rule inj_onI)
    fix p q assume pq: "p \<in> set (backend_list s)" "q \<in> set (backend_list s)" "key_of s p = key_of s q"
    then obtain n where "key_of s p = Some n" using img by auto
    moreover from this pq(3) have "key_of s q = Some n" by simp
    ultimately show "p = q" by (rule mb.name_unique [OF ok])
  qed
  then have "card (set (backend_list s)) = card (Some ` normal_key ` set ls)"
    by (simp add: card_image flip: img)
  also have "\<dots> = card (normal_key ` set ls)" by (rule card_image) simp
  finally have "stats_num_backends s = card (normal_key ` set ls)"
    using dist by (simp add: stats_num_backends_def distinct_card)
  moreover have "ring_shards r ! i = ring_shards r ! j \<longleftrightarrow> normal_key (ls ! i) = normal_key (ls ! j)"
    if "i < length ls" "j < length ls" for i j
    using mb.shards_equal_iff [of E s ls r] rep assms(4) that by simp
  ultimately show ?thesis using r len key by (auto simp: key_of_def)
qed

text \<open>C37: after a reload every backend is gone while the server still refers to the released ring:
  a second reload and the final destroy are undefined.\<close>

theorem stats_server_reload_dangles:
  assumes "server_inv s"
  shows "\<exists>s'. stats_server_reload now s = Some s' \<and> s_backends s' = Map.empty \<and> stats_num_backends s' = 0 \<and>
    last_reload s' = now \<and> s_ring s' = s_ring s \<and>
    stats_server_reload later s' = None \<and> stats_server_destroy s' = None"
  using hashring_dealloc_server [OF assms] assms
  by (simp add: stats_server_reload_def stats_server_destroy_def server_inv_def stats_num_backends_def)

text \<open>Each property holds on the example server.\<close>

theorem stats_server_create_interns_backends_witness:
  "\<exists>s r. create_example protocol_parser_statsd (Some validate_statsd) = Some (Some s) \<and> s_ring s = Some r \<and>
     length (ring_shards r) = 2 \<and> ring_shards r ! 0 = ring_shards r ! 1 \<and> stats_num_backends s = 1"
proof -
  obtain s where s: "create_example protocol_parser_statsd (Some validate_statsd) = Some (Some s)"
    using example_server by blast
  have env: "\<forall>i. make_env_ok ((\<lambda>_. good_make) (i :: nat))" by (simp add: good_make_ok)
  have ring: "pc_ring ring_config = Some example_lines" by (simp add: ring_config_def)
  have k: "normal_key ''h:1'' = ''h:1:tcp''" "normal_key ''h:1:tcp'' = ''h:1:tcp''"
    by (simp_all add: normal_key_def split_backend_def cut_at_def)
  obtain r where r: "s_ring s = Some r" "length (ring_shards r) = length [''h:1'', ''h:1:tcp'']"
      "\<forall>i < length [''h:1'', ''h:1:tcp'']. \<forall>j < length [''h:1'', ''h:1:tcp''].
         ring_shards r ! i = ring_shards r ! j \<longleftrightarrow>
         normal_key ([''h:1'', ''h:1:tcp''] ! i) = normal_key ([''h:1'', ''h:1:tcp''] ! j)"
      "stats_num_backends s = card (normal_key ` set [''h:1'', ''h:1:tcp''])"
    using stats_server_create_interns_backends [OF env ring example_lines_props _ s [unfolded create_example_def]]
    by blast
  have "stats_num_backends s = 1" using r(4) by (simp add: k)
  moreover have "ring_shards r ! 0 = ring_shards r ! 1"
    using r(3) [rule_format, of 0 1] k by simp
  ultimately show ?thesis using s r(1,2) by (intro exI [of _ s] exI [of _ r]) simp
qed

theorem stats_server_reload_dangles_witness:
  "\<exists>s s'. create_example protocol_parser_statsd (Some validate_statsd) = Some (Some s) \<and>
     stats_server_reload 5 s = Some s' \<and> stats_server_destroy s' = None"
proof -
  obtain s where s: "create_example protocol_parser_statsd (Some validate_statsd) = Some (Some s)"
    using example_server by blast
  from stats_server_reload_dangles [OF example_server_inv(1) [OF s], of 5 6] s show ?thesis by blast
qed

end
