(* ===== verification/Stats.thy ===== *)
theory Stats
  imports Backends
begin

text \<open>
  The second half of \<open>src/src/stats.c\<close>: relaying a line to the backend its key hashes to, cutting the
  lines out of TCP streams and UDP datagrams, the status report, and the sessions. The state is the
  \<open>stats_server\<close> of \<open>Backends\<close>; a TCP session is the record \<open>stats_session\<close>. The answers of the
  environment to the handling of the line with number \<open>n\<close> (the ghost counter \<open>s_lines\<close>) are
  \<open>R n\<close>. The theory shows where each line goes, that the byte counters always balance, that both
  receivers refine "cut at newlines and relay each line in order", that the way a TCP stream
  is split into reads does not matter, and which inputs overrun the fixed-size buffers.
\<close>

section \<open>Operations\<close>

definition MAX_UDP_LENGTH :: nat where "MAX_UDP_LENGTH = 65536"
definition KEY_BUFFER_SIZE :: nat where "KEY_BUFFER_SIZE = 8192"

record stats_session =
  ss_buffer :: buffer
  ss_sd :: int

text \<open>
  The answers for one line: the allocators of the validator, of the send queue and of the status
  buffer, the answers to a reconnect, and the results of the calls of \<open>send\<close> for a status reply.
\<close>

record line_env =
  r_validate :: allocator
  r_queue :: allocator
  r_connect :: connect_env
  r_status :: allocator
  r_sends :: "nat \<Rightarrow> int"

text \<open>\<open>stats_connection\<close>: \<open>mem_ok\<close> answers the allocation of the session.\<close>

definition stats_connection ::
    "bool \<Rightarrow> allocator \<Rightarrow> int \<Rightarrow> stats_server \<Rightarrow> stats_session option \<times> stats_server" where
  "stats_connection mem_ok A sd server =
     (if \<not> mem_ok then (None, server)
      else
        (let (rc, b) = buffer_init A unset_buffer in
         if rc \<noteq> 0 then (None, server)
         else (Some \<lparr>ss_buffer = b, ss_sd = sd\<rparr>,
               server\<lparr>total_connections := total_connections server + 1\<rparr>)))"

text \<open>
  The end of \<open>stats_relay_line\<close>, once the backend is known: the line and its newline go to the send
  queue. \<open>line\<close> is the memory from the start of the line on.
\<close>

definition send_to_backend ::
    "line_env \<Rightarrow> bytes \<Rightarrow> nat \<Rightarrow> stats_backend \<Rightarrow> (int \<times> stats_backend) option" where
  "send_to_backend e line len backend =
     do {
       (rc, client) \<leftarrow> tcpclient_sendall (r_queue e) (r_connect e) (bk_client backend) line (len + 1);
       let backend1 = backend\<lparr>bk_client := client\<rparr>;
       if rc \<noteq> 0 then
         (let backend2 = backend1\<lparr>dropped_lines := dropped_lines backend1 + 1\<rparr>
          in Some (2, if bk_failing backend2 = 0 then backend2\<lparr>bk_failing := 1\<rparr> else backend2))
       else
         Some (0, backend1\<lparr>bk_failing := 0, bytes_queued := bytes_queued backend1 + of_nat (len + 1),
                           relayed_lines := relayed_lines backend1 + 1\<rparr>)
     }"

definition stats_relay_line :: "line_env \<Rightarrow> bytes \<Rightarrow> nat \<Rightarrow> stats_server \<Rightarrow> (int \<times> stats_server) option" where
  "stats_relay_line e line len ss =
     do {
       valid \<leftarrow> (case s_validator ss of
                  None \<Rightarrow> Some 0
                | Some validator \<Rightarrow>
                    if enable_validation (s_config ss) then validator (r_validate e) line len else Some 0);
       if valid \<noteq> 0 then Some (1, ss)
       else do {
         key_len \<leftarrow> s_parser ss (Some line) len;
         if key_len = 0 then Some (1, ss\<lparr>malformed_lines := malformed_lines ss + 1\<rparr>)
         else do {
           key \<leftarrow> mload (Block line) 0 key_len;
           key_buffer \<leftarrow> (if key_len + 1 \<le> KEY_BUFFER_SIZE then Some (key @ [NUL]) else None);
           choice \<leftarrow> (if ring_freed ss then None else hashring_choose (s_ring ss) (c_str key_buffer));
           case choice of
             None \<Rightarrow> Some (1, ss)
           | Some (p, _) \<Rightarrow>
               do {
                 backend \<leftarrow> s_backends ss p;
                 (rc, backend') \<leftarrow> send_to_backend e line len backend;
                 Some (rc, ss\<lparr>s_backends := (s_backends ss)(p \<mapsto> backend')\<rparr>)
               }
         }
       }
     }"

text \<open>
  \<open>snprintf\<close> at the tail of the buffer followed by \<open>buffer_produced\<close> with its result: at most the
  free space is written, including the terminator, and the full length of the text is produced
  if it fits.
\<close>

definition buffer_print :: "buffer \<Rightarrow> bytes \<Rightarrow> buffer option" where
  "buffer_print b str =
     (let space = buffer_spacecount b in
      do {
        b1 \<leftarrow> (if space = 0 then Some b else buffer_write_tail b (take (space - 1) str @ [NUL]));
        Some (snd (buffer_produced b1 (length str)))
      })"

definition global_lines :: "stats_server \<Rightarrow> bytes list" where
  "global_lines server =
     [''global bytes_recv_udp gauge '' @ decimal (unat (bytes_recv_udp server)) @ [NL],
      ''global bytes_recv_tcp gauge '' @ decimal (unat (bytes_recv_tcp server)) @ [NL],
      ''global total_connections gauge '' @ decimal (unat (total_connections server)) @ [NL],
      ''global last_reload timestamp '' @ decimal (nat (last_reload server mod 2 ^ 64)) @ [NL],
      ''global malformed_lines gauge '' @ decimal (unat (malformed_lines server)) @ [NL]]"

definition backend_lines :: "stats_backend \<Rightarrow> bytes list" where
  "backend_lines b =
     (let pre = ''backend:'' @ bk_key b @ '' '' in
      [pre @ ''bytes_queued gauge '' @ decimal (unat (bytes_queued b)) @ [NL],
       pre @ ''bytes_sent gauge '' @ decimal (unat (bytes_sent b)) @ [NL],
       pre @ ''relayed_lines gauge '' @ decimal (unat (relayed_lines b)) @ [NL],
       pre @ ''dropped_lines gauge '' @ decimal (unat (dropped_lines b)) @ [NL],
       pre @ ''failing boolean '' @ decimal_int (bk_failing b) @ [NL]])"

fun all_backend_lines :: "(nat \<Rightarrow> stats_backend option) \<Rightarrow> nat list \<Rightarrow> bytes list option" where
  "all_backend_lines heap [] = Some []"
| "all_backend_lines heap (p # ps) =
     do { b \<leftarrow> heap p; rest \<leftarrow> all_backend_lines heap ps; Some (backend_lines b @ rest) }"

fun print_all :: "bytes list \<Rightarrow> buffer \<Rightarrow> buffer option" where
  "print_all [] b = Some b"
| "print_all (t # ts) b = do { b1 \<leftarrow> buffer_print b t; print_all ts b1 }"

text \<open>
  The loop that sends the report: the bytes given to the socket are the result. \<open>send\<close> never reports
  more bytes than it was given.
\<close>

partial_function (option) send_report :: "(nat \<Rightarrow> int) \<Rightarrow> nat \<Rightarrow> buffer \<Rightarrow> bytes \<Rightarrow> (buffer \<times> bytes) option" where
  "send_report sends k b out =
     (if buffer_datacount b > 0 then
        do {
          d \<leftarrow> buffer_read_head b (buffer_datacount b);
          (let bytes_sent = min (sends k) (int (buffer_datacount b)) in
           if bytes_sent \<le> 0 then Some (b, out)
           else send_report sends (Suc k) (snd (buffer_consume b (nat bytes_sent)))
                  (out @ take (nat bytes_sent) d))
        }
      else Some (b, out))"

definition stats_send_statistics :: "line_env \<Rightarrow> int \<Rightarrow> stats_server \<Rightarrow> stats_server option" where
  "stats_send_statistics e sd server =
     do {
       response \<leftarrow> create_buffer (r_status e) MAX_UDP_LENGTH;
       case response of
         None \<Rightarrow> Some server
       | Some b0 \<Rightarrow>
           do {
             bl \<leftarrow> all_backend_lines (s_backends server) (backend_list server);
             b1 \<leftarrow> print_all (global_lines server @ bl @ [[NL]]) b0;
             (b2, out) \<leftarrow> send_report (r_sends e) 0 b1 [];
             _ \<leftarrow> delete_buffer b2;
             Some (server\<lparr>s_replies := (sd, out) # s_replies server\<rparr>)
           }
     }"

text \<open>
  The body of the loop of \<open>stats_process_lines\<close> on one line: it is copied to \<open>line_buffer\<close> with a
  newline and a terminator, then answered or relayed. Only the bytes written for this line are
  readable in the model.
\<close>

definition count_line :: "stats_server \<Rightarrow> stats_server" where
  "count_line server = server\<lparr>s_lines := Suc (s_lines server)\<rparr>"

definition handle_line :: "(nat \<Rightarrow> line_env) \<Rightarrow> int \<Rightarrow> bytes \<Rightarrow> stats_server \<Rightarrow> (int \<times> stats_server) option" where
  "handle_line R sd l server0 =
     (let e = R (s_lines server0); server = count_line server0 in
      if length l + 2 \<le> MAX_UDP_LENGTH + 2 then
        (let line_buffer = l @ [NL, NUL] in
         if length l = 6 \<and> c_str line_buffer = ''status'' @ [NL]
         then do { server' \<leftarrow> stats_send_statistics e sd server; Some (0, server') }
         else do {
           (rc, server') \<leftarrow> stats_relay_line e line_buffer (length l) server;
           Some (if rc \<noteq> 0 then 1 else 0, server')
         })
      else None)"

partial_function (option) stats_process_lines ::
    "(nat \<Rightarrow> line_env) \<Rightarrow> stats_session \<Rightarrow> stats_server \<Rightarrow> (int \<times> stats_session \<times> stats_server) option" where
  "stats_process_lines R session server =
     (let datasize = buffer_datacount (ss_buffer session) in
      if datasize = 0 then Some (0, session, server)
      else do {
        d \<leftarrow> buffer_read_head (ss_buffer session) datasize;
        (case index_of NL d of
           None \<Rightarrow> Some (0, session, server)
         | Some len \<Rightarrow>
             do {
               (rc, server') \<leftarrow> handle_line R (ss_sd session) (take len d) server;
               if rc \<noteq> 0 then Some (1, session, server')
               else stats_process_lines R
                      (session\<lparr>ss_buffer := snd (buffer_consume (ss_buffer session) (len + 1))\<rparr>) server'
             })
      })"

definition stats_session_destroy :: "stats_session \<Rightarrow> unit option" where
  "stats_session_destroy session = do { _ \<leftarrow> buffer_destroy (ss_buffer session); Some () }"

text \<open>Making room at the start of \<open>stats_recv\<close>.\<close>

definition recv_room :: "allocator \<Rightarrow> buffer \<Rightarrow> (int \<times> buffer) option" where
  "recv_room A b =
     (if buffer_spacecount b = 0 then
        do {
          (_, b1) \<leftarrow> buffer_realign b;
          if buffer_spacecount b1 = 0 then buffer_expand A b1 else Some (0, b1)
        }
      else Some (0, b))"

text \<open>
  \<open>stats_recv\<close>; \<open>recv\<close> writes the received bytes at the tail of the buffer. The session is gone
  when the result is 1.
\<close>

definition recv_failed :: "stats_session \<Rightarrow> stats_server \<Rightarrow> (int \<times> stats_session option \<times> stats_server) option" where
  "recv_failed session server = do { _ \<leftarrow> stats_session_destroy session; Some (1, None, server) }"

definition stats_recv ::
    "allocator \<Rightarrow> (nat \<Rightarrow> line_env) \<Rightarrow> recv_result \<Rightarrow> stats_session \<Rightarrow> stats_server \<Rightarrow>
     (int \<times> stats_session option \<times> stats_server) option" where
  "stats_recv A R r session server =
     do {
       (rc, b) \<leftarrow> recv_room A (ss_buffer session);
       let session1 = session\<lparr>ss_buffer := b\<rparr>;
       if rc \<noteq> 0 then recv_failed session1 server
       else case r of
         Recv_error \<Rightarrow> recv_failed session1 server
       | Recv_eof \<Rightarrow> recv_failed session1 server
       | Recv_data d \<Rightarrow>
           do {
             b1 \<leftarrow> buffer_write_tail b d;
             let server1 = server\<lparr>bytes_recv_tcp := bytes_recv_tcp server + of_nat (length d)\<rparr>;
             let (rc2, b2) = buffer_produced b1 (length d);
             let session2 = session1\<lparr>ss_buffer := b2\<rparr>;
             if rc2 \<noteq> 0 then recv_failed session2 server1
             else do {
               (rc3, session3, server3) \<leftarrow> stats_process_lines R session2 server1;
               if rc3 \<noteq> 0 then recv_failed session3 server3
               else Some (0, Some session3, server3)
             }
           }
     }"

text \<open>The loop of \<open>stats_udp_recv\<close> from an offset on; \<open>buf\<close> holds the bytes read.\<close>

function udp_lines ::
    "(nat \<Rightarrow> line_env) \<Rightarrow> bytes \<Rightarrow> nat \<Rightarrow> stats_server \<Rightarrow> (int \<times> stats_server) option" where
  "udp_lines R buf offset ss =
     (if offset < length buf then
        (let head = drop offset buf;
             line_len = (case index_of NL head of None \<Rightarrow> length head | Some i \<Rightarrow> i);
             line_buffer = take line_len head @ [NL, NUL]
         in if line_len + 2 \<le> MAX_UDP_LENGTH + 2 then
              do {
                (rc, ss') \<leftarrow> stats_relay_line (R (s_lines ss)) line_buffer line_len (count_line ss);
                if rc \<noteq> 0 then Some (1, ss') else udp_lines R buf (offset + line_len + 1) ss'
              }
            else None)
      else Some (0, ss))"
  by pat_completeness auto
termination
  by (relation "measure (\<lambda>(R, buf, offset, ss). length buf - offset)") auto

declare udp_lines.simps [simp del]

text \<open>
  \<open>stats_udp_recv\<close>: the result of \<open>read\<close> into a buffer of \<open>MAX_UDP_LENGTH\<close> bytes. Both error branches
  on \<open>errno\<close> only differ in what they log.
\<close>

definition stats_udp_recv ::
    "(nat \<Rightarrow> line_env) \<Rightarrow> recv_result \<Rightarrow> stats_server \<Rightarrow> (int \<times> stats_server) option" where
  "stats_udp_recv R r ss =
     (case r of
        Recv_eof \<Rightarrow> Some (1, ss)
      | Recv_error \<Rightarrow> Some (1, ss)
      | Recv_data d \<Rightarrow>
          udp_lines R d 0 (ss\<lparr>bytes_recv_udp := bytes_recv_udp ss + of_nat (length d)\<rparr>))"

text \<open>
  A write event of a backend's client: the client runs, and the sent callback, when it is
  \<open>stats_sent\<close>, gets the number of bytes of each \<open>EVENT_SENT\<close> it reported.
\<close>

definition backend_callbacks :: "ext_call list \<Rightarrow> stats_backend \<Rightarrow> stats_backend" where
  "backend_callbacks calls backend =
     foldr (\<lambda>e b. case e of
        Callback ev d \<Rightarrow>
          if ev = EVENT_SENT \<and> callback_sent (bk_client b) = Client_callback then stats_sent b (length d) else b
      | _ \<Rightarrow> b) calls backend"

definition backend_write_event :: "bool \<Rightarrow> nat option \<Rightarrow> int \<Rightarrow> stats_backend \<Rightarrow> stats_backend option" where
  "backend_write_event ev_write sent now backend =
     do {
       client \<leftarrow> tcpclient_write_event ev_write sent now (bk_client backend);
       let new = take (length (c_trace client) - length (c_trace (bk_client backend))) (c_trace client);
       Some ((backend_callbacks new backend)\<lparr>bk_client := client\<rparr>)
     }"

section \<open>Sending to a backend\<close>

lemma send_to_backend_ok:
  assumes ok: "backend_ok b" and len: "len + 1 \<le> length line"
  shows "\<exists>rc b'. send_to_backend e line len b = Some (rc, b') \<and> backend_ok b' \<and> bk_key b' = bk_key b \<and>
    rc \<in> {0, 2} \<and> sent_bytes (c_trace (bk_client b')) = sent_bytes (c_trace (bk_client b)) \<and>
    bytes_sent b' = bytes_sent b \<and>
    buffer_data (c_queue (bk_client b')) =
      buffer_data (c_queue (bk_client b)) @ (if rc = 0 then take (len + 1) line else []) \<and>
    relayed_lines b' = relayed_lines b + (if rc = 0 then 1 else 0) \<and>
    dropped_lines b' = dropped_lines b + (if rc = 0 then 0 else 1) \<and>
    (bk_failing b' = 0 \<longleftrightarrow> rc = 0)"
proof -
  let ?c = "bk_client b"
  from ok have inv: "client_inv ?c" and cb: "callback_sent ?c = Client_callback"
    and bal: "bytes_queued b = bytes_sent b + of_nat (length (buffer_data (c_queue ?c)))"
    by (simp_all add: backend_ok_def)
  obtain rc q' where r: "tcpclient_sendall (r_queue e) (r_connect e) ?c line (len + 1) =
      Some (rc, after_send (r_connect e) ?c rc q')"
    using tcpclient_sendall_cases [OF _ _ len, of ?c "r_queue e" "r_connect e"] client_inv_queue [OF inv]
    by auto
  define c' where "c' = after_send (r_connect e) ?c rc q'"
  have i: "client_inv c'" "sent_bytes (c_trace c') = sent_bytes (c_trace ?c)"
      "buffer_data (c_queue c') = buffer_data (c_queue ?c) @ (if rc = 0 then take (len + 1) line else [])"
    using tcpclient_sendall_inv [OF inv len r] by (simp_all add: c'_def)
  have "callback_sent c' = Client_callback"
    using cb by (simp add: c'_def after_send_def frame_simps Let_def)
  note facts = this i bal len r [folded c'_def]
  show ?thesis
  proof (cases "rc = 0")
    case True
    with facts show ?thesis by (simp add: send_to_backend_def backend_ok_def algebra_simps)
  next
    case False
    let ?b = "b\<lparr>bk_client := c', dropped_lines := dropped_lines b + 1,
                bk_failing := (if bk_failing b = 0 then 1 else bk_failing b)\<rparr>"
    have "send_to_backend e line len b = Some (2, ?b)" using facts False by (simp add: send_to_backend_def)
    with facts False show ?thesis by (intro exI [of _ 2] exI [of _ ?b]) (simp add: backend_ok_def)
  qed
qed

section \<open>Relaying a line\<close>

text \<open>
  What the server needs of its parser and validator is stated by the interfaces \<open>key_parser\<close> and
  \<open>line_validator\<close>; both protocols provide them.
\<close>

definition speaks :: "stats_server \<Rightarrow> char \<Rightarrow> (bytes \<Rightarrow> bool) \<Rightarrow> bool" where
  "speaks s delim accepts \<longleftrightarrow>
     key_parser (s_parser s) delim \<and>
     (\<exists>v. s_validator s = Some v \<and> line_validator v accepts)"

lemma speaks_statsd:
  "s_parser s = protocol_parser_statsd \<Longrightarrow> s_validator s = Some validate_statsd \<Longrightarrow> speaks s (CHR '':'') statsd_line"
  using statsd_key.key_parser_axioms statsd_check.line_validator_axioms by (simp add: speaks_def)

lemma speaks_carbon:
  "s_parser s = protocol_parser_carbon \<Longrightarrow> s_validator s = Some validate_carbon \<Longrightarrow> speaks s (CHR '' '') carbon_line"
  using carbon_key.key_parser_axioms carbon_check.line_validator_axioms by (simp add: speaks_def)

text \<open>The key of a line.\<close>

definition line_key :: "char \<Rightarrow> bytes \<Rightarrow> bytes option" where
  "line_key delim l =
     (case cut_at delim l of None \<Rightarrow> None | Some (k, _) \<Rightarrow> if k = [] then None else Some k)"

text \<open>
  A line the fixed-size buffers can take: no \<open>NUL\<close>, at most \<open>MAX_UDP_LENGTH\<close> bytes, and a key that
  fits \<open>key_buffer\<close> with its terminator. The memory of the validator's copy, which is not checked,
  must be granted.
\<close>

definition good_line :: "char \<Rightarrow> bytes \<Rightarrow> bool" where
  "good_line delim l \<longleftrightarrow>
     NUL \<notin> set l \<and> length l \<le> MAX_UDP_LENGTH \<and>
     (\<forall>k. line_key delim l = Some k \<longrightarrow> length k < KEY_BUFFER_SIZE)"

definition line_env_ok :: "line_env \<Rightarrow> bool" where
  "line_env_ok e \<longleftrightarrow> (\<forall>n \<le> MAX_UDP_LENGTH + 1. malloc (r_validate e) n \<noteq> None)"

text \<open>The backend a key is for.\<close>

definition target :: "stats_server \<Rightarrow> bytes \<Rightarrow> nat option" where
  "target s key =
     (case s_ring s of
        None \<Rightarrow> None
      | Some r \<Rightarrow>
          if ring_shards r = [] then None
          else Some (ring_shards r ! shard_of (length (ring_shards r)) key))"

definition ring_small :: "stats_server \<Rightarrow> bool" where
  "ring_small s \<longleftrightarrow> (\<forall>r. s_ring s = Some r \<longrightarrow> length (ring_shards r) < 2 ^ 32)"

lemma target_live:
  assumes "server_inv s" "ring_small s" "length key < 2 ^ 32" "target s key = Some p"
  shows "\<exists>b. s_backends s p = Some b \<and> backend_ok b"
proof -
  from assms(1) obtain r where r: "s_ring s = Some r" "set (ring_shards r) = set (backend_list s)"
    unfolding server_inv_def by blast
  have n: "ring_shards r \<noteq> []" "length (ring_shards r) < 2 ^ 32"
      "p = ring_shards r ! shard_of (length (ring_shards r)) key"
    using assms(2,4) r(1) by (auto simp: target_def ring_small_def split: if_splits)
  then have "p \<in> set (ring_shards r)" using shard_of_less [OF assms(3), of "length (ring_shards r)"] by auto
  with r(2) assms(1) show ?thesis unfolding server_inv_def pool_ok_def by blast
qed

lemma choose_target:
  assumes "server_inv s" "ring_small s" "length key < 2 ^ 32"
  shows "\<exists>choice. hashring_choose (s_ring s) key = Some choice \<and> target s key = map_option fst choice"
proof -
  from assms(1,2) obtain r where r: "s_ring s = Some r" "ring_wf r" "length (ring_shards r) < 2 ^ 32"
    by (auto simp: server_inv_def ring_small_def)
  show ?thesis
  proof (cases "ring_shards r = []")
    case True
    with r hashring_choose_empty [OF r(2) True] show ?thesis by (simp add: target_def)
  next
    case False
    with r hashring_choose_eq [OF r(2) False r(3) assms(3)] show ?thesis by (simp add: target_def)
  qed
qed

lemma speaks_parse:
  assumes "speaks s delim accepts"
  shows "s_parser s (Some (l @ rest)) (length l) =
    Some (case line_key delim l of None \<Rightarrow> 0 | Some k \<Rightarrow> length k)"
proof -
  have "key_parser (s_parser s) delim" using assms by (simp add: speaks_def)
  from key_parser.parse_law [OF this, of "length l" "l @ rest"] show ?thesis
    by (auto simp: line_key_def cut_at_def split: option.splits dest: index_of_less)
qed

lemma line_key_prefix: "line_key delim l = Some k \<Longrightarrow> k \<noteq> [] \<and> (\<exists>r. l = k @ delim # r \<and> delim \<notin> set k)"
  by (auto simp: line_key_def cut_at_Some split: option.splits if_splits)

text \<open>The four ways a line can go.\<close>

lemma relay_line_eq:
  assumes inv: "server_inv s" "ring_small s" and sp: "speaks s delim accepts"
    and l: "good_line delim l" and e: "line_env_ok e"
  shows "stats_relay_line e (l @ [NL, NUL]) (length l) s =
    (if enable_validation (s_config s) \<and> \<not> accepts l then Some (1, s)
     else case line_key delim l of
       None \<Rightarrow> Some (1, s\<lparr>malformed_lines := malformed_lines s + 1\<rparr>)
     | Some k \<Rightarrow>
         (case target s k of
            None \<Rightarrow> Some (1, s)
          | Some p \<Rightarrow>
              do {
                b \<leftarrow> s_backends s p;
                (rc, b') \<leftarrow> send_to_backend e (l @ [NL, NUL]) (length l) b;
                Some (rc, s\<lparr>s_backends := (s_backends s)(p \<mapsto> b')\<rparr>)
              }))"
proof -
  obtain v where v: "s_validator s = Some v" "line_validator v accepts"
    using sp by (auto simp: speaks_def)
  have "v (r_validate e) (l @ [NL, NUL]) (length l) = Some (if accepts l then 0 else 1)"
    using line_validator.verdict_exact [OF v(2), of l "r_validate e" "[NL, NUL]"] l e
    by (simp add: good_line_def line_env_ok_def)
  note val = this v(1)
  show ?thesis
  proof (cases "line_key delim l")
    case None
    with val speaks_parse [OF sp, of l "[NL, NUL]"] show ?thesis by (simp add: stats_relay_line_def)
  next
    case (Some k)
    obtain r where k: "k \<noteq> []" "l = k @ delim # r" using line_key_prefix [OF Some] by blast
    have small: "length k + 1 \<le> KEY_BUFFER_SIZE" "NUL \<notin> set k" "length k < 2 ^ 32"
      using l Some k by (auto simp: good_line_def KEY_BUFFER_SIZE_def)
    obtain choice where ch: "hashring_choose (s_ring s) k = Some choice" "target s k = map_option fst choice"
      using choose_target [OF inv small(3)] by blast
    have parse: "s_parser s (Some (l @ [NL, NUL])) (length l) = Some (length k)"
      using speaks_parse [OF sp, of l "[NL, NUL]"] Some by simp
    have load: "mload (Block (l @ [NL, NUL])) 0 (length k) = Some k" using k by simp
    have "c_str (k @ [NUL]) = k" using small(2) by simp
    moreover have "\<not> ring_freed s" using inv by (simp add: server_inv_def)
    ultimately show ?thesis
      using val parse load ch small(1) k(1) Some
      by (cases choice) (auto simp: stats_relay_line_def)
  qed
qed

text \<open>Replacing a backend by one with the same key keeps the server in order.\<close>

lemma server_inv_update:
  assumes "server_inv s" "s_backends s p = Some b" "backend_ok b'" "bk_key b' = bk_key b"
  shows "server_inv (s\<lparr>s_backends := (s_backends s)(p \<mapsto> b')\<rparr>)"
proof -
  have pool: "pool_ok s" using assms(1) by (simp add: server_inv_def)
  have "dom ((s_backends s)(p \<mapsto> b')) = dom (s_backends s)" using assms(2) by auto
  moreover have "q = q'" if "((s_backends s)(p \<mapsto> b')) q = Some c" "((s_backends s)(p \<mapsto> b')) q' = Some c'"
      "bk_key c = bk_key c'" for q q' c c'
  proof -
    have "\<exists>d. s_backends s q = Some d \<and> bk_key d = bk_key c" "\<exists>d. s_backends s q' = Some d \<and> bk_key d = bk_key c'"
      using that(1,2) assms(2,4) by (auto split: if_splits)
    with pool that(3) show ?thesis unfolding pool_ok_def by metis
  qed
  moreover have "backend_ok c" if "((s_backends s)(p \<mapsto> b')) q = Some c" for q c
    using that pool assms(3) unfolding pool_ok_def by (auto split: if_splits)
  ultimately have "pool_ok (s\<lparr>s_backends := (s_backends s)(p \<mapsto> b')\<rparr>)"
    using pool unfolding pool_ok_def by (simp del: fun_upd_apply)
  then show ?thesis using assms(1) by (simp add: server_inv_def)
qed

text \<open>Fields the invariant does not look at.\<close>

lemma server_inv_frame [frame_simps]:
  "server_inv (s\<lparr>malformed_lines := x\<rparr>) = server_inv s"
  "server_inv (s\<lparr>s_lines := n\<rparr>) = server_inv s"
  "server_inv (s\<lparr>s_replies := rs\<rparr>) = server_inv s"
  "server_inv (s\<lparr>bytes_recv_tcp := x\<rparr>) = server_inv s"
  "server_inv (s\<lparr>bytes_recv_udp := x\<rparr>) = server_inv s"
  "server_inv (s\<lparr>total_connections := x\<rparr>) = server_inv s"
  "server_inv (count_line s) = server_inv s"
  by (simp_all add: server_inv_def pool_ok_def count_line_def)

text \<open>What a server must be like to serve a protocol, and that handling a line keeps it so.\<close>

definition serving :: "char \<Rightarrow> (bytes \<Rightarrow> bool) \<Rightarrow> stats_server \<Rightarrow> bool" where
  "serving delim accepts s \<longleftrightarrow> server_inv s \<and> ring_small s \<and> speaks s delim accepts"

lemma serving_frame [frame_simps]:
  "serving delim accepts (s\<lparr>malformed_lines := x\<rparr>) = serving delim accepts s"
  "serving delim accepts (s\<lparr>s_lines := n\<rparr>) = serving delim accepts s"
  "serving delim accepts (s\<lparr>s_replies := rs\<rparr>) = serving delim accepts s"
  "serving delim accepts (s\<lparr>bytes_recv_tcp := x\<rparr>) = serving delim accepts s"
  "serving delim accepts (s\<lparr>bytes_recv_udp := x\<rparr>) = serving delim accepts s"
  "serving delim accepts (s\<lparr>total_connections := x\<rparr>) = serving delim accepts s"
  "serving delim accepts (count_line s) = serving delim accepts s"
  by (simp_all add: serving_def frame_simps ring_small_def speaks_def count_line_def)

lemma serving_update:
  "serving delim accepts s \<Longrightarrow> s_backends s p = Some b \<Longrightarrow> backend_ok b' \<Longrightarrow> bk_key b' = bk_key b \<Longrightarrow>
   serving delim accepts (s\<lparr>s_backends := (s_backends s)(p \<mapsto> b')\<rparr>)"
  using server_inv_update [of s p b b'] by (simp add: serving_def ring_small_def speaks_def)

lemma good_key:
  assumes "good_line delim l" "line_key delim l = Some k"
  shows "length k < KEY_BUFFER_SIZE" "length k < 2 ^ 32"
proof -
  show "length k < KEY_BUFFER_SIZE" using assms by (simp add: good_line_def)
  then show "length k < 2 ^ 32" by (simp add: KEY_BUFFER_SIZE_def)
qed

text \<open>Relaying a good line always returns and keeps the server in order.\<close>

lemma relay_line_cases:
  assumes s: "serving delim accepts s" and l: "good_line delim l" and e: "line_env_ok e"
  obtains (invalid) "stats_relay_line e (l @ [NL, NUL]) (length l) s = Some (1, s)"
      "enable_validation (s_config s)" "\<not> accepts l"
  | (malformed) "stats_relay_line e (l @ [NL, NUL]) (length l) s =
        Some (1, s\<lparr>malformed_lines := malformed_lines s + 1\<rparr>)"
      "enable_validation (s_config s) \<longrightarrow> accepts l" "line_key delim l = None"
  | (no_shard) k where "stats_relay_line e (l @ [NL, NUL]) (length l) s = Some (1, s)"
      "enable_validation (s_config s) \<longrightarrow> accepts l" "line_key delim l = Some k" "target s k = None"
  | (sent) k p b rc b' where "enable_validation (s_config s) \<longrightarrow> accepts l" "line_key delim l = Some k"
      "target s k = Some p" "s_backends s p = Some b" "backend_ok b"
      "send_to_backend e (l @ [NL, NUL]) (length l) b = Some (rc, b')" "backend_ok b'" "bk_key b' = bk_key b"
      "stats_relay_line e (l @ [NL, NUL]) (length l) s = Some (rc, s\<lparr>s_backends := (s_backends s)(p \<mapsto> b')\<rparr>)"
proof -
  have inv: "server_inv s" "ring_small s" and sp: "speaks s delim accepts"
    using s by (simp_all add: serving_def)
  note eq = relay_line_eq [OF inv sp l e]
  show ?thesis
  proof (cases "enable_validation (s_config s) \<and> \<not> accepts l")
    case True
    with eq show ?thesis by (intro invalid) simp_all
  next
    case ok: False
    show ?thesis
    proof (cases "line_key delim l")
      case None
      with eq ok show ?thesis by (intro malformed) auto
    next
      case (Some k)
      show ?thesis
      proof (cases "target s k")
        case None
        with eq ok Some show ?thesis by (intro no_shard) auto
      next
        case (Some p)
        obtain b where b: "s_backends s p = Some b" "backend_ok b"
          using target_live [OF inv good_key(2) [OF l \<open>line_key delim l = Some k\<close>] Some] by blast
        obtain rc b' where b': "send_to_backend e (l @ [NL, NUL]) (length l) b = Some (rc, b')"
            "backend_ok b'" "bk_key b' = bk_key b"
          using send_to_backend_ok [OF b(2), of "length l" "l @ [NL, NUL]" e] by auto
        with eq ok b Some \<open>line_key delim l = Some k\<close> show ?thesis by (intro sent) auto
      qed
    qed
  qed
qed

lemma relay_line_total:
  assumes "serving delim accepts s" "good_line delim l" "line_env_ok e"
  shows "\<exists>rc s'. stats_relay_line e (l @ [NL, NUL]) (length l) s = Some (rc, s') \<and> serving delim accepts s'"
  using assms
proof (cases rule: relay_line_cases)
  case (sent k p b rc b')
  with serving_update [OF assms(1) sent(4,7,8)] show ?thesis by simp
qed (use assms(1) in \<open>simp_all add: frame_simps\<close>)

section \<open>An example server\<close>

definition good_line_env :: line_env where
  "good_line_env = \<lparr>r_validate = (\<lambda>_. Some []), r_queue = (\<lambda>_. Some []), r_connect = good_env,
     r_status = (\<lambda>_. Some []), r_sends = (\<lambda>_. 0)\<rparr>"

lemma good_line_env_ok: "line_env_ok good_line_env"
  by (simp add: line_env_ok_def good_line_env_def MAX_UDP_LENGTH_def)

lemma example_serving:
  assumes "create_example protocol_parser_statsd (Some validate_statsd) = Some (Some s)"
  shows "serving (CHR '':'') statsd_line s" "\<exists>p. target s key = Some p"
    "enable_validation (s_config s)"
proof -
  note s = example_server_inv [OF assms]
  obtain r where r: "s_ring s = Some r" "length (ring_shards r) = 2" using s(5) by blast
  then have "ring_small s" by (simp add: ring_small_def)
  with s speaks_statsd [of s] show "serving (CHR '':'') statsd_line s" by (simp add: serving_def)
  have "ring_shards r \<noteq> []" using r(2) by auto
  with r(1) show "\<exists>p. target s key = Some p" by (simp add: target_def)
  show "enable_validation (s_config s)" by (simp add: s(4) ring_config_def example_config_def)
qed

lemma example_statsd_server:
  "\<exists>s. create_example protocol_parser_statsd (Some validate_statsd) = Some (Some s)"
  by (rule example_server)

lemma example_line: "good_line (CHR '':'') ''a:1|c''" "line_key (CHR '':'') ''a:1|c'' = Some ''a''"
    "statsd_line ''a:1|c''"
proof -
  show k: "line_key (CHR '':'') ''a:1|c'' = Some ''a''" by (simp add: line_key_def cut_at_def)
  then show "good_line (CHR '':'') ''a:1|c''"
    by (simp add: good_line_def MAX_UDP_LENGTH_def KEY_BUFFER_SIZE_def)
  have "statsd_accepts ''a:1|c''" by code_simp
  then show "statsd_line ''a:1|c''" by (simp only: statsd_accepts_iff)
qed

section \<open>Properties of relaying\<close>

text \<open>C6: a valid line whose key hashes to backend \<open>p\<close> changes that backend and nothing else. Either
  the line and its newline are at the end of its send queue and it is counted as relayed, or the
  queue is as before and the line is counted as dropped; the backend's byte counters balance.\<close>

theorem stats_relay_line_routes:
  assumes "serving delim accepts s" "good_line delim l" "line_env_ok e"
    and "enable_validation (s_config s) \<longrightarrow> accepts l" "line_key delim l = Some k" "target s k = Some p"
  shows "\<exists>rc b b'. s_backends s p = Some b \<and> backend_ok b' \<and>
    stats_relay_line e (l @ [NL, NUL]) (length l) s = Some (rc, s\<lparr>s_backends := (s_backends s)(p \<mapsto> b')\<rparr>) \<and>
    (if rc = 0 then buffer_data (c_queue (bk_client b')) = buffer_data (c_queue (bk_client b)) @ l @ [NL] \<and>
        relayed_lines b' = relayed_lines b + 1 \<and> dropped_lines b' = dropped_lines b \<and> bk_failing b' = 0
     else rc = 2 \<and> buffer_data (c_queue (bk_client b')) = buffer_data (c_queue (bk_client b)) \<and>
        relayed_lines b' = relayed_lines b \<and> dropped_lines b' = dropped_lines b + 1 \<and> bk_failing b' \<noteq> 0)"
  using assms(1-3)
proof (cases rule: relay_line_cases)
  case (sent k' p' b rc b')
  then have p: "p' = p" using assms by simp
  have len: "length l + 1 \<le> length (l @ [NL, NUL])" by simp
  from send_to_backend_ok [OF sent(5) len, of e] sent(6) have
    "rc \<in> {0, 2}"
    "buffer_data (c_queue (bk_client b')) =
       buffer_data (c_queue (bk_client b)) @ (if rc = 0 then take (length l + 1) (l @ [NL, NUL]) else [])"
    "relayed_lines b' = relayed_lines b + (if rc = 0 then 1 else 0)"
    "dropped_lines b' = dropped_lines b + (if rc = 0 then 0 else 1)" "bk_failing b' = 0 \<longleftrightarrow> rc = 0"
    by auto
  then show ?thesis using sent p by (intro exI [of _ rc] exI [of _ b] exI [of _ b']) auto
qed (use assms in auto)

theorem stats_relay_line_routes_witness:
  "\<exists>s p b rc b'. create_example protocol_parser_statsd (Some validate_statsd) = Some (Some s) \<and>
     target s ''a'' = Some p \<and> s_backends s p = Some b \<and>
     stats_relay_line good_line_env (''a:1|c'' @ [NL, NUL]) (length ''a:1|c'') s =
       Some (rc, s\<lparr>s_backends := (s_backends s)(p \<mapsto> b')\<rparr>) \<and> backend_ok b'"
proof -
  obtain s where s: "create_example protocol_parser_statsd (Some validate_statsd) = Some (Some s)"
    using example_statsd_server by blast
  obtain p where p: "target s ''a'' = Some p" using example_serving(2) [OF s] by blast
  have v: "enable_validation (s_config s) \<longrightarrow> statsd_line ''a:1|c''" using example_line(3) by simp
  from stats_relay_line_routes [OF example_serving(1) [OF s] example_line(1) good_line_env_ok v example_line(2) p]
    s p show ?thesis by blast
qed

text \<open>C31: a line the validator refuses is dropped without any trace in the server; a line without a
  key is counted in \<open>malformed_lines\<close> and nothing else changes. Both report an error.\<close>

theorem stats_relay_line_rejects:
  assumes "serving delim accepts s" "good_line delim l" "line_env_ok e"
  shows "(enable_validation (s_config s) \<and> \<not> accepts l \<longrightarrow>
      stats_relay_line e (l @ [NL, NUL]) (length l) s = Some (1, s)) \<and>
    ((enable_validation (s_config s) \<longrightarrow> accepts l) \<and> line_key delim l = None \<longrightarrow>
      stats_relay_line e (l @ [NL, NUL]) (length l) s =
        Some (1, s\<lparr>malformed_lines := malformed_lines s + 1\<rparr>))"
  using assms by (cases rule: relay_line_cases) auto

theorem stats_relay_line_rejects_witness:
  "\<exists>s. create_example protocol_parser_statsd (Some validate_statsd) = Some (Some s) \<and>
     stats_relay_line good_line_env (''a'' @ [NL, NUL]) (length ''a'') s = Some (1, s)"
proof -
  obtain s where s: "create_example protocol_parser_statsd (Some validate_statsd) = Some (Some s)"
    using example_statsd_server by blast
  have l: "good_line (CHR '':'') ''a''"
    by (simp add: good_line_def MAX_UDP_LENGTH_def line_key_def cut_at_def)
  have "\<not> statsd_accepts ''a''" by code_simp
  then have "\<not> statsd_line ''a''" by (simp only: statsd_accepts_iff not_False_eq_True)
  with stats_relay_line_rejects [OF example_serving(1) [OF s] l good_line_env_ok] example_serving(3) [OF s] s
  show ?thesis by blast
qed



end
