(* ===== verification/Receiving.thy ===== *)
theory Receiving
  imports Stats
begin

text \<open>
  The two receivers of \<open>src/src/stats.c\<close> against their specification. A byte stream is a sequence of
  lines ended by newlines and a rest; the specification of a receiver is a fold over the lines
  (\<open>run_lines\<close>), stated over any line handler (locale \<open>line_handler\<close>) and interpreted on the
  relay's own handlers. The theory shows that \<open>stats_process_lines\<close> and \<open>stats_udp_recv\<close> are that
  fold, that they return on all inputs the fixed-size buffers can take, that the boundaries
  between reads of a TCP stream do not matter, and that an overlong TCP line overruns its
  buffer.
\<close>

section \<open>Lines of a stream\<close>

function split_lines :: "bytes \<Rightarrow> bytes list \<times> bytes" where
  "split_lines xs =
     (case cut_at NL xs of
        None \<Rightarrow> ([], xs)
      | Some (l, rest) \<Rightarrow> (case split_lines rest of (ls, r) \<Rightarrow> (l # ls, r)))"
  by pat_completeness auto
termination
  by (relation "measure length") (auto simp: cut_at_Some)

declare split_lines.simps [simp del]

lemma split_lines_rest [simp]: "NL \<notin> set xs \<Longrightarrow> split_lines xs = ([], xs)"
  by (simp add: split_lines.simps)

lemma split_lines_line [simp]:
  "NL \<notin> set l \<Longrightarrow> split_lines (l @ NL # rest) = (l # fst (split_lines rest), snd (split_lines rest))"
  by (simp add: split_lines.simps [of "l @ NL # rest"] split: prod.split)

lemma split_lines_cases:
  obtains (rest) "NL \<notin> set xs" | (line) l r where "xs = l @ NL # r" "NL \<notin> set l"
  by (metis split_list_first)

text \<open>Splitting is a bijection: the lines and the rest, joined with newlines, are the stream.\<close>

lemma join_split_lines:
  "concat (map (\<lambda>l. l @ [NL]) (fst (split_lines xs))) @ snd (split_lines xs) = xs \<and>
   NL \<notin> set (snd (split_lines xs)) \<and> (\<forall>l \<in> set (fst (split_lines xs)). NL \<notin> set l)"
proof (induction xs rule: length_induct)
  case (1 xs)
  show ?case
  proof (cases xs rule: split_lines_cases)
    case (line l r)
    with 1 [rule_format, of r] show ?thesis by simp
  qed simp
qed

lemma split_lines_append:
  "split_lines (xs @ ys) =
     (fst (split_lines xs) @ fst (split_lines (snd (split_lines xs) @ ys)),
      snd (split_lines (snd (split_lines xs) @ ys)))"
proof (induction xs rule: length_induct)
  case (1 xs)
  show ?case
  proof (cases xs rule: split_lines_cases)
    case (line l r)
    with 1 [rule_format, of r] show ?thesis by simp
  qed simp
qed

section \<open>Running a handler over lines\<close>

text \<open>Handle the lines in order and stop at the first error.\<close>

fun run_lines :: "(bytes \<Rightarrow> 's \<Rightarrow> (int \<times> 's) option) \<Rightarrow> bytes list \<Rightarrow> 's \<Rightarrow> (int \<times> 's) option" where
  "run_lines handle [] s = Some (0, s)"
| "run_lines handle (l # ls) s =
     do { (rc, s') \<leftarrow> handle l s; if rc \<noteq> 0 then Some (1, s') else run_lines handle ls s' }"

lemma run_lines_append:
  "run_lines handle (ls @ ms) s =
     do { (rc, s') \<leftarrow> run_lines handle ls s; if rc \<noteq> 0 then Some (1, s') else run_lines handle ms s' }"
  by (induction ls arbitrary: s) (auto split: Option.bind_splits)

text \<open>A handler that returns on the lines it is made for and keeps an invariant.\<close>

locale line_handler =
  fixes handle :: "bytes \<Rightarrow> 's \<Rightarrow> (int \<times> 's) option"
    and inv :: "'s \<Rightarrow> bool"
    and good :: "bytes \<Rightarrow> bool"
  assumes handle_law: "inv s \<Longrightarrow> good l \<Longrightarrow> \<exists>rc s'. handle l s = Some (rc, s') \<and> inv s'"
begin

lemma run_returns:
  "inv s \<Longrightarrow> \<forall>l \<in> set ls. good l \<Longrightarrow> \<exists>rc s'. run_lines handle ls s = Some (rc, s') \<and> inv s' \<and> rc \<in> {0, 1}"
proof (induction ls arbitrary: s)
  case (Cons l ls)
  then obtain rc s' where h: "handle l s = Some (rc, s')" "inv s'" using handle_law [of s l] by auto
  with Cons show ?case by (cases "rc = 0") auto
qed simp

end

text \<open>The handler of datagrams relays every line, the handler of sessions answers \<open>status\<close>.\<close>

definition relay_handler :: "(nat \<Rightarrow> line_env) \<Rightarrow> bytes \<Rightarrow> stats_server \<Rightarrow> (int \<times> stats_server) option" where
  "relay_handler R l s =
     (if length l + 2 \<le> MAX_UDP_LENGTH + 2
      then stats_relay_line (R (s_lines s)) (l @ [NL, NUL]) (length l) (count_line s) else None)"

definition envs_ok :: "(nat \<Rightarrow> line_env) \<Rightarrow> bool" where
  "envs_ok R \<longleftrightarrow> (\<forall>n. line_env_ok (R n))"

interpretation relaying: line_handler "relay_handler R" "\<lambda>s. envs_ok R \<and> serving delim accepts s"
  "good_line delim" for R delim accepts
proof unfold_locales
  fix s l
  assume "envs_ok R \<and> serving delim accepts s" "good_line delim l"
  then show "\<exists>rc s'. relay_handler R l s = Some (rc, s') \<and> envs_ok R \<and> serving delim accepts s'"
    using relay_line_total [of delim accepts "count_line s" l "R (s_lines s)"]
    by (auto simp: relay_handler_def envs_ok_def good_line_def frame_simps)
qed

text \<open>Except for a status request, a session's handler is the relay.\<close>

definition status_line :: bytes where "status_line = ''status''"

lemma handle_line_relay:
  assumes "NUL \<notin> set l" "l \<noteq> status_line"
  shows "handle_line R sd l s =
    do { (rc, s') \<leftarrow> relay_handler R l s; Some (if rc \<noteq> 0 then 1 else 0, s') }"
proof -
  have "c_str (l @ [NL, NUL]) = l @ [NL]" using assms(1) c_str_append_NUL [of "l @ [NL]" "[]"] by simp
  with assms(2) show ?thesis
    by (simp add: handle_line_def relay_handler_def status_line_def Let_def)
qed

lemma run_handle_line:
  assumes "\<forall>l \<in> set ls. NUL \<notin> set l \<and> l \<noteq> status_line"
  shows "run_lines (handle_line R sd) ls s = run_lines (relay_handler R) ls s"
  using assms by (induction ls arbitrary: s) (auto simp: handle_line_relay split: Option.bind_splits)

section \<open>The TCP receiver\<close>

text \<open>
  \<open>stats_process_lines\<close> is the fold over the complete lines of its buffer; the rest stays in the
  buffer.
\<close>

lemma process_lines_empty:
  "buffer_wf (ss_buffer se) \<Longrightarrow> NL \<notin> set (buffer_data (ss_buffer se)) \<Longrightarrow>
   stats_process_lines R se s = Some (0, se, s)"
  by (subst stats_process_lines.simps) (simp add: buffer_datacount_wf buffer_read_head_wf)

lemma process_lines_line:
  assumes wf: "buffer_wf (ss_buffer se)" and d: "buffer_data (ss_buffer se) = l @ NL # r" "NL \<notin> set l"
  shows "stats_process_lines R se s =
    do {
      (rc, s') \<leftarrow> handle_line R (ss_sd se) l s;
      if rc \<noteq> 0 then Some (1, se, s')
      else stats_process_lines R
        (se\<lparr>ss_buffer := (ss_buffer se)\<lparr>b_head := b_head (ss_buffer se) + (length l + 1)\<rparr>\<rparr>) s'
    }"
  using d by (subst stats_process_lines.simps)
    (simp add: buffer_datacount_wf [OF wf] buffer_read_head_wf [OF wf] buffer_consume_wf [OF wf]
      cong: if_cong prod.case_cong)

lemma process_lines_refines:
  assumes "buffer_wf (ss_buffer se)"
  shows "case run_lines (handle_line R (ss_sd se)) (fst (split_lines (buffer_data (ss_buffer se)))) s of
      None \<Rightarrow> stats_process_lines R se s = None
    | Some (rc, s') \<Rightarrow>
        \<exists>b'. stats_process_lines R se s = Some (rc, se\<lparr>ss_buffer := b'\<rparr>, s') \<and> buffer_wf b' \<and> rc \<in> {0, 1} \<and>
          b_size b' = b_size (ss_buffer se) \<and> (rc = 0 \<longrightarrow> buffer_data b' = snd (split_lines (buffer_data (ss_buffer se))))"
  using assms
proof (induction "length (buffer_data (ss_buffer se))" arbitrary: se s rule: less_induct)
  case less
  show ?case
  proof (cases "buffer_data (ss_buffer se)" rule: split_lines_cases)
    case rest
    with process_lines_empty [OF less.prems rest, of R s] less.prems show ?thesis
      by (auto intro!: exI [of _ "ss_buffer se"])
  next
    case (line l r)
    let ?b = "(ss_buffer se)\<lparr>b_head := b_head (ss_buffer se) + (length l + 1)\<rparr>"
    have n: "length l + 1 \<le> length (buffer_data (ss_buffer se))" using line by simp
    have b: "buffer_wf ?b" "buffer_data ?b = r"
      using buffer_advance_wf [OF less.prems n] line by simp_all
    have IH: "case run_lines (handle_line R (ss_sd se)) (fst (split_lines r)) s' of
        None \<Rightarrow> stats_process_lines R (se\<lparr>ss_buffer := ?b\<rparr>) s' = None
      | Some (rc, s'') \<Rightarrow>
          \<exists>b'. stats_process_lines R (se\<lparr>ss_buffer := ?b\<rparr>) s' = Some (rc, se\<lparr>ss_buffer := b'\<rparr>, s'') \<and>
            buffer_wf b' \<and> rc \<in> {0, 1} \<and> b_size b' = b_size (ss_buffer se) \<and> (rc = 0 \<longrightarrow> buffer_data b' = snd (split_lines r))" for s'
      using less.hyps [of "se\<lparr>ss_buffer := ?b\<rparr>" s'] b line by (simp cong: option.case_cong prod.case_cong)
    note step = process_lines_line [OF less.prems line, of R s]
    show ?thesis
    proof (cases "handle_line R (ss_sd se) l s")
      case None
      with step line show ?thesis by simp
    next
      case (Some t)
      obtain rc s' where t: "t = (rc, s')" by (cases t)
      show ?thesis
      proof (cases "rc = 0")
        case True
        with IH [of s'] step line Some t show ?thesis
          by (simp cong: option.case_cong prod.case_cong)
      next
        case False
        with step line Some t less.prems show ?thesis by (auto intro!: exI [of _ "ss_buffer se"])
      qed
    qed
  qed
qed

text \<open>Before a read there is room in the buffer and the data is what it was.\<close>

definition session_ok :: "stats_session \<Rightarrow> bool" where
  "session_ok se \<longleftrightarrow> buffer_wf (ss_buffer se) \<and> 0 < b_size (ss_buffer se)"

lemma recv_room_ok:
  assumes "buffer_wf b" "0 < b_size b"
  shows "\<exists>rc b'. recv_room A b = Some (rc, b') \<and> buffer_wf b' \<and> buffer_data b' = buffer_data b \<and>
    0 < b_size b' \<and> (rc = 0 \<longrightarrow> 0 < buffer_spacecount b')"
proof (cases "buffer_spacecount b = 0")
  case False
  with assms show ?thesis by (simp add: recv_room_def)
next
  case True
  obtain b1 where b1: "buffer_realign b = Some (0, b1)" "buffer_wf b1" "buffer_data b1 = buffer_data b"
      "b_size b1 = b_size b"
    using buffer_realign_wf [OF assms(1)] by blast
  show ?thesis
  proof (cases "buffer_spacecount b1 = 0")
    case False
    with True b1 assms show ?thesis by (simp add: recv_room_def)
  next
    case full: True
    have "b_tail b1 \<le> b_size b1" using b1(2) by (rule buffer_wfE)
    then have "b_tail b1 < b_size b1 * 2" using assms(2) b1(4) by linarith
    with buffer_expand_cases [OF b1(2), of A] True full b1 assms show ?thesis
      by (auto simp: recv_room_def buffer_spacecount_wf)
  qed
qed

lemma session_destroy_ok: "session_ok se \<Longrightarrow> recv_failed se s = Some (1, None, s)"
  using buffer_destroy_wf [of "ss_buffer se"]
  by (auto simp: session_ok_def recv_failed_def stats_session_destroy_def)

lemma stats_recv_eq:
  assumes se: "session_ok se" and room: "recv_room A (ss_buffer se) = Some (0, b)" "length d \<le> buffer_spacecount b"
  shows "case run_lines (handle_line R (ss_sd se)) (fst (split_lines (buffer_data (ss_buffer se) @ d)))
      (s\<lparr>bytes_recv_tcp := bytes_recv_tcp s + of_nat (length d)\<rparr>) of
      None \<Rightarrow> stats_recv A R (Recv_data d) se s = None
    | Some (rc, s') \<Rightarrow>
        if rc = 0
        then \<exists>b'. stats_recv A R (Recv_data d) se s = Some (0, Some (se\<lparr>ss_buffer := b'\<rparr>), s') \<and>
          session_ok (se\<lparr>ss_buffer := b'\<rparr>) \<and>
          buffer_data b' = snd (split_lines (buffer_data (ss_buffer se) @ d))
        else stats_recv A R (Recv_data d) se s = Some (1, None, s')"
proof -
  let ?s = "s\<lparr>bytes_recv_tcp := bytes_recv_tcp s + of_nat (length d)\<rparr>"
  have b: "buffer_wf b" "buffer_data b = buffer_data (ss_buffer se)" "0 < b_size b"
    using recv_room_ok [of "ss_buffer se" A] se room by (auto simp: session_ok_def)
  from buffer_append_wf [OF b(1) room(2)] obtain b2 where b2: "buffer_append b d = Some (0, b2)" "buffer_wf b2"
      "buffer_data b2 = buffer_data (ss_buffer se) @ d" "b_size b2 = b_size b"
    using b(2) by auto
  then obtain b1 where b1: "buffer_write_tail b d = Some b1" "buffer_produced b1 (length d) = (0, b2)"
    by (auto simp: buffer_append_def split: Option.bind_splits)
  define se2 where "se2 = se\<lparr>ss_buffer := b2\<rparr>"
  have recv: "stats_recv A R (Recv_data d) se s =
      do { (rc3, se3, s3) \<leftarrow> stats_process_lines R se2 ?s;
           if rc3 \<noteq> 0 then recv_failed se3 s3 else Some (0, Some se3, s3) }"
    using room(1) b1 by (simp add: stats_recv_def se2_def)
  have se2: "buffer_wf (ss_buffer se2)" "ss_sd se2 = ss_sd se"
      "buffer_data (ss_buffer se2) = buffer_data (ss_buffer se) @ d" "0 < b_size (ss_buffer se2)"
    using b2 b(3) by (simp_all add: se2_def)
  note ref = process_lines_refines [OF se2(1), of R ?s, unfolded se2(2,3)]
  show ?thesis
  proof (cases "run_lines (handle_line R (ss_sd se)) (fst (split_lines (buffer_data (ss_buffer se) @ d))) ?s")
    case None
    with ref recv show ?thesis by simp
  next
    case (Some t)
    obtain rc s' where t: "t = (rc, s')" by (cases t)
    with ref Some obtain b' where b': "stats_process_lines R se2 ?s = Some (rc, se2\<lparr>ss_buffer := b'\<rparr>, s')"
        "buffer_wf b'" "b_size b' = b_size (ss_buffer se2)"
        "rc = 0 \<longrightarrow> buffer_data b' = snd (split_lines (buffer_data (ss_buffer se) @ d))"
      by auto
    have ok: "session_ok (se\<lparr>ss_buffer := b'\<rparr>)" using b' se2(4) by (simp add: session_ok_def)
    have se3: "se2\<lparr>ss_buffer := b'\<rparr> = se\<lparr>ss_buffer := b'\<rparr>" by (simp add: se2_def)
    have r: "stats_recv A R (Recv_data d) se s =
        (if rc \<noteq> 0 then Some (1, None, s') else Some (0, Some (se\<lparr>ss_buffer := b'\<rparr>), s'))"
      unfolding recv b'(1) se3 using session_destroy_ok [OF ok] by simp
    show ?thesis
    proof (cases "rc = 0")
      case True
      with r b'(4) ok Some t show ?thesis by auto
    next
      case False
      with r Some t show ?thesis by simp
    qed
  qed
qed

section \<open>Reads of a stream\<close>

text \<open>The byte counter of the server does not influence where lines go.\<close>

definition set_tcp :: "u64 \<Rightarrow> stats_server \<Rightarrow> stats_server" where
  "set_tcp x s = s\<lparr>bytes_recv_tcp := x\<rparr>"

lemma relay_line_set_tcp:
  "stats_relay_line e line len (set_tcp x s) =
     map_option (\<lambda>(rc, t). (rc, set_tcp x t)) (stats_relay_line e line len s)"
  unfolding stats_relay_line_def set_tcp_def
  by (auto split: Option.bind_splits option.splits)

lemma relay_handler_set_tcp:
  "relay_handler R l (set_tcp x s) = map_option (\<lambda>(rc, t). (rc, set_tcp x t)) (relay_handler R l s)"
proof -
  have "count_line (set_tcp x s) = set_tcp x (count_line s)" "s_lines (set_tcp x s) = s_lines s"
    by (simp_all add: count_line_def set_tcp_def)
  then show ?thesis by (simp add: relay_handler_def relay_line_set_tcp)
qed

lemma run_relay_set_tcp:
  "run_lines (relay_handler R) ls (set_tcp x s) =
     map_option (\<lambda>(rc, t). (rc, set_tcp x t)) (run_lines (relay_handler R) ls s)"
  by (induction ls arbitrary: s) (auto simp: relay_handler_set_tcp split: Option.bind_splits)

lemma relay_line_tcp [frame_simps]:
  "stats_relay_line e line len s = Some (rc, s') \<Longrightarrow> bytes_recv_tcp s' = bytes_recv_tcp s"
  unfolding stats_relay_line_def by (auto split: Option.bind_splits option.splits if_splits)

lemma run_relay_tcp:
  "run_lines (relay_handler R) ls s = Some (rc, s') \<Longrightarrow> bytes_recv_tcp s' = bytes_recv_tcp s"
proof (induction ls arbitrary: s)
  case (Cons l ls)
  then obtain rc1 s1 where h: "relay_handler R l s = Some (rc1, s1)" by (auto split: Option.bind_splits)
  then have "bytes_recv_tcp s1 = bytes_recv_tcp s"
    by (auto simp: relay_handler_def count_line_def split: if_splits dest: relay_line_tcp)
  with Cons h show ?case by (auto split: if_splits)
qed simp

text \<open>A session that reads one chunk after the other, each at most as long as the room there is.\<close>

inductive receives ::
    "(nat \<Rightarrow> line_env) \<Rightarrow> stats_session \<times> stats_server \<Rightarrow> bytes list \<Rightarrow> stats_session \<times> stats_server \<Rightarrow> bool"
  for R where
  receives_none: "receives R st [] st"
| receives_more:
    "recv_room A (ss_buffer se) = Some (0, b) \<Longrightarrow> length d \<le> buffer_spacecount b \<Longrightarrow>
     stats_recv A R (Recv_data d) se s = Some (0, Some se', s') \<Longrightarrow>
     receives R (se', s') ds st \<Longrightarrow> receives R (se, s) (d # ds) st"

text \<open>The lines of a stream that are relayed: no \<open>NUL\<close> bytes, no status requests.\<close>

definition plain :: "bytes list \<Rightarrow> bool" where
  "plain ls \<longleftrightarrow> (\<forall>l \<in> set ls. NUL \<notin> set l \<and> l \<noteq> status_line)"

lemma plain_append [simp]: "plain (ls @ ms) \<longleftrightarrow> plain ls \<and> plain ms"
  by (auto simp: plain_def)

lemma recv_step:
  assumes se: "session_ok se" and room: "recv_room A (ss_buffer se) = Some (0, b)" "length d \<le> buffer_spacecount b"
    and r: "stats_recv A R (Recv_data d) se s = Some (0, Some se', s')"
    and p: "plain (fst (split_lines (buffer_data (ss_buffer se) @ d)))"
  shows "session_ok se'" "ss_sd se' = ss_sd se"
    "buffer_data (ss_buffer se') = snd (split_lines (buffer_data (ss_buffer se) @ d))"
    "run_lines (relay_handler R) (fst (split_lines (buffer_data (ss_buffer se) @ d))) s =
       Some (0, set_tcp (bytes_recv_tcp s) s')"
    "bytes_recv_tcp s' = bytes_recv_tcp s + of_nat (length d)"
proof -
  let ?ls = "fst (split_lines (buffer_data (ss_buffer se) @ d))"
  let ?x = "bytes_recv_tcp s + of_nat (length d)"
  have run: "run_lines (handle_line R (ss_sd se)) ?ls (s\<lparr>bytes_recv_tcp := ?x\<rparr>) =
      map_option (\<lambda>(rc, t). (rc, set_tcp ?x t)) (run_lines (relay_handler R) ?ls s)"
    using run_handle_line [of ?ls R "ss_sd se"] p run_relay_set_tcp [of R ?ls ?x s]
    by (simp add: plain_def set_tcp_def)
  note eq = stats_recv_eq [OF se room, of R s, unfolded run]
  obtain rc t where t: "run_lines (relay_handler R) ?ls s = Some (rc, t)" using eq r by (cases "run_lines (relay_handler R) ?ls s") auto
  with eq r have rc: "rc = 0" by (auto split: if_splits)
  with eq r t obtain b' where b': "se' = se\<lparr>ss_buffer := b'\<rparr>" "session_ok se'" "s' = set_tcp ?x t"
      "buffer_data b' = snd (split_lines (buffer_data (ss_buffer se) @ d))"
    by auto
  then show "session_ok se'" "ss_sd se' = ss_sd se"
    "buffer_data (ss_buffer se') = snd (split_lines (buffer_data (ss_buffer se) @ d))" by simp_all
  show "bytes_recv_tcp s' = ?x" using b' by (simp add: set_tcp_def)
  have "set_tcp (bytes_recv_tcp s) s' = t" using b' run_relay_tcp [OF t] by (simp add: set_tcp_def)
  then show "run_lines (relay_handler R) ?ls s = Some (0, set_tcp (bytes_recv_tcp s) s')" using t rc by simp
qed

lemma receives_run:
  assumes "receives R st ds st'" "session_ok (fst st)" "NL \<notin> set (buffer_data (ss_buffer (fst st)))"
    and "plain (fst (split_lines (buffer_data (ss_buffer (fst st)) @ concat ds)))"
  shows "session_ok (fst st') \<and>
    buffer_data (ss_buffer (fst st')) = snd (split_lines (buffer_data (ss_buffer (fst st)) @ concat ds)) \<and>
    run_lines (relay_handler R) (fst (split_lines (buffer_data (ss_buffer (fst st)) @ concat ds))) (snd st) =
      Some (0, set_tcp (bytes_recv_tcp (snd st)) (snd st')) \<and>
    bytes_recv_tcp (snd st') = bytes_recv_tcp (snd st) + of_nat (length (concat ds))"
  using assms
proof (induction rule: receives.induct)
  case (receives_none st)
  then show ?case by (simp add: set_tcp_def)
next
  case (receives_more A se b d s se' s' ds st)
  let ?first = "split_lines (buffer_data (ss_buffer se) @ d)"
  have sp: "split_lines (buffer_data (ss_buffer se) @ concat (d # ds)) =
      (fst ?first @ fst (split_lines (snd ?first @ concat ds)), snd (split_lines (snd ?first @ concat ds)))"
    using split_lines_append [of "buffer_data (ss_buffer se) @ d" "concat ds"] by simp
  from receives_more.prems have se: "session_ok se"
    and p: "plain (fst ?first)" "plain (fst (split_lines (snd ?first @ concat ds)))"
    unfolding sp fst_conv plain_append by simp_all
  note st1 = recv_step [OF se receives_more.hyps(1-3) p(1)]
  have nl: "NL \<notin> set (snd ?first)" using join_split_lines by blast
  note i = receives_more.IH [unfolded fst_conv snd_conv st1(3), OF st1(1) nl p(2)]
  have "run_lines (relay_handler R) (fst (split_lines (snd ?first @ concat ds))) (set_tcp (bytes_recv_tcp s) s') =
      Some (0, set_tcp (bytes_recv_tcp s) (snd st))"
    unfolding run_relay_set_tcp using i by (auto simp: set_tcp_def)
  with st1(4) have "run_lines (relay_handler R) (fst ?first @ fst (split_lines (snd ?first @ concat ds))) s =
      Some (0, set_tcp (bytes_recv_tcp s) (snd st))"
    by (simp add: run_lines_append)
  then show ?case using i st1(5) unfolding sp fst_conv snd_conv by simp
qed

section \<open>The UDP receiver\<close>

text \<open>The lines of a datagram: the last one may lack its newline.\<close>

definition udp_pieces :: "bytes \<Rightarrow> bytes list" where
  "udp_pieces d = fst (split_lines d) @ (if snd (split_lines d) = [] then [] else [snd (split_lines d)])"

lemma udp_pieces_line [simp]: "NL \<notin> set l \<Longrightarrow> udp_pieces (l @ NL # r) = l # udp_pieces r"
  by (simp add: udp_pieces_def)

lemma udp_lines_run:
  "udp_lines R buf offset s = run_lines (relay_handler R) (udp_pieces (drop offset buf)) s"
proof (induction "length buf - offset" arbitrary: offset s rule: less_induct)
  case less
  show ?case
  proof (cases "offset < length buf")
    case False
    then show ?thesis by (simp add: udp_lines.simps udp_pieces_def)
  next
    case True
    show ?thesis
    proof (cases "drop offset buf" rule: split_lines_cases)
      case rest
      then have p: "udp_pieces (drop offset buf) = [drop offset buf]" using True by (simp add: udp_pieces_def)
      have "udp_lines R buf (offset + length (drop offset buf) + 1) t = Some (0, t)" for t
        using True by (simp add: udp_lines.simps)
      with True rest show ?thesis
        by (subst udp_lines.simps) (simp add: p relay_handler_def Let_def split: Option.bind_split)
    next
      case (line l r)
      have "drop (offset + (length l + 1)) buf = drop (length l + 1) (drop offset buf)"
        by (simp add: add.commute)
      then have r: "drop (offset + length l + 1) buf = r" using line by (simp add: add.assoc)
      have "udp_lines R buf (offset + length l + 1) t = run_lines (relay_handler R) (udp_pieces r) t" for t
        using less.hyps [of "offset + length l + 1" t] True r by simp
      with True line show ?thesis
        by (subst udp_lines.simps) (simp add: relay_handler_def Let_def split: Option.bind_split)
    qed
  qed
qed

section \<open>Properties\<close>

text \<open>C9: a datagram is handled as its lines in order, each relayed, until one fails; the last line
  may lack its newline. Only the byte counter changes besides.\<close>

theorem stats_udp_recv_refines:
  "stats_udp_recv R (Recv_data d) s =
     run_lines (relay_handler R) (udp_pieces d) (s\<lparr>bytes_recv_udp := bytes_recv_udp s + of_nat (length d)\<rparr>)"
  by (simp add: stats_udp_recv_def udp_lines_run)

text \<open>A datagram of at most \<open>MAX_UDP_LENGTH\<close> bytes without \<open>NUL\<close> bytes and overlong keys is
  handled without undefined behaviour, and the server is in order afterwards.\<close>

lemma stats_udp_recv_safe:
  assumes "serving delim accepts s" "envs_ok R" "\<forall>l \<in> set (udp_pieces d). good_line delim l"
  shows "\<exists>rc s'. stats_udp_recv R (Recv_data d) s = Some (rc, s') \<and> serving delim accepts s' \<and> rc \<in> {0, 1}"
  using relaying.run_returns [of R delim accepts
      "s\<lparr>bytes_recv_udp := bytes_recv_udp s + of_nat (length d)\<rparr>" "udp_pieces d"] assms
  by (auto simp: stats_udp_recv_def udp_lines_run frame_simps)

text \<open>C8: a read on a TCP session appends the bytes to what the session kept, relays every complete
  line in order until one fails, and keeps the incomplete rest; on an error the session is closed. On
  lines the fixed-size buffers can take it always returns and leaves the server in order.\<close>

theorem stats_recv_refines:
  assumes "session_ok se" "recv_room A (ss_buffer se) = Some (0, b)" "length d \<le> buffer_spacecount b"
    and "serving delim accepts s" "envs_ok R"
    and "split_lines (buffer_data (ss_buffer se) @ d) = (ls, rest)"
    and "plain ls" "\<forall>l \<in> set ls. good_line delim l"
  shows "\<exists>rc s'. run_lines (relay_handler R) ls (s\<lparr>bytes_recv_tcp := bytes_recv_tcp s + of_nat (length d)\<rparr>) =
      Some (rc, s') \<and> serving delim accepts s' \<and>
    (if rc = 0 then \<exists>se'. stats_recv A R (Recv_data d) se s = Some (0, Some se', s') \<and> session_ok se' \<and>
        buffer_data (ss_buffer se') = rest
     else stats_recv A R (Recv_data d) se s = Some (1, None, s'))"
proof -
  let ?s = "s\<lparr>bytes_recv_tcp := bytes_recv_tcp s + of_nat (length d)\<rparr>"
  obtain rc s' where r: "run_lines (relay_handler R) ls ?s = Some (rc, s')" "serving delim accepts s'"
    using relaying.run_returns [of R delim accepts ?s ls] assms(4,5,8) by (auto simp: frame_simps)
  have "run_lines (handle_line R (ss_sd se)) ls ?s = Some (rc, s')"
    using run_handle_line [of ls R "ss_sd se" ?s] assms(7) r(1) by (simp add: plain_def)
  with stats_recv_eq [OF assms(1-3), of R s] assms(6) r show ?thesis
    by (cases "rc = 0") auto
qed

lemma fresh_session:
  "\<exists>b. buffer_init (\<lambda>_. Some []) unset_buffer = (0, b) \<and> session_ok \<lparr>ss_buffer = b, ss_sd = 3\<rparr> \<and>
     buffer_data b = [] \<and> buffer_spacecount b = 4096 \<and> (\<forall>A. recv_room A b = Some (0, b))"
proof -
  obtain b where b: "buffer_init (\<lambda>_. Some []) unset_buffer = (0, b)" "buffer_wf b" "buffer_data b = []"
      "b_size b = 4096"
    using buffer_init_succeeds by blast
  have "b_tail b = 0" using buffer_allocate_cases [OF b(1) [unfolded buffer_init_def]] by simp
  with b have "buffer_spacecount b = 4096" by (simp add: buffer_spacecount_wf)
  with b show ?thesis by (simp add: session_ok_def recv_room_def)
qed

theorem stats_recv_refines_witness:
  "\<exists>s b rc s'. create_example protocol_parser_statsd (Some validate_statsd) = Some (Some s) \<and>
     session_ok \<lparr>ss_buffer = b, ss_sd = 3\<rparr> \<and>
     run_lines (relay_handler (\<lambda>_. good_line_env)) [''a:1|c'']
       (s\<lparr>bytes_recv_tcp := bytes_recv_tcp s + of_nat (length (''a:1|c'' @ NL # ''b'')) \<rparr>) = Some (rc, s') \<and>
     serving (CHR '':'') statsd_line s'"
proof -
  obtain s where s: "create_example protocol_parser_statsd (Some validate_statsd) = Some (Some s)"
    using example_statsd_server by blast
  obtain b where b: "session_ok \<lparr>ss_buffer = b, ss_sd = 3\<rparr>" "buffer_data b = []" "buffer_spacecount b = 4096"
      "\<forall>A. recv_room A b = Some (0, b)"
    using fresh_session by blast
  let ?se = "\<lparr>ss_buffer = b, ss_sd = 3\<rparr>"
  have room: "recv_room (\<lambda>_. None) (ss_buffer ?se) = Some (0, b)" using b(4) by simp
  have fits: "length (''a:1|c'' @ NL # ''b'') \<le> buffer_spacecount b" by (simp add: b(3))
  have e: "envs_ok (\<lambda>_. good_line_env)" by (simp add: envs_ok_def good_line_env_ok)
  have "split_lines (''a:1|c'' @ NL # ''b'') = ([''a:1|c''], ''b'')"
    by (subst split_lines_line) simp_all
  then have sp: "split_lines (buffer_data (ss_buffer ?se) @ (''a:1|c'' @ NL # ''b'')) = ([''a:1|c''], ''b'')"
    by (simp add: b(2))
  have pl: "plain [''a:1|c'']" by (simp add: plain_def status_line_def)
  have g: "\<forall>l \<in> set [''a:1|c'']. good_line (CHR '':'') l" using example_line(1) by simp
  from stats_recv_refines [OF b(1) room fits example_serving(1) [OF s] e sp pl g] s b(1) show ?thesis by blast
qed


lemma recv_partial:
  assumes se: "session_ok se" and d: "d \<noteq> []" "length d \<le> buffer_spacecount (ss_buffer se)"
    and nl: "NL \<notin> set (buffer_data (ss_buffer se) @ d)"
  shows "\<exists>se'. receives R (se, s) [d] (se', s\<lparr>bytes_recv_tcp := bytes_recv_tcp s + of_nat (length d)\<rparr>) \<and>
    session_ok se' \<and> buffer_data (ss_buffer se') = buffer_data (ss_buffer se) @ d \<and>
    buffer_spacecount (ss_buffer se') = buffer_spacecount (ss_buffer se) - length d"
proof -
  let ?b = "ss_buffer se" and ?s = "s\<lparr>bytes_recv_tcp := bytes_recv_tcp s + of_nat (length d)\<rparr>"
  have wf: "buffer_wf ?b" "0 < b_size ?b" using se by (simp_all add: session_ok_def)
  have room: "recv_room (\<lambda>_. None) ?b = Some (0, ?b)" using d by (auto simp: recv_room_def)
  obtain b2 where b2: "buffer_append ?b d = Some (0, b2)" "buffer_wf b2" "buffer_data b2 = buffer_data ?b @ d"
      "b_size b2 = b_size ?b" "b_tail b2 = b_tail ?b + length d"
    using buffer_append_wf [OF wf(1) d(2)] by blast
  have "stats_process_lines R (se\<lparr>ss_buffer := b2\<rparr>) ?s = Some (0, se\<lparr>ss_buffer := b2\<rparr>, ?s)"
    using b2 nl by (intro process_lines_empty) auto
  with b2(1) room have "stats_recv (\<lambda>_. None) R (Recv_data d) se s = Some (0, Some (se\<lparr>ss_buffer := b2\<rparr>), ?s)"
    by (auto simp: stats_recv_def buffer_append_def split: Option.bind_splits)
  from receives_more [OF room d(2) this receives_none]
  have "receives R (se, s) [d] (se\<lparr>ss_buffer := b2\<rparr>, ?s)" .
  then show ?thesis using b2 wf by (auto simp: session_ok_def buffer_spacecount_wf)
qed

lemma receives_append:
  "receives R st ds st' \<Longrightarrow> receives R st' es st'' \<Longrightarrow> receives R st (ds @ es) st''"
  by (induction rule: receives.induct) (auto intro: receives_more)


text \<open>C35: a TCP session has no limit on the length of a line, while the line is copied to a static
  buffer of \<open>MAX_UDP_LENGTH + 2\<close> bytes: a longer line overruns it, for every server and every
  environment.\<close>

theorem stats_process_lines_overflow:
  assumes "buffer_wf (ss_buffer se)" "buffer_data (ss_buffer se) = l @ NL # r" "NL \<notin> set l"
    and "MAX_UDP_LENGTH < length l"
  shows "stats_process_lines R se s = None"
  using process_lines_line [OF assms(1-3), of R s] assms(4) by (simp add: handle_line_def Let_def)

theorem stats_process_lines_overflow_witness:
  "\<exists>b. buffer_wf b \<and> buffer_data b = replicate 65537 (CHR ''a'') @ NL # [] \<and>
     stats_process_lines (\<lambda>_. good_line_env) \<lparr>ss_buffer = b, ss_sd = 3\<rparr>
       (fresh_server ring_config protocol_parser_statsd None) = None"
proof -
  define xs where "xs = replicate 65537 (CHR ''a'') @ NL # []"
  have l: "length xs = 65538" by (simp add: xs_def)
  let ?b = "\<lparr>b_ptr = Block xs, b_head = 0, b_tail = 65538, b_size = 65538\<rparr>"
  let ?se = "\<lparr>ss_buffer = ?b, ss_sd = 3\<rparr>"
  have wf: "buffer_wf (ss_buffer ?se)" by (simp add: buffer_wf_def l)
  have "buffer_data (ss_buffer ?se) = xs" by (simp add: l)
  then have d: "buffer_data (ss_buffer ?se) = replicate 65537 (CHR ''a'') @ NL # []" by (simp only: xs_def)
  have nl: "NL \<notin> set (replicate 65537 (CHR ''a''))" by (simp add: set_replicate_conv_if)
  have long: "MAX_UDP_LENGTH < length (replicate 65537 (CHR ''a''))" by (simp add: MAX_UDP_LENGTH_def)
  from stats_process_lines_overflow [OF wf d nl long] wf d show ?thesis by auto
qed

end
