(* ===== verification/Relay_System.thy ===== *)
theory Relay_System
  imports Receiving
begin

text \<open>
  The relay as a whole: lines come in, the event loop runs the handlers of the backends' clients, in
  any order and with any answers of the network. The theory follows every line from its acceptance
  to the byte stream of the backend it belongs to.
\<close>

section \<open>Events of a backend\<close>

inductive backend_event :: "stats_backend \<Rightarrow> stats_backend \<Rightarrow> bool" where
  be_connected:
    "watch_fd (c_trace (bk_client b)) ConnectW \<noteq> None \<Longrightarrow>
     backend_event b (b\<lparr>bk_client := tcpclient_connected sockopt_ok err now (bk_client b)\<rparr>)"
| be_timeout:
    "watch_fd (c_trace (bk_client b)) TimeoutW \<noteq> None \<Longrightarrow>
     backend_event b (b\<lparr>bk_client := tcpclient_connect_timeout now (emit TimerExpired (bk_client b))\<rparr>)"
| be_read:
    "watch_fd (c_trace (bk_client b)) ReadW \<noteq> None \<Longrightarrow>
     backend_event b (b\<lparr>bk_client := tcpclient_read_event ev_read mem_ok r now (bk_client b)\<rparr>)"
| be_write:
    "watch_fd (c_trace (bk_client b)) WriteW \<noteq> None \<Longrightarrow>
     (\<And>n. sent = Some n \<Longrightarrow> n \<le> length (buffer_data (c_queue (bk_client b)))) \<Longrightarrow>
     backend_write_event ev_write sent now b = Some b' \<Longrightarrow> backend_event b b'"

text \<open>The bytes that went through a backend: sent, or waiting in its queue.\<close>

definition through :: "stats_backend \<Rightarrow> bytes" where
  "through b = sent_bytes (c_trace (bk_client b)) @ buffer_data (c_queue (bk_client b))"

lemma handlers_callback [frame_simps]:
  "callback_sent (tcpclient_connected sockopt_ok err now c) = callback_sent c"
  "callback_sent (tcpclient_connect_timeout now c) = callback_sent c"
  "callback_sent (tcpclient_read_event ev_read mem_ok r now c) = callback_sent c"
  by (auto simp: tcpclient_connected_def tcpclient_connect_timeout_def tcpclient_read_event_def tcpclient_default_callback_def Let_def
      split: recv_result.split)

lemma backend_write_event_ok:
  assumes ok: "backend_ok b" and w: "watch_fd (c_trace (bk_client b)) WriteW \<noteq> None"
    and contract: "\<And>n. sent = Some n \<Longrightarrow> n \<le> length (buffer_data (c_queue (bk_client b)))"
  shows "\<exists>b'. backend_write_event ev_write sent now b = Some b' \<and> backend_ok b' \<and> bk_key b' = bk_key b \<and>
    through b' = through b"
proof -
  let ?c = "bk_client b"
  have inv: "client_inv ?c" and cb: "callback_sent ?c = Client_callback"
    and bal: "bytes_queued b = bytes_sent b + of_nat (length (buffer_data (c_queue ?c)))"
    using ok by (simp_all add: backend_ok_def)
  have wf: "buffer_wf (c_queue ?c)" using inv by (simp add: client_inv_def)
  obtain c' where c': "tcpclient_write_event ev_write sent now ?c = Some c'" "client_inv c'"
      "sent_bytes (c_trace c') @ buffer_data (c_queue c') = sent_bytes (c_trace ?c) @ buffer_data (c_queue ?c)"
    using tcpclient_write_event_inv [of ?c sent ev_write now, OF inv w contract] by blast
  have "\<exists>calls n. c_trace c' = calls @ c_trace ?c \<and> callback_sent c' = Client_callback \<and>
      n \<le> length (buffer_data (c_queue ?c)) \<and>
      length (buffer_data (c_queue c')) = length (buffer_data (c_queue ?c)) - n \<and>
      backend_callbacks calls b = stats_sent b n"
  proof -
    have none: "backend_callbacks [] b = stats_sent b 0" "backend_callbacks [IoStop x] b = stats_sent b 0" for x
      by (simp_all add: backend_callbacks_def stats_sent_def)
    consider (ignored) "\<not> ev_write" | (empty) "ev_write" "buffer_data (c_queue ?c) = []"
      | (err) "ev_write" "buffer_data (c_queue ?c) \<noteq> []" "sent = None"
      | (ok) n where "ev_write" "buffer_data (c_queue ?c) \<noteq> []" "sent = Some n"
      by (cases sent) auto
    then show ?thesis
    proof cases
      case ignored
      with c'(1) cb none show ?thesis by (intro exI [of _ "[]"] exI [of _ 0]) (simp add: tcpclient_write_event_def)
    next
      case empty
      with c'(1) cb none write_event_empty [OF wf empty(2), of sent now] show ?thesis
        by (intro exI [of _ "[IoStop WriteW]"] exI [of _ 0]) auto
    next
      case err
      with c'(1) cb write_event_error [OF wf err(2), of now] show ?thesis
        by (intro exI [of _ "[Callback EVENT_ERROR [], CloseCall (c_sd ?c), IoStop ReadW, IoStop WriteW]"] exI [of _ 0])
           (auto simp: backend_callbacks_def stats_sent_def)
    next
      case (ok n)
      note le = contract [OF ok(3)]
      let ?d = "take n (buffer_data (c_queue ?c))"
      let ?calls = "(if n = length (buffer_data (c_queue ?c)) then [IoStop WriteW] else []) @
        [Callback EVENT_SENT ?d, SendCall ?d]"
      have "c_trace c' = ?calls @ c_trace ?c" "callback_sent c' = callback_sent ?c"
          "c_queue c' = (c_queue ?c)\<lparr>b_head := b_head (c_queue ?c) + n\<rparr>"
        using write_event_sent [OF wf ok(2) le, of now] c'(1) ok by auto
      moreover have "backend_callbacks ?calls b = stats_sent b n"
        using cb le by (simp add: backend_callbacks_def)
      ultimately show ?thesis
        using cb le buffer_advance_wf(2) [OF wf le] by (intro exI [of _ ?calls] exI [of _ n]) simp
    qed
  qed
  then obtain calls n where e: "c_trace c' = calls @ c_trace ?c" "callback_sent c' = Client_callback"
      "n \<le> length (buffer_data (c_queue ?c))" "backend_callbacks calls b = stats_sent b n"
      "length (buffer_data (c_queue c')) = length (buffer_data (c_queue ?c)) - n"
    by blast
  let ?b = "(stats_sent b n)\<lparr>bk_client := c'\<rparr>"
  have r: "backend_write_event ev_write sent now b = Some ?b"
    using c'(1) e(1,4) by (simp add: backend_write_event_def)
  have "bytes_queued ?b = bytes_sent ?b + of_nat (length (buffer_data (c_queue c')))"
    using bal e(3,5) by (simp add: stats_sent_def flip: of_nat_add)
  then have "backend_ok ?b" using c'(2) e(2) by (simp add: backend_ok_def)
  with r c'(3) show ?thesis by (auto simp: through_def stats_sent_def)
qed

lemma backend_event_ok:
  "backend_event b b' \<Longrightarrow> backend_ok b \<Longrightarrow> backend_ok b' \<and> bk_key b' = bk_key b \<and> through b' = through b"
proof (induction rule: backend_event.induct)
  case (be_write b sent ev_write now b')
  from backend_write_event_ok [of b sent ev_write now, OF be_write(4,1,2)] be_write(3) show ?case by simp
qed (auto simp: backend_ok_def through_def frame_simps
      intro: tcpclient_connected_inv tcpclient_connect_timeout_inv tcpclient_read_event_inv)

section \<open>Runs of the relay\<close>

text \<open>Changes of the counters and of the ghosts, which have no part in relaying.\<close>

definition bookkeeping :: "stats_server \<Rightarrow> stats_server \<Rightarrow> bool" where
  "bookkeeping s s' \<longleftrightarrow>
     s' = s\<lparr>bytes_recv_udp := bytes_recv_udp s', bytes_recv_tcp := bytes_recv_tcp s',
            total_connections := total_connections s', s_lines := s_lines s', s_replies := s_replies s'\<rparr>"

text \<open>
  The state of a run is the server and the log of the lines that were accepted, with the backend
  each was accepted for.
\<close>

inductive relay_step ::
    "char \<Rightarrow> stats_server \<times> (nat \<times> bytes) list \<Rightarrow> stats_server \<times> (nat \<times> bytes) list \<Rightarrow> bool"
  for delim where
  rs_refused:
    "good_line delim l \<Longrightarrow> line_env_ok e \<Longrightarrow>
     stats_relay_line e (l @ [NL, NUL]) (length l) s = Some (rc, s') \<Longrightarrow> rc \<noteq> 0 \<Longrightarrow>
     relay_step delim (s, log) (s', log)"
| rs_accepted:
    "good_line delim l \<Longrightarrow> line_env_ok e \<Longrightarrow>
     stats_relay_line e (l @ [NL, NUL]) (length l) s = Some (0, s') \<Longrightarrow>
     line_key delim l = Some k \<Longrightarrow> target s k = Some p \<Longrightarrow>
     relay_step delim (s, log) (s', log @ [(p, l)])"
| rs_event:
    "s_backends s p = Some b \<Longrightarrow> backend_event b b' \<Longrightarrow>
     relay_step delim (s, log) (s\<lparr>s_backends := (s_backends s)(p \<mapsto> b')\<rparr>, log)"
| rs_bookkeeping: "bookkeeping s s' \<Longrightarrow> relay_step delim (s, log) (s', log)"

text \<open>The bytes of the log that are for a backend.\<close>

definition stream_for :: "nat \<Rightarrow> (nat \<times> bytes) list \<Rightarrow> bytes" where
  "stream_for p log = concat (map (\<lambda>(q, l). l @ [NL]) (filter (\<lambda>(q, l). q = p) log))"

lemma stream_for_snoc: "stream_for p (log @ [(q, l)]) = stream_for p log @ (if q = p then l @ [NL] else [])"
  by (simp add: stream_for_def)

text \<open>
  An accepted line and its backend, for a server: the fixed-size buffers can take the line, it passed
  validation if that is enabled, and its key hashes to the backend.
\<close>

definition entry_ok :: "char \<Rightarrow> (bytes \<Rightarrow> bool) \<Rightarrow> stats_server \<Rightarrow> nat \<Rightarrow> bytes \<Rightarrow> bool" where
  "entry_ok delim accepts s p l \<longleftrightarrow>
     good_line delim l \<and> (enable_validation (s_config s) \<longrightarrow> accepts l) \<and>
     (\<exists>k. line_key delim l = Some k \<and> target s k = Some p)"

text \<open>What never changes in a run: the ring, the configuration and the keys of the backends.\<close>

definition same_routes :: "stats_server \<Rightarrow> stats_server \<Rightarrow> bool" where
  "same_routes s s' \<longleftrightarrow>
     s_ring s' = s_ring s \<and> s_config s' = s_config s \<and>
     (\<forall>p. map_option bk_key (s_backends s' p) = map_option bk_key (s_backends s p))"

lemma same_routes_entry: "same_routes s s' \<Longrightarrow> entry_ok delim accepts s' p l = entry_ok delim accepts s p l"
  by (simp add: same_routes_def entry_ok_def target_def)

lemma same_routes_target: "same_routes s s' \<Longrightarrow> target s' = target s"
  by (simp add: same_routes_def target_def fun_eq_iff)

definition relay_inv ::
    "char \<Rightarrow> (bytes \<Rightarrow> bool) \<Rightarrow> stats_server \<Rightarrow> stats_server \<times> (nat \<times> bytes) list \<Rightarrow> bool" where
  "relay_inv delim accepts s0 st = (case st of (s, log) \<Rightarrow>
     serving delim accepts s \<and> same_routes s0 s \<and>
     (\<forall>p b. s_backends s p = Some b \<longrightarrow> through b = stream_for p log) \<and>
     (\<forall>(p, l) \<in> set log. entry_ok delim accepts s0 p l))"

lemma target_update [simp]:
  "target (s\<lparr>s_backends := h\<rparr>) = target s" "target (s\<lparr>malformed_lines := x\<rparr>) = target s"
  by (simp_all add: target_def fun_eq_iff)

lemma bookkeeping_frame:
  "s_backends (s\<lparr>bytes_recv_udp := a, bytes_recv_tcp := b, total_connections := c, s_lines := n, s_replies := rs\<rparr>) = s_backends s"
  "s_ring (s\<lparr>bytes_recv_udp := a, bytes_recv_tcp := b, total_connections := c, s_lines := n, s_replies := rs\<rparr>) = s_ring s"
  "s_config (s\<lparr>bytes_recv_udp := a, bytes_recv_tcp := b, total_connections := c, s_lines := n, s_replies := rs\<rparr>) = s_config s"
  "serving delim accepts
     (s\<lparr>bytes_recv_udp := a, bytes_recv_tcp := b, total_connections := c, s_lines := n, s_replies := rs\<rparr>) =
   serving delim accepts s"
  by (simp_all add: frame_simps)

text \<open>Replacing a backend and extending the log accordingly.\<close>

lemma relay_inv_update:
  assumes "relay_inv delim accepts s0 (s, log)" "s_backends s p = Some b" "backend_ok b'" "bk_key b' = bk_key b"
    and "through b' = through b @ concat (map (\<lambda>l. l @ [NL]) ls)"
    and "\<forall>l \<in> set ls. entry_ok delim accepts s p l"
  shows "relay_inv delim accepts s0
    (s\<lparr>s_backends := (s_backends s)(p \<mapsto> b')\<rparr>, log @ map (\<lambda>l. (p, l)) ls)"
proof -
  have "stream_for q (log @ map (\<lambda>l. (p, l)) ls) =
      stream_for q log @ (if q = p then concat (map (\<lambda>l. l @ [NL]) ls) else [])" for q
    by (induction ls rule: rev_induct) (auto simp: stream_for_snoc simp flip: append_assoc)
  moreover have "\<forall>l \<in> set ls. entry_ok delim accepts s0 p l"
    using assms(1,6) same_routes_entry [of s0 s] by (auto simp: relay_inv_def)
  moreover have "same_routes s0 (s\<lparr>s_backends := (s_backends s)(p \<mapsto> b')\<rparr>)"
  proof -
    have same: "same_routes s0 s" using assms(1) by (simp add: relay_inv_def)
    then have "map_option bk_key (s_backends s0 p) = Some (bk_key b)" using assms(2) by (metis same_routes_def option.simps(9))
    with same assms(4) show ?thesis by (auto simp: same_routes_def)
  qed
  ultimately show ?thesis
    using assms serving_update [of delim accepts s p b b'] by (auto simp: relay_inv_def)
qed

lemma relay_step_inv:
  assumes "relay_step delim st st'" "relay_inv delim accepts s0 st"
  shows "relay_inv delim accepts s0 st'"
  using assms
proof (induction rule: relay_step.induct)
  case (rs_refused l e s rc s' log)
  then have sv: "serving delim accepts s" by (simp add: relay_inv_def)
  from sv rs_refused(1,2) show ?case
  proof (cases rule: relay_line_cases)
    case (sent k p b rc' b')
    then have "s' = s\<lparr>s_backends := (s_backends s)(p \<mapsto> b')\<rparr>" "rc' = rc" using rs_refused(3) by simp_all
    moreover have "through b' = through b"
      using send_to_backend_ok [OF sent(5), of "length l" "l @ [NL, NUL]" e] sent(6) rs_refused(4) \<open>rc' = rc\<close>
      by (auto simp: through_def)
    ultimately show ?thesis
      using relay_inv_update [OF rs_refused(5) sent(4,7,8), of "[]"] by simp
  qed (use rs_refused in \<open>auto simp: relay_inv_def same_routes_def frame_simps\<close>)
next
  case (rs_accepted l e s s' k p log)
  then have sv: "serving delim accepts s" by (simp add: relay_inv_def)
  from sv rs_accepted(1,2) show ?case
  proof (cases rule: relay_line_cases)
    case (sent k' p' b rc b')
    then have e: "s' = s\<lparr>s_backends := (s_backends s)(p \<mapsto> b')\<rparr>" "rc = 0" "p' = p" using rs_accepted(3-5) by simp_all
    then have "through b' = through b @ l @ [NL]"
      using send_to_backend_ok [OF sent(5), of "length l" "l @ [NL, NUL]" e] sent(6) by (auto simp: through_def)
    then show ?thesis
      using relay_inv_update [OF rs_accepted(6) sent(4,7,8), of "[l]"] e sent(1,2,3) rs_accepted(1)
      by (simp add: entry_ok_def)
  qed (use rs_accepted in auto)
next
  case (rs_event s p b b' log)
  then have "backend_ok b" unfolding relay_inv_def serving_def server_inv_def pool_ok_def by blast
  with backend_event_ok [OF rs_event(2)] relay_inv_update [OF rs_event(3,1), of b' "[]"] show ?case by simp
next
  case (rs_bookkeeping s s' log)
  then have same: "s_backends s' = s_backends s" "s_ring s' = s_ring s" "s_config s' = s_config s"
      "serving delim accepts s' = serving delim accepts s"
    unfolding bookkeeping_def by (metis bookkeeping_frame)+
  with rs_bookkeeping show ?case by (simp add: relay_inv_def same_routes_def)
qed

definition relay_start ::
    "char \<Rightarrow> (bytes \<Rightarrow> bool) \<Rightarrow> stats_server \<Rightarrow> stats_server \<times> (nat \<times> bytes) list \<Rightarrow> bool" where
  "relay_start delim accepts s0 st \<longleftrightarrow>
     serving delim accepts (fst st) \<and> fst st = s0 \<and> all_quiet (fst st) \<and> snd st = []"

interpretation relay_run: invariant_system "relay_start delim accepts s0" "relay_step delim"
  "relay_inv delim accepts s0" for delim accepts s0
proof unfold_locales
  fix st assume "relay_start delim accepts s0 st"
  then show "relay_inv delim accepts s0 st"
    by (cases st) (auto simp: relay_start_def relay_inv_def same_routes_def all_quiet_def quiet_def through_def stream_for_def)
next
  fix st st' assume "relay_inv delim accepts s0 st" "relay_step delim st st'"
  then show "relay_inv delim accepts s0 st'" by (blast intro: relay_step_inv)
qed

section \<open>Lines and their log\<close>

text \<open>
  The log of a handler that runs over lines: an entry for every line that was handled without an
  error, up to the first error.
\<close>

fun logged :: "(bytes \<Rightarrow> 's \<Rightarrow> (int \<times> 's) option) \<Rightarrow> (bytes \<Rightarrow> 's \<Rightarrow> 'e list) \<Rightarrow> bytes list \<Rightarrow> 's \<Rightarrow> 'e list" where
  "logged handle entry [] s = []"
| "logged handle entry (l # ls) s =
     (case handle l s of
        None \<Rightarrow> []
      | Some (rc, s') \<Rightarrow> if rc \<noteq> 0 then [] else entry l s @ logged handle entry ls s')"

text \<open>A handler each of whose calls is a sequence of steps of a logging system.\<close>

locale line_logger = line_handler +
  fixes step :: "'a \<times> 'e list \<Rightarrow> 'a \<times> 'e list \<Rightarrow> bool"
    and entry :: "bytes \<Rightarrow> 'a \<Rightarrow> 'e list"
  assumes log_law: "inv s \<Longrightarrow> good l \<Longrightarrow> handle l s = Some (rc, s') \<Longrightarrow>
    step\<^sup>*\<^sup>* (s, log) (s', log @ (if rc = 0 then entry l s else []))"
begin

lemma run_logs:
  assumes "inv s" "\<forall>l \<in> set ls. good l" "run_lines handle ls s = Some (rc, s')"
  shows "step\<^sup>*\<^sup>* (s, log) (s', log @ logged handle entry ls s)"
  using assms
proof (induction ls arbitrary: s log)
  case (Cons l ls)
  then obtain rc1 s1 where h: "handle l s = Some (rc1, s1)" "inv s1" using handle_law [of s l] by auto
  have first: "step\<^sup>*\<^sup>* (s, log) (s1, log @ (if rc1 = 0 then entry l s else []))"
    using Cons.prems h(1) by (intro log_law) auto
  show ?case
  proof (cases "rc1 = 0")
    case False
    then show ?thesis using Cons.prems h first by simp
  next
    case True
    then have "step\<^sup>*\<^sup>* (s1, log @ entry l s) (s', (log @ entry l s) @ logged handle entry ls s1)"
      using Cons.IH [of s1 "log @ entry l s"] Cons.prems h by simp
    with first True h show ?thesis by simp
  qed
qed simp

end

definition line_entry :: "char \<Rightarrow> bytes \<Rightarrow> stats_server \<Rightarrow> (nat \<times> bytes) list" where
  "line_entry delim l s =
     (case line_key delim l of
        None \<Rightarrow> []
      | Some k \<Rightarrow> (case target s k of None \<Rightarrow> [] | Some p \<Rightarrow> [(p, l)]))"

lemma relay_handler_steps:
  assumes sv: "envs_ok R \<and> serving delim accepts s" and l: "good_line delim l"
    and h: "relay_handler R l s = Some (rc, s')"
  shows "(relay_step delim)\<^sup>*\<^sup>* (s, log) (s', log @ (if rc = 0 then line_entry delim l s else []))"
proof -
  let ?s = "count_line s" and ?e = "R (s_lines s)"
  have count: "relay_step delim (s, log) (?s, log)"
    by (rule rs_bookkeeping) (simp add: bookkeeping_def count_line_def)
  have e: "line_env_ok ?e" using sv by (simp add: envs_ok_def)
  have r: "stats_relay_line ?e (l @ [NL, NUL]) (length l) ?s = Some (rc, s')"
    using h by (simp add: relay_handler_def split: if_splits)
  have t: "target ?s = target s" by (simp add: target_def count_line_def fun_eq_iff)
  have "relay_step delim (?s, log) (s', log @ (if rc = 0 then line_entry delim l s else []))"
  proof (cases "rc = 0")
    case False
    with rs_refused [OF l e r] show ?thesis by simp
  next
    case True
    have "serving delim accepts ?s" using sv by (simp add: frame_simps)
    from this l e obtain k p where "line_key delim l = Some k" "target ?s k = Some p"
      by (cases rule: relay_line_cases) (use r True in auto)
    with rs_accepted [OF l e _ this] r True t show ?thesis by (simp add: line_entry_def)
  qed
  with count show ?thesis by simp
qed

interpretation relay_log: line_logger "relay_handler R" "\<lambda>s. envs_ok R \<and> serving delim accepts s"
  "good_line delim" "relay_step delim" "line_entry delim" for R delim accepts
  by unfold_locales (rule relay_handler_steps)

text \<open>The bytes a backend has been sent, followed by the bytes waiting for it, are the accepted lines
  whose keys hash to it, in the order they arrived, each with its newline.\<close>

lemma relay_streams:
  assumes "serving delim accepts s0" "all_quiet s0"
    and "(relay_step delim)\<^sup>*\<^sup>* (s0, []) (s, log)" "s_backends s p = Some b"
  shows "sent_bytes (c_trace (bk_client b)) @ buffer_data (c_queue (bk_client b)) = stream_for p log \<and>
    (\<forall>(q, l) \<in> set log. entry_ok delim accepts s0 q l) \<and> same_routes s0 s"
proof -
  have "relay_start delim accepts s0 (s0, [])" using assms(1,2) by (simp add: relay_start_def)
  from relay_run.reachable_inv [OF this assms(3)] have inv: "relay_inv delim accepts s0 (s, log)" .
  with assms(4) show ?thesis by (auto simp: relay_inv_def through_def)
qed

section \<open>Properties\<close>

text \<open>A line that is accepted, and a run with it.\<close>

lemma example_accepted:
  assumes sv: "serving (CHR '':'') statsd_line s" and q: "all_quiet s" and cfg: "s_config s = ring_config"
    and p: "target s ''a'' = Some p"
  shows "\<exists>b'. stats_relay_line good_line_env (''a:1|c'' @ [NL, NUL]) (length ''a:1|c'') s =
    Some (0, s\<lparr>s_backends := (s_backends s)(p \<mapsto> b')\<rparr>)"
proof -
  obtain b where b: "s_backends s p = Some b" "backend_ok b"
    using target_live [of s "''a''" p] sv p by (auto simp: serving_def)
  have c: "client_inv (bk_client b)" "c_addr (bk_client b) \<noteq> None" "buffer_data (c_queue (bk_client b)) = []"
      "c_config (bk_client b) = ring_config"
    using b q cfg by (auto simp: backend_ok_def all_quiet_def quiet_def)
  let ?l = "''a:1|c''"
  obtain c'' where "tcpclient_sendall (\<lambda>_. Some []) good_env (bk_client b) (?l @ [NL, NUL]) (length ?l + 1) = Some (0, c'')"
    using tcpclient_sendall_cases [of "bk_client b" "length ?l + 1" "?l @ [NL, NUL]" "\<lambda>_. Some []" good_env]
      client_inv_queue [OF c(1)] c(2-4)
    by (auto simp: ring_config_def example_config_def)
  then obtain b' where sd: "send_to_backend good_line_env (?l @ [NL, NUL]) (length ?l) b = Some (0, b')"
    by (auto simp: send_to_backend_def good_line_env_def)
  from sv example_line(1) good_line_env_ok show ?thesis
  proof (cases rule: relay_line_cases)
    case (sent k q c rc c')
    with p b sd example_line(2) show ?thesis by auto
  qed (use p example_line in auto)
qed

lemma example_relay_run:
  "\<exists>s0 s p b. create_example protocol_parser_statsd (Some validate_statsd) = Some (Some s0) \<and>
     serving (CHR '':'') statsd_line s0 \<and> all_quiet s0 \<and>
     (relay_step (CHR '':''))\<^sup>*\<^sup>* (s0, []) (s, [(p, ''a:1|c'')]) \<and> s_backends s p = Some b"
proof -
  obtain s where s: "create_example protocol_parser_statsd (Some validate_statsd) = Some (Some s)"
    using example_statsd_server by blast
  note sv = example_serving(1) [OF s]
  obtain p where p: "target s ''a'' = Some p" using example_serving(2) [OF s] by blast
  have q: "all_quiet s" "s_config s = ring_config" using example_server_inv [OF s] by simp_all
  from example_accepted [OF sv q p] obtain b' where
    r: "stats_relay_line good_line_env (''a:1|c'' @ [NL, NUL]) (length ''a:1|c'') s =
      Some (0, s\<lparr>s_backends := (s_backends s)(p \<mapsto> b')\<rparr>)" by blast
  have "relay_step (CHR '':'') (s, []) (s\<lparr>s_backends := (s_backends s)(p \<mapsto> b')\<rparr>, [] @ [(p, ''a:1|c'')])"
    by (rule rs_accepted [OF example_line(1) good_line_env_ok r example_line(2) p])
  then have "(relay_step (CHR '':''))\<^sup>*\<^sup>* (s, []) (s\<lparr>s_backends := (s_backends s)(p \<mapsto> b')\<rparr>, [(p, ''a:1|c'')])"
    by auto
  then show ?thesis using s sv q by (intro exI conjI) (assumption+, simp)
qed

text \<open>The counters of the status report balance in every reachable state: a backend's
  \<open>bytes_queued\<close> is its \<open>bytes_sent\<close> plus the length of its send queue, modulo \<open>2 ^ 64\<close>.\<close>

lemma relay_counters_balance:
  assumes "serving delim accepts s0" "all_quiet s0"
    and "(relay_step delim)\<^sup>*\<^sup>* (s0, []) (s, log)" "s_backends s p = Some b"
  shows "bytes_queued b = bytes_sent b + of_nat (length (buffer_data (c_queue (bk_client b))))"
proof -
  have "relay_start delim accepts s0 (s0, [])" using assms(1,2) by (simp add: relay_start_def)
  from relay_run.reachable_inv [OF this assms(3)] have "pool_ok s"
    by (simp add: relay_inv_def serving_def server_inv_def)
  with assms(4) show ?thesis by (simp add: pool_ok_def backend_ok_def)
qed

end
