(* ===== verification/Stathasher.thy ===== *)
theory Stathasher
  imports Backends Getopt
begin

text \<open>
  The command line tool \<open>src/src/stathasher.c\<close>: it loads the rings of a configuration with the
  configured lines themselves as backends and prints, for every key it reads, the line and the
  shard the key hashes to. The strings \<open>strdup\<close> returns are heap objects: \<open>blocks\<close> is the part of
  the heap that holds them, and the ghost counter \<open>allocs\<close> names the next one. The theory shows
  that the tool and the relay agree on every key.
\<close>

section \<open>The tool\<close>

record strings =
  blocks :: "nat \<Rightarrow> bytes option"
  allocs :: nat

text \<open>\<open>my_strdup\<close>; \<open>M i\<close> tells whether the \<open>i\<close>-th allocation is granted.\<close>

definition my_strdup :: "(nat \<Rightarrow> bool) \<Rightarrow> (nat, strings) alloc_func" where
  "my_strdup M str h =
     (let h' = h\<lparr>allocs := Suc (allocs h)\<rparr> in
      if M (allocs h) then Some (Some (allocs h), h'\<lparr>blocks := (blocks h)(allocs h \<mapsto> str)\<rparr>)
      else Some (None, h'))"

text \<open>\<open>free\<close>, the release callback: freeing a block that is not live is undefined.\<close>

definition free_string :: "(nat, strings) dealloc_func" where
  "free_string p h = do { _ \<leftarrow> blocks h p; Some (h\<lparr>blocks := (blocks h)(p := None)\<rparr>) }"

text \<open>The loop that cuts a line at its first white space, and the key that is left.\<close>

fun trim_line :: "bytes \<Rightarrow> bytes" where
  "trim_line [] = []"
| "trim_line (c # cs) = (if c_isspace c then NUL # cs else c # trim_line cs)"

definition key_of_line :: "bytes \<Rightarrow> bytes" where
  "key_of_line line = c_str (trim_line line)"

text \<open>What is printed for one ring; the shard number, a \<open>uint32_t\<close>, is printed as an \<open>int\<close>.\<close>

definition ring_output :: "bytes \<Rightarrow> nat hashring option \<Rightarrow> strings \<Rightarrow> bytes \<Rightarrow> bytes option" where
  "ring_output name ring h key =
     (case ring of
        None \<Rightarrow> Some []
      | Some r \<Rightarrow>
          do {
            choice \<leftarrow> hashring_choose (Some r) key;
            case choice of
              None \<Rightarrow> Some []
            | Some (p, shard) \<Rightarrow>
                do {
                  str \<leftarrow> blocks h p;
                  Some ('' '' @ name @ ''='' @ c_str str @ '' '' @ name @ ''_shard='' @ decimal_int (sint shard))
                }
          })"

definition line_output :: "nat hashring option \<Rightarrow> nat hashring option \<Rightarrow> strings \<Rightarrow> bytes \<Rightarrow> bytes option" where
  "line_output carbon_ring statsd_ring h line =
     do {
       let key = key_of_line line;
       c \<leftarrow> ring_output ''carbon'' carbon_ring h key;
       s \<leftarrow> ring_output ''statsd'' statsd_ring h key;
       Some (''key='' @ key @ c @ s @ [NL])
     }"

text \<open>The loop over the lines \<open>getline\<close> returns.\<close>

fun all_output :: "nat hashring option \<Rightarrow> nat hashring option \<Rightarrow> strings \<Rightarrow> bytes list \<Rightarrow> bytes option" where
  "all_output carbon_ring statsd_ring h [] = Some []"
| "all_output carbon_ring statsd_ring h (l # ls) =
     do {
       o1 \<leftarrow> line_output carbon_ring statsd_ring h l;
       o2 \<leftarrow> all_output carbon_ring statsd_ring h ls;
       Some (o1 @ o2)
     }"

text \<open>
  The table of the long options and the option loop. The result of \<open>getopt_long\<close> is narrowed to 8 bits;
  the list ends where \<open>getopt_long\<close> returns -1. \<open>Inl\<close> is an exit with its status.
\<close>

definition hasher_long_options :: "long_option list" where
  "hasher_long_options =
     [\<lparr>lo_name = ''config'', lo_has_arg = required_argument, lo_val = CHR ''c''\<rparr>,
      \<lparr>lo_name = ''help'', lo_has_arg = no_argument, lo_val = CHR ''h''\<rparr>]"

fun hasher_options :: "(int \<times> bytes) list \<Rightarrow> bytes \<Rightarrow> int + bytes" where
  "hasher_options [] config_name = Inr config_name"
| "hasher_options ((opt, optarg) # rest) config_name =
     (let c = sint (word_of_int opt :: 8 word) in
      if c = -1 then Inr config_name
      else if c = 0 \<or> c = of_char (CHR ''h'') then Inl 0
      else if c = of_char (CHR ''c'') then hasher_options rest optarg
      else Inl 1)"

text \<open>
  The environment of a run: the words of the command line, the events of a configuration file that can
  be opened, the answers of the allocator and of the YAML library to the parser, those of the allocator to the two rings, and the lines of the
  standard input.
\<close>

record hasher_env =
  h_args :: "bytes list"
  h_file :: "bytes \<Rightarrow> yaml_event list option"
  h_parse :: "allocator \<times> allocator \<times> allocator \<times> bool \<times> config_mem"
  h_rings :: "bool \<Rightarrow> allocator \<times> (nat \<Rightarrow> allocator)"
  h_strdup :: "nat \<Rightarrow> bool"
  h_stdin :: "bytes list"

definition load_ring :: "hasher_env \<Rightarrow> bool \<Rightarrow> proto_config \<Rightarrow> strings \<Rightarrow> (nat hashring option \<times> strings) option" where
  "load_ring e carbon pc h =
     (if initialized pc
      then (case h_rings e carbon of (A, As) \<Rightarrow> hashring_load_from_config A As (my_strdup (h_strdup e)) free_string pc h)
      else Some (None, h))"

text \<open>The second half of \<open>main\<close>, with a parsed configuration.\<close>

definition hash_keys :: "hasher_env \<Rightarrow> config \<Rightarrow> strings \<Rightarrow> (int \<times> bytes \<times> strings) option" where
  "hash_keys e app_cfg h0 =
     do {
       (carbon_ring, h1) \<leftarrow> load_ring e True (carbon_config app_cfg) h0;
       (statsd_ring, h2) \<leftarrow> load_ring e False (statsd_config app_cfg) h1;
       _ \<leftarrow> destroy_config (Some app_cfg);
       out \<leftarrow> all_output carbon_ring statsd_ring h2 (h_stdin e);
       h3 \<leftarrow> hashring_dealloc free_string carbon_ring h2;
       h4 \<leftarrow> hashring_dealloc free_string statsd_ring h3;
       Some (0, out, h4)
     }"

text \<open>
  \<open>main\<close>: the exit status, what the loop over the input prints and the strings left on the heap. The
  usage text and the error messages are not part of the output.
\<close>

definition stathasher_main :: "hasher_env \<Rightarrow> (int \<times> bytes \<times> strings) option" where
  "stathasher_main e =
     (let h0 = \<lparr>blocks = Map.empty, allocs = 0\<rparr>; (opts, ind) = getopt_long ''c:h'' hasher_long_options (h_args e) in
      case hasher_options opts default_config of
        Inl status \<Rightarrow> Some (status, [], h0)
      | Inr config_name \<Rightarrow>
          if ind = None then None
          else if ind \<noteq> Some 1 \<and> ind \<noteq> Some 3 then Some (1, [], h0)
          else case h_file e config_name of
            None \<Rightarrow> Some (1, [], h0)
          | Some evs \<Rightarrow>
              do {
                parsed \<leftarrow> (case h_parse e of (A1, A2, S, ok, mem) \<Rightarrow> parse_config A1 A2 S ok mem evs);
                case parsed of
                  None \<Rightarrow> Some (1, [], h0)
                | Some app_cfg \<Rightarrow> hash_keys e app_cfg h0
              })"

section \<open>Strings and their owners\<close>

definition bounded :: "strings \<Rightarrow> bool" where
  "bounded h \<longleftrightarrow> (\<forall>p str. blocks h p = Some str \<longrightarrow> p < allocs h)"

lemma bounded_restrict [simp]: "bounded h \<Longrightarrow> bounded (h\<lparr>blocks := blocks h |` S\<rparr>)"
  by (auto simp: bounded_def restrict_map_def)

interpretation sd: naming "my_strdup M" bounded blocks "\<lambda>l. l" for M
  by unfold_locales (auto simp: my_strdup_def bounded_def Let_def less_SucI split: if_splits)

text \<open>A ring owns its strings when they are live, different from each other and new since \<open>h0\<close>.\<close>

definition owns :: "strings \<Rightarrow> nat hashring \<Rightarrow> strings \<Rightarrow> bool" where
  "owns h0 ring h \<longleftrightarrow>
     bounded h \<and> (backends ring \<noteq> None \<longrightarrow> ring_wf ring) \<and> distinct (ring_shards ring) \<and>
     set (ring_shards ring) \<subseteq> dom (blocks h) \<and>
     (\<forall>p. blocks h0 p = (if p \<in> set (ring_shards ring) then None else blocks h p))"

lemma dealloc_all_free:
  "distinct vs \<Longrightarrow> set vs \<subseteq> dom (blocks h) \<Longrightarrow>
   dealloc_all free_string vs h = Some (h\<lparr>blocks := blocks h |` (- set vs)\<rparr>)"
proof (induction vs arbitrary: h)
  case Nil
  then show ?case by (simp add: restrict_map_def fun_eq_iff)
next
  case (Cons v vs)
  let ?h = "h\<lparr>blocks := (blocks h)(v := None)\<rparr>"
  have h: "blocks ?h |` (- set vs) = blocks h |` (- set (v # vs))"
    by (auto simp: restrict_map_def fun_eq_iff)
  have "set vs \<subseteq> dom (blocks ?h)" using Cons.prems by auto
  with Cons.IH [of ?h] Cons.prems(1)
  have IH: "dealloc_all free_string vs ?h = Some (?h\<lparr>blocks := blocks ?h |` (- set vs)\<rparr>)"
    by (metis distinct.simps(2))
  have "free_string v h = Some ?h" using Cons.prems(2) by (auto simp: free_string_def)
  then have "dealloc_all free_string (v # vs) h = dealloc_all free_string vs ?h" by simp
  then show ?case unfolding IH h by simp
qed

lemma hashring_dealloc_strings:
  assumes "owns h0 ring h'" "set (ring_shards ring) \<subseteq> dom (blocks h)"
  shows "hashring_dealloc free_string (Some ring) h = Some (h\<lparr>blocks := blocks h |` (- set (ring_shards ring))\<rparr>)"
proof (cases "backends ring")
  case None
  then show ?thesis by (simp add: hashring_dealloc_def ring_shards_def restrict_map_def)
next
  case (Some bl)
  then have bl: "slist_wf bl" "ring_shards ring = slist_elems bl"
    using assms(1) by (auto simp: owns_def ring_wf_def ring_shards_def)
  have d: "dealloc_from free_string bl 0 h = dealloc_all free_string (fresh_elems {} (slist_elems bl)) h"
    using dealloc_from_wf [OF bl(1), of 0] by simp
  show ?thesis
    using Some bl d dealloc_all_free [of "fresh_elems {} (slist_elems bl)" h] assms(2)
      fresh_elems_props [of "{}" "slist_elems bl"]
    by (simp add: hashring_dealloc_def)
qed

lemma my_strdup_refused: "my_strdup M l h = Some (None, h') \<Longrightarrow> bounded h \<Longrightarrow> blocks h' = blocks h \<and> bounded h'"
  by (auto simp: my_strdup_def bounded_def less_SucI Let_def split: if_splits)

lemma owns_add:
  assumes "owns h0 ring h" "hashring_add A (my_strdup M) free_string ring line h = Some (ok, ring', h')"
  shows "if ok then owns h0 ring' h'
    else hashring_dealloc free_string (Some ring') h' = Some h'' \<longrightarrow> blocks h'' = blocks h0 \<and> bounded h''"
proof (cases ok)
  case True
  then have add: "hashring_add A (my_strdup M) free_string ring line h = Some (True, ring', h')" using assms(2) by simp
  then have "backends ring \<noteq> None" by (auto simp: hashring_add_def split: option.splits Option.bind_splits)
  then have "ring_wf ring" using assms(1) by (simp add: owns_def)
  from hashring_add_True [OF this add] obtain l v where
    v: "my_strdup M l h = Some (Some v, h')" "ring_wf ring'" "ring_shards ring' = ring_shards ring @ [v]"
    by blast
  then have "v = allocs h" "h' = h\<lparr>allocs := Suc v, blocks := (blocks h)(v \<mapsto> l)\<rparr>"
    by (auto simp: my_strdup_def Let_def split: if_splits)
  moreover from this(1) have "blocks h v = None" using assms(1) by (auto simp: owns_def bounded_def)
  ultimately have "bounded h'" "distinct (ring_shards ring')" "set (ring_shards ring') \<subseteq> dom (blocks h')"
      "\<forall>p. blocks h0 p = (if p \<in> set (ring_shards ring') then None else blocks h' p)"
    using v(3) assms(1) by (auto simp: owns_def bounded_def less_SucI)
  with True v(2) show ?thesis by (simp add: owns_def)
next
  case False
  then have fail: "hashring_add A (my_strdup M) free_string ring line h = Some (False, ring', h')"
    using assms(2) by simp
  consider (null) "ring' = ring" "blocks h' = blocks h" "bounded h'"
    | (full) bl l1 where "backends ring = Some bl" "statsrelay_list_expand A bl = (None, l1)"
        "ring' = ring\<lparr>backends := Some l1\<rparr>"
    using hashring_add_False [OF fail] my_strdup_refused assms(1) owns_def
    by metis
  then show ?thesis
  proof cases
    case null
    have "set (ring_shards ring) \<subseteq> dom (blocks h')" using assms(1) null by (simp add: owns_def)
    with hashring_dealloc_strings [OF assms(1), of h'] null
    have "hashring_dealloc free_string (Some ring') h' = Some (h'\<lparr>blocks := blocks h' |` (- set (ring_shards ring))\<rparr>)"
      by simp
    moreover have "blocks h' |` (- set (ring_shards ring)) = blocks h0"
      using assms(1) null by (auto simp: owns_def restrict_map_def fun_eq_iff)
    moreover from this have "bounded (h'\<lparr>blocks := blocks h0\<rparr>)" using bounded_restrict [OF null(3)] by metis
    ultimately show ?thesis using False by auto
  next
    case full
    then have "slist_wf bl" using assms(1) by (simp add: owns_def ring_wf_def)
    from list_expand_refused [OF this full(2)] dealloc_from_missing [of l1 "l_size bl" 0]
    have "hashring_dealloc free_string (Some ring') h' = None" using full(3) by (simp add: hashring_dealloc_def)
    with False show ?thesis by simp
  qed
qed

lemma load_from_owns:
  assumes "owns h0 ring h" "load_from As (my_strdup M) free_string lines i ring h = Some (r, h')"
  shows "case r of None \<Rightarrow> blocks h' = blocks h0 \<and> bounded h' | Some ring' \<Rightarrow> owns h0 ring' h'"
  using assms
proof (induction "l_size lines - i" arbitrary: i ring h)
  case 0
  then show ?case by (auto simp: load_from.simps)
next
  case (Suc n)
  then have "i < l_size lines" by simp
  from load_from_step [OF this Suc.prems(2)] obtain line ok ring1 h1 where
    add: "hashring_add (As i) (my_strdup M) free_string ring line h = Some (ok, ring1, h1)" and
    rest: "(if ok then load_from As (my_strdup M) free_string lines (Suc i) ring1 h1
            else do { h2 \<leftarrow> hashring_dealloc free_string (Some ring1) h1; Some (None, h2) }) = Some (r, h')"
    by blast
  note own = owns_add [OF Suc.prems(1) add, of h']
  show ?case
  proof (cases ok)
    case True
    then show ?thesis using Suc.hyps(1) [of "Suc i" ring1 h1] Suc.hyps(2) own rest by simp
  next
    case False
    then have "hashring_dealloc free_string (Some ring1) h1 = Some h'" "r = None"
      using rest by (auto split: Option.bind_splits)
    then show ?thesis using own False by simp
  qed
qed

lemma load_ring_owns:
  assumes "bounded h" "load_ring e carbon pc h = Some (r, h')"
  shows "case r of None \<Rightarrow> blocks h' = blocks h \<and> bounded h' | Some ring \<Rightarrow> owns h ring h'"
proof -
  obtain A As where A: "h_rings e carbon = (A, As)" by fastforce
  have init: "owns h r0 h" if "hashring_init A = Some r0" for r0
    using that assms(1)
    by (auto simp: hashring_init_def owns_def ring_wf_def ring_shards_def split: option.splits dest!: list_new_wf)
  consider "r = None" "h' = h"
    | r0 lines where "hashring_init A = Some r0" "load_from As (my_strdup (h_strdup e)) free_string lines 0 r0 h = Some (r, h')"
    using assms(2) A by (auto simp: load_ring_def hashring_load_from_config_def split: if_splits option.splits)
  then show ?thesis
  proof cases
    case 1
    then show ?thesis using assms(1) by simp
  next
    case 2
    then show ?thesis by (blast intro: load_from_owns init)
  qed
qed

lemma owns_later:
  assumes "owns h0 ring h1" "case r of None \<Rightarrow> blocks h2 = blocks h1 \<and> bounded h2 | Some ring2 \<Rightarrow> owns h1 ring2 h2"
  shows "set (ring_shards ring) \<subseteq> dom (blocks h2)"
proof
  fix p assume "p \<in> set (ring_shards ring)"
  then obtain str where "blocks h1 p = Some str" using assms(1) by (auto simp: owns_def)
  then show "p \<in> dom (blocks h2)" using assms(2)
    by (cases r) (auto simp: owns_def split: if_splits)
qed

section \<open>Properties\<close>


lemma release_ring:
  assumes "hashring_dealloc free_string ring h = Some h'"
    and "case ring of None \<Rightarrow> True | Some r \<Rightarrow> owns g r g' \<and> set (ring_shards r) \<subseteq> dom (blocks h)"
  shows "blocks h' = (case ring of None \<Rightarrow> blocks h | Some r \<Rightarrow> blocks h |` (- set (ring_shards r)))"
  using assms hashring_dealloc_strings by (cases ring) (auto simp: hashring_dealloc_def [of _ None])

lemma hash_keys_frees:
  assumes "bounded h0" "hash_keys e cfg h0 = Some (status, out, h)"
  shows "blocks h = blocks h0"
proof -
  obtain carbon h1 where c: "load_ring e True (carbon_config cfg) h0 = Some (carbon, h1)"
    using assms(2) by (cases "load_ring e True (carbon_config cfg) h0") (auto simp: hash_keys_def)
  obtain statsd h2 where s: "load_ring e False (statsd_config cfg) h1 = Some (statsd, h2)"
    using assms(2) c by (cases "load_ring e False (statsd_config cfg) h1") (auto simp: hash_keys_def)
  obtain h3 where free: "hashring_dealloc free_string carbon h2 = Some h3" "hashring_dealloc free_string statsd h3 = Some h"
    using assms(2) c s by (auto simp: hash_keys_def bind_eq_Some_conv)
  note own1 = load_ring_owns [OF assms(1) c]
  then have "bounded h1" by (cases carbon) (auto simp: owns_def)
  note own2 = load_ring_owns [OF this s]
  have h3: "blocks h3 = (case carbon of None \<Rightarrow> blocks h2 | Some r \<Rightarrow> blocks h2 |` (- set (ring_shards r)))"
    using own1 owns_later [OF _ own2] by (intro release_ring [OF free(1), of h0 h1]) (auto split: option.splits)
  have new: "blocks h1 p = None" if "statsd = Some r" "p \<in> set (ring_shards r)" for r p
    using own2 that by (simp add: owns_def)
  have old: "p \<in> dom (blocks h1)" if "carbon = Some r" "p \<in> set (ring_shards r)" for r p
    using own1 that by (auto simp: owns_def)
  have live: "set (ring_shards r) \<subseteq> dom (blocks h3)" if "statsd = Some r" for r
  proof
    fix p assume p: "p \<in> set (ring_shards r)"
    then have "p \<in> dom (blocks h2)" using own2 that by (auto simp: owns_def)
    moreover have "p \<notin> set (ring_shards q)" if "carbon = Some q" for q
      using old [OF that] new [OF \<open>statsd = Some r\<close> p] by blast
    ultimately show "p \<in> dom (blocks h3)" using h3 by (cases carbon) (auto simp: restrict_map_def)
  qed
  have h: "blocks h = (case statsd of None \<Rightarrow> blocks h3 | Some r \<Rightarrow> blocks h3 |` (- set (ring_shards r)))"
    using own2 live by (intro release_ring [OF free(2), of h1 h2]) (auto split: option.splits)
  show ?thesis
  proof
    fix p
    show "blocks h p = blocks h0 p"
      using own1 own2 h3 h by (auto simp: owns_def restrict_map_def split: option.splits)
  qed
qed

text \<open>Whatever the environment answers, a run of \<open>stathasher\<close> that ends has released every string it
  allocated, and none of them twice.\<close>

lemma stathasher_frees_all:
  assumes "stathasher_main e = Some (status, out, h)"
  shows "blocks h = Map.empty"
proof (cases "h = \<lparr>blocks = Map.empty, allocs = 0\<rparr>")
  case False
  then obtain cfg where "hash_keys e cfg \<lparr>blocks = Map.empty, allocs = 0\<rparr> = Some (status, out, h)"
    using assms by (auto simp: stathasher_main_def Let_def bind_eq_Some_conv
        split: sum.splits if_splits option.splits prod.splits)
  from hash_keys_frees [OF _ this] show ?thesis by (simp add: bounded_def)
qed simp

text \<open>The tool counts the words of its command line: an option and its argument in one word, which
  \<open>getopt_long\<close> allows, are refused.\<close>

lemma stathasher_refuses_one_word:
  assumes "h_args e \<in> spellings ''config'' (CHR ''c'') name" "length (h_args e) = 1"
  shows "stathasher_main e = Some (1, [], \<lparr>blocks = Map.empty, allocs = 0\<rparr>)"
proof -
  have "both_tables ''c:h'' hasher_long_options ''config'' (CHR ''c'') required_argument"
    unfolding both_tables_def by code_simp
  from getopt_long_spelled [OF this assms(1), of "[]"] assms(2)
  have "getopt_long ''c:h'' hasher_long_options (h_args e) = ([(99, name)], Some 2)" by (simp add: add_result_def)
  then show ?thesis by (simp add: stathasher_main_def Let_def)
qed

text \<open>The example configuration, with every allocation granted.\<close>

lemma example_strings:
  "hashring_load_from_config (\<lambda>_. Some []) (\<lambda>_ _. Some []) (my_strdup (\<lambda>_. True)) free_string ring_config
     \<lparr>blocks = Map.empty, allocs = 0\<rparr> =
   Some (Some (ring_of [0, 1]), \<lparr>blocks = [0 \<mapsto> ''h:1'', 1 \<mapsto> ''h:1:tcp''], allocs = 2\<rparr>)"
proof -
  let ?A = "(\<lambda>_. Some []) :: allocator"
  have new: "(hashring_init ?A :: nat hashring option) = Some \<lparr>backends = Some \<lparr>allocated_size = 0, l_size = 0, l_data = None\<rparr>\<rparr>"
    by (simp add: hashring_init_def statsrelay_list_new_def malloc_def)
  have push: "list_push ?A \<lparr>allocated_size = 0, l_size = 0, l_data = None\<rparr> (p :: nat) =
      Some (True, \<lparr>allocated_size = 1, l_size = 1, l_data = Some [Some p]\<rparr>)"
    "list_push ?A \<lparr>allocated_size = 1, l_size = 1, l_data = Some [Some p]\<rparr> q =
      Some (True, \<lparr>allocated_size = 2, l_size = 2, l_data = Some [Some p, Some q]\<rparr>)" for p q
    by (simp_all add: list_push_def statsrelay_list_expand_def malloc_def list_put_def resize_slots_def
        sz_sub_def Let_def)
  have get: "list_get example_lines 0 = Some (Some ''h:1'')"
      "list_get example_lines (Suc 0) = Some (Some ''h:1:tcp'')" "l_size example_lines = 2"
    by (simp_all add: example_lines_def list_get_def)
  show ?thesis using new push get
    by (simp add: hashring_load_from_config_def ring_config_def hashring_add_def my_strdup_def ring_of_def
        load_from.simps [of _ _ _ _ 0] load_from.simps [of _ _ _ _ "Suc 0"] load_from.simps [of _ _ _ _ "Suc (Suc 0)"])
qed


end
