(* ===== verification/Stresstest.thy ===== *)
theory Stresstest
  imports Relay_System Getopt
begin

text \<open>
  The load generator \<open>src/src/stresstest.c\<close>: it reads a file of stat names, turns each line in its buffer
  into a statsd counter and sends it over a TCP connection. The block that \<open>getline\<close> grows is
  explicit, so that every read and write of the loop is checked against it; a signal that ends the
  program is outside the model. The theory shows what
  arrives at the other end whatever memory is granted and however the kernel cuts the sends, that
  the relay takes every line of it, and that an empty line in the file makes the program read
  before its buffer.
\<close>

section \<open>One line\<close>

text \<open>
  \<open>getline\<close> of the C library: the next line with its newline, if it has one, and a terminator. The block
  is kept when the line fits; otherwise the library chooses a size that suffices. Nothing is the
  result -1, at the end of the file or without memory.
\<close>

record line_answers =
  la_size :: nat
  la_getline :: allocator
  la_realloc :: allocator
  la_send :: "nat \<Rightarrow> int"

definition next_line :: "bytes \<Rightarrow> bytes \<times> bytes" where
  "next_line contents = (case cut_at NL contents of None \<Rightarrow> (contents, []) | Some (l, rest) \<Rightarrow> (l @ [NL], rest))"

definition getline :: "line_answers \<Rightarrow> mblock \<Rightarrow> nat \<Rightarrow> bytes \<Rightarrow> (nat \<times> mblock \<times> nat \<times> bytes) option" where
  "getline a line len contents =
     (if contents = [] then None
      else case next_line contents of
        (l, rest) \<Rightarrow>
          if length l + 1 \<le> len
          then Some (length l, Block (l @ NUL # drop (length l + 1) (block_bytes line)), len, rest)
          else (let size = max (la_size a) (length l + 1) in
                case malloc (la_getline a) size of
                  None \<Rightarrow> None
                | Some m \<Rightarrow> Some (length l, Block (l @ NUL # drop (length l + 1) m), size, rest)))"

text \<open>The loop that doubles \<open>len\<close>.\<close>

partial_function (option) double_len :: "nat \<Rightarrow> nat \<Rightarrow> nat option" where
  "double_len need len = (if need > len then double_len need (len * 2 mod 2 ^ 64) else Some len)"

text \<open>The loop that walks back over newlines and terminators; \<open>line[-1]\<close> is outside the block.\<close>

fun trim_end :: "bytes \<Rightarrow> nat \<Rightarrow> nat option" where
  "trim_end m 0 = (if m \<noteq> [] \<and> m ! 0 \<noteq> NL \<and> m ! 0 \<noteq> NUL then Some 0 else None)"
| "trim_end m (Suc read) =
     (if Suc read < length m
      then if m ! Suc read = NL \<or> m ! Suc read = NUL then trim_end m read else Some (Suc read)
      else None)"

definition stat_suffix :: bytes where
  "stat_suffix = '':1|c'' @ [NL, NUL]"

text \<open>The loop around \<open>send\<close>: whether everything was sent, and all bytes that were taken so far.\<close>

function send_loop :: "(nat \<Rightarrow> int) \<Rightarrow> nat \<Rightarrow> bytes \<Rightarrow> nat \<Rightarrow> bytes \<Rightarrow> bool \<times> bytes" where
  "send_loop sends k line total_sent out =
     (if total_sent < length line then
        (let bytes_sent = min (sends k) (int (length line - total_sent)) in
         if bytes_sent \<le> 0 then (False, out)
         else send_loop sends (Suc k) line (total_sent + nat bytes_sent) (out @ take (nat bytes_sent) (drop total_sent line)))
      else (True, out))"
  by pat_completeness auto
termination
  by (relation "measure (\<lambda>(_, _, line, total_sent, _). length line - total_sent)") auto

declare send_loop.simps [simp del]

text \<open>The body of the main loop after \<open>getline\<close>: the block and its size, or nothing on the way to \<open>err\<close>.\<close>

definition send_stat :: "line_answers \<Rightarrow> nat \<Rightarrow> mblock \<Rightarrow> nat \<Rightarrow> bytes \<Rightarrow> ((mblock \<times> nat) option \<times> bytes) option" where
  "send_stat a read line len out =
     do {
       len' \<leftarrow> double_len (read + 6) len;
       np \<leftarrow> (if read + 6 > len then mrealloc (la_realloc a) line len' else Some line);
       if np = NullPtr then Some (None, out)
       else do {
         last \<leftarrow> trim_end (block_bytes np) read;
         line' \<leftarrow> mstore np (last + 1) stat_suffix;
         (if NUL \<in> set (block_bytes line')
          then case send_loop (la_send a) 0 (c_str (block_bytes line')) 0 out of
                 (sent, out') \<Rightarrow> Some (if sent then Some (line', len') else None, out')
          else None)
       }
     }"

section \<open>The program\<close>

function stress_loop ::
    "(nat \<Rightarrow> line_answers) \<Rightarrow> mblock \<Rightarrow> nat \<Rightarrow> bytes \<Rightarrow> nat \<Rightarrow> bytes \<Rightarrow> (nat option \<times> bytes) option" where
  "stress_loop E line len contents lines_sent out =
     (case getline (E lines_sent) line len contents of
        None \<Rightarrow> Some (Some lines_sent, out)
      | Some (read, line1, len1, contents') \<Rightarrow>
          do {
            (r, out') \<leftarrow> send_stat (E lines_sent) read line1 len1 out;
            case r of
              None \<Rightarrow> Some (None, out')
            | Some (line2, len2) \<Rightarrow> stress_loop E line2 len2 contents' (Suc lines_sent) out'
          })"
  by pat_completeness auto

lemma next_line_shorter: "contents \<noteq> [] \<Longrightarrow> next_line contents = (l, rest) \<Longrightarrow> length rest < length contents"
  by (auto simp: next_line_def cut_at_Some split: option.splits)

lemma getline_shorter: "getline a line len contents = Some (read, line', len', rest) \<Longrightarrow> length rest < length contents"
  by (auto simp: getline_def Let_def split: if_splits prod.splits option.splits intro: next_line_shorter)

termination stress_loop
  by (relation "measure (\<lambda>(_, _, _, contents, _). length contents)") (auto dest: getline_shorter)

declare stress_loop.simps [simp del]

text \<open>\<open>timersub\<close> of two values of \<open>gettimeofday\<close>, in microseconds.\<close>

definition timersub :: "int \<times> int \<Rightarrow> int \<times> int \<Rightarrow> int \<times> int" where
  "timersub a b =
     (let sec = fst a - fst b; usec = snd a - snd b
      in if usec < 0 then (sec - 1, usec + 1000000) else (sec, usec))"

text \<open>
  The environment: memory for the copy of the file name, the results of \<open>socket\<close> and \<open>connect\<close>, the
  contents of a file that can be opened, the two readings of the clock, and the answers line by line.
\<close>

record stress_env =
  se_strdup :: "nat \<Rightarrow> allocator"
  se_socket :: int
  se_connect :: "16 word \<Rightarrow> int"
  se_open :: "bytes \<Rightarrow> bytes option"
  se_start :: "(int \<times> int) option"
  se_end :: "(int \<times> int) option"
  se_lines :: "nat \<Rightarrow> line_answers"

text \<open>
  The options: the table of the long ones and the loop over the results of \<open>getopt_long\<close>, which are
  the characters \<open>h\<close>, \<open>p\<close> and \<open>s\<close>. \<open>Inl\<close> is the end of the program. The port is narrowed to 16 bits.
\<close>

definition stress_long_options :: "long_option list" where
  "stress_long_options =
     [\<lparr>lo_name = ''port'', lo_has_arg = required_argument, lo_val = CHR ''p''\<rparr>,
      \<lparr>lo_name = ''stat-names'', lo_has_arg = required_argument, lo_val = CHR ''s''\<rparr>,
      \<lparr>lo_name = ''help'', lo_has_arg = no_argument, lo_val = CHR ''h''\<rparr>]"

fun stress_options :: "(nat \<Rightarrow> allocator) \<Rightarrow> (int \<times> bytes) list \<Rightarrow> 16 word \<times> bytes option \<Rightarrow> int + (16 word \<times> bytes option)" where
  "stress_options As [] st = Inr st"
| "stress_options As ((opt, optarg) # rest) (port, stat_names) =
     (let c = sint (word_of_int opt :: 8 word) in
      if c = -1 then Inr (port, stat_names)
      else if c = 0 \<or> c = 104 then Inl 1
      else if c = 112 then stress_options As rest (word_of_int (fst (strtol10 optarg)), stat_names)
      else if c = 115 then
        (case strdup (As (length rest)) optarg of
           None \<Rightarrow> Inl 1
         | Some s \<Rightarrow> stress_options As rest (port, Some s))
      else Inl 1)"

definition stress_command :: "stress_env \<Rightarrow> bytes list \<Rightarrow> (int + (16 word \<times> bytes option)) option" where
  "stress_command e args =
     (let (opts, ind) = getopt_long ''p:s:h'' stress_long_options args in
      case stress_options (se_strdup e) opts (0, None) of
        Inl rc \<Rightarrow> Some (Inl rc)
      | Inr st \<Rightarrow> if ind = None then None else Some (Inr st))"

text \<open>
  \<open>main\<close>: the exit status and the bytes that were sent. The last lines print the time as an \<open>unsigned
  long\<close>; converting a negative number of microseconds is undefined.
\<close>

definition stress_main :: "stress_env \<Rightarrow> bytes list \<Rightarrow> (int \<times> bytes) option" where
  "stress_main e args =
     do { command \<leftarrow> stress_command e args;
      case command of
        Inl rc \<Rightarrow> Some (rc, [])
      | Inr (port, None) \<Rightarrow> Some (1, [])
      | Inr (port, Some stat_names) \<Rightarrow>
          if port = 0 then Some (1, [])
          else if se_socket e = -1 then Some (1, [])
          else if se_connect e port < 0 then Some (1, [])
          else case se_open e stat_names of
            None \<Rightarrow> Some (1, [])
          | Some contents \<Rightarrow>
              (case se_start e of
                 None \<Rightarrow> Some (1, [])
               | Some t0 \<Rightarrow>
                   do {
                     (r, out) \<leftarrow> stress_loop (se_lines e) NullPtr 0 contents 0 [];
                     case r of
                       None \<Rightarrow> Some (1, out)
                     | Some lines_sent \<Rightarrow>
                         if lines_sent = 0 then Some (1, out)
                         else (case se_end e of
                           None \<Rightarrow> Some (1, out)
                         | Some t1 \<Rightarrow>
                             (let total = timersub t1 t0; total_micros = fst total * 1000000 + snd total
                              in if 0 \<le> total_micros \<and> total_micros < 2 ^ 63 then Some (0, out) else None))
                   }) }"

section \<open>The loops\<close>

lemma double_len_returns:
  "0 < len \<Longrightarrow> need \<le> 2 ^ 63 \<Longrightarrow>
   \<exists>len'. double_len need len = Some len' \<and> need \<le> len' \<and> (need \<le> len \<longrightarrow> len' = len) \<and> (len < need \<longrightarrow> len < len' \<and> len' < 2 * need)"
proof (induction "need - len" arbitrary: len rule: less_induct)
  case less
  show ?case
  proof (cases "need \<le> len")
    case False
    then have wrap: "len * 2 mod 2 ^ 64 = len * 2" using less.prems(2) by simp
    have "need - len * 2 < need - len" using False less.prems(1) by simp
    with less.hyps [of "len * 2"] less.prems obtain len' where
      "double_len need (len * 2) = Some len'" "need \<le> len'" "need \<le> len * 2 \<longrightarrow> len' = len * 2" "len * 2 < need \<longrightarrow> len * 2 < len' \<and> len' < 2 * need"
      by auto
    with False wrap less.prems(1) show ?thesis by (subst double_len.simps) (cases "need \<le> len * 2"; simp)
  qed (simp add: double_len.simps)
qed

lemma trim_end_skips:
  assumes "name \<noteq> []" "last name \<noteq> NL" "last name \<noteq> NUL"
  shows "set pad \<subseteq> {NL, NUL} \<Longrightarrow> trim_end (name @ pad @ r) (length name + length pad - 1) = Some (length name - 1)"
proof (induction pad arbitrary: r rule: rev_induct)
  case Nil
  have "(name @ r) ! (length name - 1) = last name" using assms(1) by (simp add: nth_append last_conv_nth)
  with assms show ?case by (cases "length name - 1") auto
next
  case (snoc c pad)
  let ?m = "name @ (pad @ [c]) @ r" and ?n = "length name + length pad - 1"
  have n: "length name + length (pad @ [c]) - 1 = Suc ?n" using assms(1) by (cases name) auto
  have "?m ! Suc ?n = c" using assms(1) by (cases name) (auto simp: nth_append)
  moreover have "Suc ?n < length ?m" using assms(1) by (cases name) auto
  ultimately have "trim_end ?m (Suc ?n) = trim_end ?m ?n" using snoc.prems by auto
  also have "\<dots> = Some (length name - 1)" using snoc by simp
  finally show ?case unfolding n .
qed

lemma trim_end_leaves: "set pad \<subseteq> {NL, NUL} \<Longrightarrow> n < length pad \<Longrightarrow> trim_end (pad @ r) n = None"
proof (induction n)
  case 0
  then show ?case by (cases pad) auto
next
  case (Suc n)
  then have "pad ! Suc n \<in> {NL, NUL}" by (meson nth_mem subsetD)
  with Suc show ?case by (auto simp: nth_append)
qed

lemma send_loop_sends:
  "\<exists>sent out' rest. send_loop sends k line ts out = (sent, out @ out') \<and> drop ts line = out' @ rest \<and>
     (sent \<longleftrightarrow> rest = []) \<and> ((\<forall>k. 0 < sends k) \<longrightarrow> sent)"
proof (induction "length line - ts" arbitrary: k ts out rule: less_induct)
  case less
  let ?n = "min (sends k) (int (length line - ts))"
  have eq: "send_loop sends k line ts out =
      (if ts < length line then
         if ?n \<le> 0 then (False, out)
         else send_loop sends (Suc k) line (ts + nat ?n) (out @ take (nat ?n) (drop ts line))
       else (True, out))"
    by (subst send_loop.simps) (simp only: Let_def)
  consider (finished) "length line \<le> ts" | (fails) "ts < length line" "?n \<le> 0" | (more) "ts < length line" "0 < ?n"
    by linarith
  then show ?case
  proof cases
    case more
    then have "length line - (ts + nat ?n) < length line - ts" by linarith
    from less [OF this, of "Suc k" "out @ take (nat ?n) (drop ts line)"] obtain sent out' rest where
      r: "send_loop sends (Suc k) line (ts + nat ?n) (out @ take (nat ?n) (drop ts line)) =
          (sent, (out @ take (nat ?n) (drop ts line)) @ out')"
        "drop (ts + nat ?n) line = out' @ rest" "sent \<longleftrightarrow> rest = []" "(\<forall>k. 0 < sends k) \<longrightarrow> sent"
      by blast
    have "drop ts line = (take (nat ?n) (drop ts line) @ out') @ rest"
      using r(2) by (metis append.assoc append_take_drop_id drop_drop add.commute)
    with r eq more show ?thesis by (intro exI [of _ sent] exI [of _ "take (nat ?n) (drop ts line) @ out'"] exI [of _ rest]) simp
  next
    case fails
    then have "\<not> 0 < sends k" by linarith
    with eq fails show ?thesis by (intro exI [of _ False] exI [of _ "[]"] exI [of _ "drop ts line"]) auto
  next
    case finished
    with eq show ?thesis by (intro exI [of _ True] exI [of _ "[]"]) simp
  qed
qed

section \<open>A stat\<close>

text \<open>What is sent for a name, and for a list of names.\<close>

definition stat_line :: "bytes \<Rightarrow> bytes" where
  "stat_line name = name @ '':1|c''"

definition stat_stream :: "bytes list \<Rightarrow> bytes" where
  "stat_stream names = concat (map (\<lambda>name. stat_line name @ [NL]) names)"

lemma stat_stream_simps [simp]:
  "stat_stream [] = []"
  "stat_stream (name # names) = stat_line name @ NL # stat_stream names"
  by (simp_all add: stat_stream_def)

text \<open>A name the program can handle, and a block as \<open>getline\<close> and \<open>realloc\<close> leave it.\<close>

definition stat_name :: "bytes \<Rightarrow> bool" where
  "stat_name name \<longleftrightarrow> name \<noteq> [] \<and> NL \<notin> set name \<and> NUL \<notin> set name"

definition line_block :: "mblock \<Rightarrow> nat \<Rightarrow> bool" where
  "line_block line len \<longleftrightarrow> (case line of NullPtr \<Rightarrow> len = 0 | Freed \<Rightarrow> False | Block m \<Rightarrow> length m = len \<and> len < 2 ^ 63)"

lemma stat_written:
  assumes "stat_name name" "set pad \<subseteq> {NL, NUL}" "length name + length stat_suffix \<le> length (name @ pad @ r)"
  shows "\<exists>r'. do { last \<leftarrow> trim_end (name @ pad @ r) (length name + length pad - 1);
      mstore (Block (name @ pad @ r)) (last + 1) stat_suffix } = Some (Block (stat_line name @ NL # NUL # r')) \<and>
    length (stat_line name @ NL # NUL # r') = length (name @ pad @ r)"
proof -
  have name: "name \<noteq> []" "last name \<noteq> NL" "last name \<noteq> NUL"
    using assms(1) unfolding stat_name_def by (metis last_in_set)+
  have "Suc (length name - 1) = length name" using name(1) by (cases name) auto
  with trim_end_skips [OF name assms(2)] assms(3) show ?thesis
    by (intro exI [of _ "drop (length name + length stat_suffix) (name @ pad @ r)"]) (auto simp: stat_line_def stat_suffix_def)
qed

text \<open>An environment that refuses nothing.\<close>

definition generous :: "line_answers \<Rightarrow> bool" where
  "generous a \<longleftrightarrow> la_size a < 2 ^ 63 \<and> (\<forall>n < 2 ^ 63. malloc (la_getline a) n \<noteq> None \<and> malloc (la_realloc a) n \<noteq> None) \<and>
     (\<forall>k. 0 < la_send a k)"

text \<open>The block is large enough when the suffix is written.\<close>

lemma grown_block:
  assumes "length m = len" "len < 2 ^ 63" "read < len" "read < 2 ^ 61"
  shows "\<exists>len' np. double_len (read + 6) len = Some len' \<and>
    (if read + 6 > len then mrealloc A (Block m) len' else Some (Block m)) = Some np \<and>
    (np = NullPtr \<or> (\<exists>r. np = Block (m @ r) \<and> length (m @ r) = len' \<and> read + 6 \<le> len' \<and> len' < 2 ^ 63)) \<and>
    ((\<forall>n < 2 ^ 63. malloc A n \<noteq> None) \<longrightarrow> np \<noteq> NullPtr)"
proof -
  obtain len' where d: "double_len (read + 6) len = Some len'" "read + 6 \<le> len'" "read + 6 \<le> len \<longrightarrow> len' = len"
      "len < read + 6 \<longrightarrow> len < len' \<and> len' < 2 * (read + 6)"
    using double_len_returns [of len "read + 6"] assms(3,4) by auto
  show ?thesis
  proof (cases "read + 6 > len")
    case True
    then have "len' < 2 ^ 63" "length m \<le> len'" using d(4) assms(1,4) by simp_all
    then show ?thesis using d(1,2) True assms(1)
      by (cases "malloc A len'") (auto simp: mrealloc_def dest!: malloc_SomeD)
  qed (use d assms in auto)
qed

lemma send_stat_sends:
  assumes name: "stat_name name" and l: "l = name \<or> l = name @ [NL]"
    and m: "length (l @ NUL # r) = len" "len < 2 ^ 63" "length l < 2 ^ 61"
  shows "\<exists>res out' rest. send_stat a (length l) (Block (l @ NUL # r)) len out = Some (res, out @ out') \<and>
    stat_line name @ [NL] = out' @ rest \<and>
    (\<forall>line' len'. res = Some (line', len') \<longrightarrow> rest = [] \<and> line_block line' len') \<and> (generous a \<longrightarrow> res \<noteq> None)"
proof -
  let ?m = "l @ NUL # r"
  have "length l < len" using m(1) by simp
  from grown_block [OF m(1,2) this m(3), of "la_realloc a"] obtain len' np where
    np: "double_len (length l + 6) len = Some len'"
      "(if length l + 6 > len then mrealloc (la_realloc a) (Block ?m) len' else Some (Block ?m)) = Some np"
      "np = NullPtr \<or> (\<exists>r'. np = Block (?m @ r') \<and> length (?m @ r') = len' \<and> length l + 6 \<le> len' \<and> len' < 2 ^ 63)"
      "(\<forall>n < 2 ^ 63. malloc (la_realloc a) n \<noteq> None) \<longrightarrow> np \<noteq> NullPtr"
    by blast
  show ?thesis
  proof (cases "np = NullPtr")
    case True
    then have "send_stat a (length l) (Block ?m) len out = Some (None, out @ [])"
      using np(1,2) by (simp add: send_stat_def)
    moreover have "\<not> generous a" using np(4) True by (auto simp: generous_def)
    ultimately show ?thesis by blast
  next
    case False
    then obtain r' where r': "np = Block (?m @ r')" "length (?m @ r') = len'" "length l + 6 \<le> len'" "len' < 2 ^ 63"
      using np(3) by blast
    let ?pad = "if l = name then [NUL] else [NL, NUL]"
    have pad: "set ?pad \<subseteq> {NL, NUL}" "?m @ r' = name @ ?pad @ (r @ r')" "length l = length name + length ?pad - 1"
      using l by auto
    have "length name + length stat_suffix \<le> length (?m @ r')" using r'(2,3) l by (auto simp: stat_suffix_def)
    from stat_written [OF name pad(1) this [unfolded pad(2)]] obtain last q where
      w: "trim_end (?m @ r') (length l) = Some last" "mstore (Block (?m @ r')) (last + 1) stat_suffix = Some (Block (stat_line name @ NL # NUL # q))"
        "length (stat_line name @ NL # NUL # q) = len'"
      unfolding pad(2) [symmetric] pad(3) [symmetric] r'(2) by (auto split: Option.bind_splits)
    have str: "c_str (stat_line name @ NL # NUL # q) = stat_line name @ [NL]"
      using name c_str_append_NUL [of "stat_line name @ [NL]" q] by (simp add: stat_name_def stat_line_def)
    obtain sent out' rest where sl: "send_loop (la_send a) 0 (stat_line name @ [NL]) 0 out = (sent, out @ out')"
        "stat_line name @ [NL] = out' @ rest" "sent \<longleftrightarrow> rest = []" "(\<forall>k. 0 < la_send a k) \<longrightarrow> sent"
      using send_loop_sends [of "la_send a" 0 "stat_line name @ [NL]" 0 out] unfolding drop_0 by blast
    have "send_stat a (length l) (Block ?m) len out =
        Some (if sent then Some (Block (stat_line name @ NL # NUL # q), len') else None, out @ out')"
      using np(1,2) w(1,2) str sl(1) by (simp add: send_stat_def r'(1))
    with sl w(3) r'(4) show ?thesis by (auto simp: line_block_def generous_def)
  qed
qed

section \<open>A file\<close>

text \<open>The lines of a file, the last one with or without its newline, are the pieces of \<open>Receiving\<close>.\<close>

lemma next_line_pieces:
  assumes "contents \<noteq> []" "next_line contents = (l, rest)"
  obtains name where "udp_pieces contents = name # udp_pieces rest" "l = name \<or> l = name @ [NL]" "NL \<notin> set name"
    "length l \<le> length contents" "length rest < length contents"
proof (cases "cut_at NL contents")
  case None
  then have "l = contents" "rest = []" "NL \<notin> set contents" using assms(2) by (auto simp: next_line_def)
  then show ?thesis using assms(1) by (intro that [of contents]) (auto simp: udp_pieces_def)
next
  case (Some x)
  then obtain name where "contents = name @ NL # rest" "l = name @ [NL]" "NL \<notin> set name"
    using assms(2) by (cases x) (auto simp: next_line_def cut_at_Some)
  then show ?thesis by (intro that [of name]) auto
qed

lemma short_size: "(n :: nat) < 2 ^ 61 \<Longrightarrow> n + 1 < 2 ^ 63"
  by simp

lemma getline_cases:
  assumes "line_block line len" "contents \<noteq> []" "next_line contents = (l, rest)" "length l < 2 ^ 61"
  obtains (no_line) "getline a line len contents = None" "\<not> generous a"
  | (line) r len' where "getline a line len contents = Some (length l, Block (l @ NUL # r), len', rest)"
      "length (l @ NUL # r) = len'" "len' < 2 ^ 63"
proof (cases "length l + 1 \<le> len")
  case True
  then obtain m where "line = Block m" "length m = len" "len < 2 ^ 63"
    using assms(1) by (auto simp: line_block_def split: mblock.splits)
  then show ?thesis using True assms(2,3) by (intro line [of "drop (length l + 1) m" len]) (simp_all add: getline_def)
next
  case False
  let ?size = "max (la_size a) (length l + 1)"
  show ?thesis
  proof (cases "malloc (la_getline a) ?size")
    case None
    then have "\<not> generous a" using assms(4) unfolding generous_def by (metis max_less_iff_conj short_size)
    with None False assms show ?thesis by (intro no_line) (simp_all add: getline_def Let_def)
  next
    case (Some m)
    then show ?thesis using False assms(2,3) malloc_SomeD [OF Some]
      by (intro line [of "drop (length l + 1) m" ?size]) (simp_all add: getline_def Let_def)
  qed
qed

text \<open>One turn of the loop: it ends before the line, in the middle of it or on an error, or goes on after it.\<close>

lemma stress_loop_turn:
  assumes "line_block line len" "length contents < 2 ^ 61" "udp_pieces contents = name # names" "stat_name name"
  obtains (stops) res out' rest where "stress_loop E line len contents k out = Some (res, out @ out')"
      "stat_line name @ [NL] = out' @ rest" "res = None \<or> res = Some k \<and> out' = []" "\<not> generous (E k)"
  | (goes_on) line' len' contents' where "line_block line' len'" "length contents' < length contents" "udp_pieces contents' = names"
      "stress_loop E line len contents k out = stress_loop E line' len' contents' (Suc k) (out @ stat_line name @ [NL])"
proof -
  have ne: "contents \<noteq> []" using assms(3) by (auto simp: udp_pieces_def)
  obtain l rest where l: "next_line contents = (l, rest)" by fastforce
  from next_line_pieces [OF ne l] assms(3) have
    name: "l = name \<or> l = name @ [NL]" "length l < 2 ^ 61" "udp_pieces rest = names" "length rest < length contents"
    using assms(2) by (metis le_less_trans list.inject)+
  note eq = stress_loop.simps [of E line len contents k out]
  from assms(1) ne l name(2) show ?thesis
  proof (cases rule: getline_cases [of line len contents l rest "E k"])
    case no_line
    then show ?thesis using eq by (intro stops [of "Some k" "[]"]) simp_all
  next
    case (line r len1)
    from send_stat_sends [OF assms(4) name(1) line(2,3) name(2), of "E k" out] obtain res out' rest1 where
      s: "send_stat (E k) (length l) (Block (l @ NUL # r)) len1 out = Some (res, out @ out')"
        "stat_line name @ [NL] = out' @ rest1"
        "\<forall>line' len'. res = Some (line', len') \<longrightarrow> rest1 = [] \<and> line_block line' len'" "generous (E k) \<longrightarrow> res \<noteq> None"
      by blast
    show ?thesis
    proof (cases res)
      case None
      then show ?thesis using eq line(1) s by (intro stops [of None out' rest1]) auto
    next
      case (Some x)
      obtain line' len' where x: "x = (line', len')" by fastforce
      with s(3) Some have "rest1 = []" "line_block line' len'" by blast+
      then show ?thesis using eq line(1) s(1,2) Some x name(3,4) by (intro goes_on [of line' len' rest]) simp_all
    qed
  qed
qed

lemma stress_loop_sends:
  assumes "line_block line len" "length contents < 2 ^ 61" "udp_pieces contents = names" "\<forall>name \<in> set names. stat_name name"
  shows "\<exists>res out' rest. stress_loop E line len contents k out = Some (res, out @ out') \<and> stat_stream names = out' @ rest \<and>
     (\<forall>n. res = Some n \<longrightarrow> k \<le> n \<and> out' = stat_stream (take (n - k) names)) \<and>
     ((\<forall>k. generous (E k)) \<longrightarrow> res = Some (k + length names))"
  using assms
proof (induction names arbitrary: line len contents k out)
  case Nil
  then have "contents = []" by (metis list.distinct(1) next_line_pieces surj_pair)
  then show ?case by (simp add: stress_loop.simps [of _ _ _ "[]"] getline_def)
next
  case (Cons name names)
  have name: "stat_name name" "\<forall>name \<in> set names. stat_name name" using Cons.prems(4) by simp_all
  from Cons.prems(1-3) name(1) show ?case
  proof (cases rule: stress_loop_turn [of line len contents name names E k out])
    case (stops res out' rest)
    then have "stat_stream (name # names) = out' @ (rest @ stat_stream names)"
      by (metis append.assoc append_Cons append_Nil stat_stream_simps(2))
    with stops show ?thesis by (intro exI [of _ res] exI [of _ out'] exI [of _ "rest @ stat_stream names"]) auto
  next
    case (goes_on line' len' contents')
    let ?out = "stat_line name @ [NL]"
    have "length contents' < 2 ^ 61" using goes_on(2) Cons.prems(2) by linarith
    from Cons.IH [OF goes_on(1) this goes_on(3) name(2), of "Suc k" "out @ ?out"] obtain res out' rest where
      i: "stress_loop E line' len' contents' (Suc k) (out @ ?out) = Some (res, (out @ ?out) @ out')" "stat_stream names = out' @ rest"
        "\<forall>n. res = Some n \<longrightarrow> Suc k \<le> n \<and> out' = stat_stream (take (n - Suc k) names)"
        "(\<forall>k. generous (E k)) \<longrightarrow> res = Some (Suc k + length names)"
      by blast
    have "k \<le> n \<and> ?out @ out' = stat_stream (take (n - k) (name # names))" if "res = Some n" for n
      using i(3) that by (cases n) (auto simp: Suc_diff_le)
    moreover have "stress_loop E line len contents k out = Some (res, out @ (?out @ out'))" using i(1) goes_on(4) by simp
    moreover have "stat_stream (name # names) = (?out @ out') @ rest" using i(2) by simp
    ultimately show ?thesis using i(4) by (intro exI [of _ res] exI [of _ "?out @ out'"] exI [of _ rest]) simp
  qed
qed

section \<open>Properties of the load generator\<close>

text \<open>A run that gets as far as the loop, with a clock that does not go back.\<close>

definition stress_ready :: "stress_env \<Rightarrow> bytes list \<Rightarrow> bytes \<Rightarrow> bool" where
  "stress_ready e args contents \<longleftrightarrow>
     (\<exists>port f t0. stress_command e args = Some (Inr (port, Some f)) \<and> port \<noteq> 0 \<and> se_socket e \<noteq> -1 \<and>
        0 \<le> se_connect e port \<and> se_open e f = Some contents \<and> se_start e = Some t0 \<and>
        (\<forall>t1. se_end e = Some t1 \<longrightarrow> (let t = timersub t1 t0 in 0 \<le> fst t * 1000000 + snd t \<and> fst t * 1000000 + snd t < 2 ^ 63)))"

definition stress_status :: "stress_env \<Rightarrow> nat option \<Rightarrow> int" where
  "stress_status e r = (case r of None \<Rightarrow> 1 | Some n \<Rightarrow> if n = 0 \<or> se_end e = None then 1 else 0)"

lemma stress_main_ready:
  assumes "stress_ready e args contents"
  shows "stress_main e args =
    map_option (\<lambda>(r, out). (stress_status e r, out)) (stress_loop (se_lines e) NullPtr 0 contents 0 [])"
proof -
  from assms obtain port f t0 where r: "stress_command e args = Some (Inr (port, Some f))" "port \<noteq> 0" "se_socket e \<noteq> -1"
      "0 \<le> se_connect e port" "se_open e f = Some contents" "se_start e = Some t0"
    and t: "\<And>t1. se_end e = Some t1 \<Longrightarrow> 0 \<le> fst (timersub t1 t0) * 1000000 + snd (timersub t1 t0) \<and>
      fst (timersub t1 t0) * 1000000 + snd (timersub t1 t0) < 2 ^ 63"
    unfolding stress_ready_def Let_def by blast
  from r have "stress_main e args = do {
      (r, out) \<leftarrow> stress_loop (se_lines e) NullPtr 0 contents 0 [];
      case r of
        None \<Rightarrow> Some (1, out)
      | Some n \<Rightarrow>
          if n = 0 then Some (1, out)
          else (case se_end e of
            None \<Rightarrow> Some (1, out)
          | Some t1 \<Rightarrow>
              (let total = timersub t1 t0; total_micros = fst total * 1000000 + snd total
               in if 0 \<le> total_micros \<and> total_micros < 2 ^ 63 then Some (0, out) else None)) }"
    by (simp add: stress_main_def)
  then show ?thesis using t by (cases "stress_loop (se_lines e) NullPtr 0 contents 0 []") (auto simp: stress_status_def Let_def split: option.split)
qed

lemma stress_main_sends:
  assumes "stress_ready e args contents" "length contents < 2 ^ 61" "\<forall>name \<in> set (udp_pieces contents). stat_name name"
  obtains res out rest where "stress_main e args = Some (stress_status e res, out)" "stat_stream (udp_pieces contents) = out @ rest"
    "\<forall>n. res = Some n \<longrightarrow> out = stat_stream (take n (udp_pieces contents))"
    "(\<forall>k. generous (se_lines e k)) \<longrightarrow> res = Some (length (udp_pieces contents))"
proof -
  have "line_block NullPtr 0" by (simp add: line_block_def)
  from stress_loop_sends [OF this assms(2) refl assms(3), of "se_lines e" 0 "[]"] obtain res out rest where
    l: "stress_loop (se_lines e) NullPtr 0 contents 0 [] = Some (res, out)" "stat_stream (udp_pieces contents) = out @ rest"
      "\<forall>n. res = Some n \<longrightarrow> out = stat_stream (take n (udp_pieces contents))"
      "(\<forall>k. generous (se_lines e k)) \<longrightarrow> res = Some (length (udp_pieces contents))"
    by auto
  have "stress_main e args = Some (stress_status e res, out)" using stress_main_ready [OF assms(1)] l(1) by simp
  from that [OF this l(2-4)] show ?thesis .
qed

lemma stress_status_0: "stress_status e res = 0 \<longleftrightarrow> (\<exists>n > 0. res = Some n) \<and> se_end e \<noteq> None"
  by (auto simp: stress_status_def split: option.splits)

text \<open>C28: whatever memory is granted and however the sends are cut, the load generator returns, and what it
  has sent is a prefix of the counters of the names in the file; if it returns 0, of whole lines. With
  enough memory and a network that takes every byte it sends all of them.\<close>

theorem stresstest_sends:
  assumes "stress_ready e args contents" "length contents < 2 ^ 61" "\<forall>name \<in> set (udp_pieces contents). stat_name name"
  shows "\<exists>rc out rest. stress_main e args = Some (rc, out) \<and> stat_stream (udp_pieces contents) = out @ rest \<and>
    (rc = 0 \<longrightarrow> (\<exists>n > 0. out = stat_stream (take n (udp_pieces contents)))) \<and>
    (contents \<noteq> [] \<and> se_end e \<noteq> None \<and> (\<forall>k. generous (se_lines e k)) \<longrightarrow> rc = 0 \<and> rest = [])"
proof -
  let ?ps = "udp_pieces contents"
  from assms obtain res out rest where l: "stress_main e args = Some (stress_status e res, out)" "stat_stream ?ps = out @ rest"
      "\<forall>n. res = Some n \<longrightarrow> out = stat_stream (take n ?ps)" "(\<forall>k. generous (se_lines e k)) \<longrightarrow> res = Some (length ?ps)"
    by (rule stress_main_sends)
  have "\<exists>n > 0. out = stat_stream (take n ?ps)" if "stress_status e res = 0" using l(3) that unfolding stress_status_0 by blast
  moreover have "stress_status e res = 0 \<and> rest = []" if "contents \<noteq> []" "se_end e \<noteq> None" "\<forall>k. generous (se_lines e k)"
  proof -
    have "?ps \<noteq> []" using that(1) by (metis list.distinct(1) next_line_pieces surj_pair)
    moreover have res: "res = Some (length ?ps)" using l(4) that(3) by blast
    moreover have "out = stat_stream ?ps" using l(3) res by simp
    ultimately show ?thesis using l(2) that(2) by (simp add: stress_status_0)
  qed
  ultimately show ?thesis using l(1,2) by blast
qed

lemma send_stat_empty:
  assumes "generous a" "length (NL # NUL # r) = len" "len < 2 ^ 63"
  shows "send_stat a 1 (Block (NL # NUL # r)) len out = None"
proof -
  have "1 < len" "(1 :: nat) < 2 ^ 61" using assms(2) by auto
  from grown_block [OF assms(2,3) this, of "la_realloc a"] assms(1) obtain len' np r' where
    np: "double_len (1 + 6) len = Some len'"
      "(if 1 + 6 > len then mrealloc (la_realloc a) (Block (NL # NUL # r)) len' else Some (Block (NL # NUL # r))) = Some np"
      "np = Block ((NL # NUL # r) @ r')"
    unfolding generous_def by blast
  have "trim_end ([NL, NUL] @ (r @ r')) 1 = None" by (intro trim_end_leaves) simp_all
  with np show ?thesis by (simp add: send_stat_def)
qed

lemma stress_loop_empty:
  assumes "line_block line len" "generous (E k)"
  shows "stress_loop E line len (NL # rest) k out = None"
proof -
  have l: "NL # rest \<noteq> []" "next_line (NL # rest) = ([NL], rest)" "length [NL] < 2 ^ 61"
    by (simp_all add: next_line_def cut_at_def)
  from assms(1) l show ?thesis
  proof (cases rule: getline_cases [of line len "NL # rest" "[NL]" rest "E k"])
    case (line r len')
    with send_stat_empty [OF assms(2), of r len' out] show ?thesis by (subst stress_loop.simps) simp
  qed (use assms(2) in blast)
qed

lemma stress_loop_stuck:
  assumes "line_block line len" "length (concat (map (\<lambda>name. name @ [NL]) names) @ NL # rest) < 2 ^ 61"
    and "\<forall>name \<in> set names. stat_name name" "\<forall>k. generous (E k)"
  shows "stress_loop E line len (concat (map (\<lambda>name. name @ [NL]) names) @ NL # rest) k out = None"
  using assms
proof (induction names arbitrary: line len k out)
  case Nil
  then show ?case by (simp add: stress_loop_empty)
next
  case (Cons name names)
  let ?c = "concat (map (\<lambda>name. name @ [NL]) names) @ NL # rest"
  have name: "stat_name name" "\<forall>name \<in> set names. stat_name name" using Cons.prems(3) by simp_all
  have c: "concat (map (\<lambda>name. name @ [NL]) (name # names)) @ NL # rest = name @ NL # ?c" by simp
  have l: "name @ NL # ?c \<noteq> []" "next_line (name @ NL # ?c) = (name @ [NL], ?c)" "length (name @ [NL]) < 2 ^ 61"
    using name(1) Cons.prems(2) by (simp_all add: next_line_def stat_name_def)
  from Cons.prems(1) l have "stress_loop E line len (name @ NL # ?c) k out = None"
  proof (cases rule: getline_cases [of line len "name @ NL # ?c" "name @ [NL]" ?c "E k"])
    case (line r len1)
    from send_stat_sends [OF name(1) _ line(2,3) l(3), of "E k" out] Cons.prems(4) obtain line' len' out' where
      "send_stat (E k) (length (name @ [NL])) (Block ((name @ [NL]) @ NUL # r)) len1 out = Some (Some (line', len'), out @ out')"
      "line_block line' len'"
      by (metis not_None_eq surj_pair)
    with line(1) Cons.IH [of line' len' "Suc k" "out @ out'"] Cons.prems(2,4) name(2) show ?thesis
      by (subst stress_loop.simps) simp
  qed (use Cons.prems(4) in blast)
  then show ?case unfolding c .
qed

text \<open>C39: an empty line in the file makes the program read before the start of its buffer: the walk back
  over the newline does not stop at the start of the line.\<close>

theorem stresstest_empty_line_unsafe:
  assumes "stress_ready e args (concat (map (\<lambda>name. name @ [NL]) names) @ NL # rest)"
    and "length (concat (map (\<lambda>name. name @ [NL]) names) @ NL # rest) < 2 ^ 61"
    and "\<forall>name \<in> set names. stat_name name" "\<forall>k. generous (se_lines e k)"
  shows "stress_main e args = None"
proof -
  have "line_block NullPtr 0" by (simp add: line_block_def)
  from stress_loop_stuck [OF this assms(2-4)] stress_main_ready [OF assms(1)] show ?thesis by simp
qed

section \<open>The load generator and the relay\<close>

text \<open>A name the relay has room for, and its counter as a line of the protocol.\<close>

definition relay_name :: "bytes \<Rightarrow> bool" where
  "relay_name name \<longleftrightarrow> stat_name name \<and> CHR '':'' \<notin> set name \<and> length name < KEY_BUFFER_SIZE"

lemma stat_line_relayable:
  assumes "relay_name name"
  shows "good_line (CHR '':'') (stat_line name)" "statsd_line (stat_line name)" "line_key (CHR '':'') (stat_line name) = Some name"
    "NL \<notin> set (stat_line name)" "NUL \<notin> set (stat_line name)" "stat_line name \<noteq> status_line"
proof -
  have n: "name \<noteq> []" "NL \<notin> set name" "NUL \<notin> set name" "CHR '':'' \<notin> set name" "length name < KEY_BUFFER_SIZE"
    using assms by (simp_all add: relay_name_def stat_name_def)
  have l: "stat_line name = name @ CHR '':'' # ''1|c''" by (simp add: stat_line_def)
  show k: "line_key (CHR '':'') (stat_line name) = Some name" using n by (simp add: l line_key_def)
  show nul: "NL \<notin> set (stat_line name)" "NUL \<notin> set (stat_line name)" using n by (simp_all add: l)
  show "stat_line name \<noteq> status_line"
  proof
    assume "stat_line name = status_line"
    then have "CHR '':'' \<in> set status_line" by (metis l in_set_conv_decomp)
    then show False by (simp add: status_line_def)
  qed
  have "strtod_converts ''1''" "''c'' \<in> set valid_stat_types" by code_simp+
  with n show "statsd_line (stat_line name)" unfolding statsd_line_def l
    by (intro exI [of _ name] exI [of _ "''1''"] exI [of _ "''c''"] exI [of _ "[]"]) simp
  show "good_line (CHR '':'') (stat_line name)"
    using k nul n(5) by (simp add: good_line_def l KEY_BUFFER_SIZE_def MAX_UDP_LENGTH_def)
qed

lemma split_stat_stream:
  "\<forall>name \<in> set names. relay_name name \<Longrightarrow> split_lines (stat_stream names) = (map stat_line names, [])"
  by (induction names) (simp_all add: stat_line_relayable)

text \<open>One counter that is not refused.\<close>

lemma relay_stat_line:
  assumes "serving (CHR '':'') statsd_line s" "envs_ok R" "relay_name name" "relay_handler R (stat_line name) s = Some (0, s')"
  shows "serving (CHR '':'') statsd_line s' \<and> target s' = target s \<and> malformed_lines s' = malformed_lines s \<and>
    (\<forall>p b. s_backends s p = Some b \<longrightarrow> (\<exists>b'. s_backends s' p = Some b' \<and>
      buffer_data (c_queue (bk_client b')) =
        buffer_data (c_queue (bk_client b)) @ (if target s name = Some p then stat_line name @ [NL] else []) \<and>
      relayed_lines b' = relayed_lines b + (if target s name = Some p then 1 else 0) \<and> dropped_lines b' = dropped_lines b))"
proof -
  let ?l = "stat_line name"
  note l = stat_line_relayable [OF assms(3)]
  have sv: "serving (CHR '':'') statsd_line (count_line s)" using assms(1) by (simp add: frame_simps)
  have e: "line_env_ok (R (s_lines s))" using assms(2) by (simp add: envs_ok_def)
  have r: "stats_relay_line (R (s_lines s)) (?l @ [NL, NUL]) (length ?l) (count_line s) = Some (0, s')"
    using assms(4) by (simp add: relay_handler_def split: if_splits)
  have sv': "serving (CHR '':'') statsd_line s'"
    using relaying.handle_law [of R "CHR '':''" statsd_line s ?l] assms l(1) by auto
  from sv l(1) e show ?thesis
  proof (cases rule: relay_line_cases)
    case (sent k p b rc b')
    have k: "k = name" "rc = 0" "s' = (count_line s)\<lparr>s_backends := (s_backends (count_line s))(p \<mapsto> b')\<rparr>"
      using sent(2,9) l(3) r by simp_all
    have "length ?l + 1 \<le> length (?l @ [NL, NUL])" by simp
    from send_to_backend_ok [OF sent(5) this, of "R (s_lines s)"] sent(6) k(2) have
      "buffer_data (c_queue (bk_client b')) = buffer_data (c_queue (bk_client b)) @ ?l @ [NL]"
      "relayed_lines b' = relayed_lines b + 1" "dropped_lines b' = dropped_lines b" by auto
    with sv' sent(3,4) k show ?thesis by (auto simp: count_line_def target_def)
  qed (use r in auto)
qed

text \<open>What a list of counters that are not refused leaves at a backend.\<close>

definition queued_for :: "stats_server \<Rightarrow> bytes list \<Rightarrow> nat \<Rightarrow> stats_backend \<Rightarrow> stats_backend \<Rightarrow> bool" where
  "queued_for s names p b b' \<longleftrightarrow>
     (let mine = filter (\<lambda>name. target s name = Some p) names in
      buffer_data (c_queue (bk_client b')) = buffer_data (c_queue (bk_client b)) @ stat_stream mine \<and>
      relayed_lines b' = relayed_lines b + of_nat (length mine) \<and> dropped_lines b' = dropped_lines b)"

lemma relay_stat_lines:
  assumes "serving (CHR '':'') statsd_line s" "envs_ok R" "\<forall>name \<in> set names. relay_name name"
    and "run_lines (relay_handler R) (map stat_line names) s = Some (0, s')"
  shows "malformed_lines s' = malformed_lines s \<and>
    (\<forall>p b. s_backends s p = Some b \<longrightarrow> (\<exists>b'. s_backends s' p = Some b' \<and> queued_for s names p b b'))"
  using assms
proof (induction names arbitrary: s)
  case Nil
  then show ?case by (auto simp: queued_for_def)
next
  case (Cons name names)
  then obtain s1 where s1: "relay_handler R (stat_line name) s = Some (0, s1)"
      "run_lines (relay_handler R) (map stat_line names) s1 = Some (0, s')"
    by (auto split: Option.bind_splits if_splits)
  have name: "relay_name name" "\<forall>name \<in> set names. relay_name name" using Cons.prems(3) by simp_all
  note h = relay_stat_line [OF Cons.prems(1,2) name(1) s1(1)]
  note i = Cons.IH [OF conjunct1 [OF h] Cons.prems(2) name(2) s1(2)]
  have "\<exists>b'. s_backends s' p = Some b' \<and> queued_for s (name # names) p b b'" if b: "s_backends s p = Some b" for p b
  proof -
    from h b obtain b1 where b1: "s_backends s1 p = Some b1" "buffer_data (c_queue (bk_client b1)) =
        buffer_data (c_queue (bk_client b)) @ (if target s name = Some p then stat_line name @ [NL] else [])"
      "relayed_lines b1 = relayed_lines b + (if target s name = Some p then 1 else 0)" "dropped_lines b1 = dropped_lines b"
      by blast
    from i b1(1) obtain b' where "s_backends s' p = Some b'" "queued_for s1 names p b1 b'" by blast
    with b1 h show ?thesis by (auto simp: queued_for_def Let_def)
  qed
  with h i show ?case by simp
qed

text \<open>C27: from the file of names to the backends. When the load generator returns 0 and a session of the
  relay that starts empty has taken all it sent, in any chunks and without an error, the session
  keeps no rest, no line counts as malformed, and every backend has at the end of its send queue
  exactly the counters of the names that hash to it, in the order of the file, each counted as
  relayed and none as dropped.\<close>

theorem stresstest_feeds_relay:
  assumes "stress_ready e args contents" "stress_main e args = Some (0, out)" "length contents < 2 ^ 61"
    and "\<forall>name \<in> set (udp_pieces contents). relay_name name"
    and "serving (CHR '':'') statsd_line s" "envs_ok R" "session_ok se" "buffer_data (ss_buffer se) = []"
    and "receives R (se, s) ds (se', s')" "concat ds = out"
  shows "\<exists>n > 0. out = stat_stream (take n (udp_pieces contents)) \<and>
    buffer_data (ss_buffer se') = [] \<and> malformed_lines s' = malformed_lines s \<and>
    (\<forall>p b. s_backends s p = Some b \<longrightarrow>
      (\<exists>b'. s_backends s' p = Some b' \<and> queued_for s (take n (udp_pieces contents)) p b b'))"
proof -
  have names: "\<forall>name \<in> set (udp_pieces contents). stat_name name" using assms(4) by (simp add: relay_name_def)
  from assms(1,3) names obtain res out' where "stress_main e args = Some (stress_status e res, out')"
      "\<forall>n. res = Some n \<longrightarrow> out' = stat_stream (take n (udp_pieces contents))"
    by (rule stress_main_sends)
  with assms(2) obtain n where n: "0 < n" "out = stat_stream (take n (udp_pieces contents))"
    by (metis Pair_inject option.inject stress_status_0)
  let ?names = "take n (udp_pieces contents)"
  have ok: "\<forall>name \<in> set ?names. relay_name name" using assms(4) by (meson in_set_takeD)
  have split: "split_lines (buffer_data (ss_buffer se) @ concat ds) = (map stat_line ?names, [])"
    using split_stat_stream [OF ok] assms(8,10) n(2) by simp
  have plain: "plain (map stat_line ?names)" using ok by (auto simp: plain_def stat_line_relayable)
  have r: "buffer_data (ss_buffer se') = []" "run_lines (relay_handler R) (map stat_line ?names) s = Some (0, set_tcp (bytes_recv_tcp s) s')"
    using receives_run [OF assms(9), unfolded fst_conv snd_conv split, OF assms(7)] assms(8) plain by simp_all
  have frame: "malformed_lines (set_tcp x s') = malformed_lines s'" "s_backends (set_tcp x s') = s_backends s'" for x
    by (simp_all add: set_tcp_def)
  from relay_stat_lines [OF assms(5,6) ok r(2)] show ?thesis unfolding frame using n r(1) by blast
qed

section \<open>An example\<close>

text \<open>A file with one name, and one with an empty line.\<close>

definition easy_answers :: line_answers where
  "easy_answers = \<lparr>la_size = 120, la_getline = (\<lambda>_. Some []), la_realloc = (\<lambda>_. Some []), la_send = (\<lambda>_. 100)\<rparr>"

definition stress_example :: "bytes \<Rightarrow> stress_env" where
  "stress_example contents =
     \<lparr>se_strdup = (\<lambda>_ _. Some []), se_socket = 3, se_connect = (\<lambda>_. 0), se_open = (\<lambda>_. Some contents),
      se_start = Some (7, 999999), se_end = Some (8, 1), se_lines = (\<lambda>_. easy_answers)\<rparr>"

definition stress_args :: "bytes list" where
  "stress_args = [''-p'', ''8125'', ''--stat-names=names'']"

lemma stress_example_ready:
  "stress_ready (stress_example contents) stress_args contents" "\<forall>k. generous (se_lines (stress_example contents) k)"
proof -
  have "getopt_long ''p:s:h'' stress_long_options stress_args = ([(112, ''8125''), (115, ''names'')], Some 4)" by code_simp
  then have o: "stress_command (stress_example contents) stress_args = Some (Inr (8125, Some ''names''))"
    by (simp add: stress_command_def stress_example_def strtol10_def digits_value_def c_isspace_def c_isdigit_def strdup_def malloc_def)
  show "stress_ready (stress_example contents) stress_args contents"
    unfolding stress_ready_def
    by (intro exI [of _ 8125] exI [of _ "''names''"] exI [of _ "(7, 999999)"]) (simp add: o, simp add: stress_example_def timersub_def)
  show "\<forall>k. generous (se_lines (stress_example contents) k)"
    by (simp add: stress_example_def easy_answers_def generous_def)
qed

lemma stress_example_pieces: "udp_pieces (''a'' @ [NL]) = [''a'']" "relay_name ''a''"
  using udp_pieces_line [of "''a''" "[]"] by (simp_all add: udp_pieces_def relay_name_def stat_name_def KEY_BUFFER_SIZE_def)

lemma stress_example_main: "stress_main (stress_example (''a'' @ [NL])) stress_args = Some (0, ''a:1|c'' @ [NL])"
proof -
  let ?e = "stress_example (''a'' @ [NL])"
  have names: "\<forall>name \<in> set (udp_pieces (''a'' @ [NL])). stat_name name" using stress_example_pieces by (simp add: relay_name_def)
  have short: "length (''a'' @ [NL]) < 2 ^ 61" by simp
  from stress_example_ready(1) short names obtain res out where
    m: "stress_main ?e stress_args = Some (stress_status ?e res, out)"
      "\<forall>n. res = Some n \<longrightarrow> out = stat_stream (take n (udp_pieces (''a'' @ [NL])))"
      "(\<forall>k. generous (se_lines ?e k)) \<longrightarrow> res = Some (length (udp_pieces (''a'' @ [NL])))"
    by (rule stress_main_sends)
  then have "res = Some 1" "out = stat_stream [''a'']"
    using stress_example_ready(2) [of "''a'' @ [NL]"] unfolding stress_example_pieces(1) by simp_all
  then show ?thesis using m(1) by (simp add: stress_status_def stress_example_def stat_line_def)
qed

text \<open>A session that takes the counter.\<close>

lemma example_counter_taken:
  assumes "create_example protocol_parser_statsd (Some validate_statsd) = Some (Some s)" "session_ok se"
    and "buffer_data (ss_buffer se) = []" "\<forall>A. recv_room A (ss_buffer se) = Some (0, ss_buffer se)" "6 \<le> buffer_spacecount (ss_buffer se)"
  shows "\<exists>se' s'. receives (\<lambda>_. good_line_env) (se, s) [''a:1|c'' @ [NL]] (se', s')"
proof -
  let ?R = "\<lambda>_. good_line_env" and ?d = "''a:1|c'' @ [NL]" and ?x = "bytes_recv_tcp s + of_nat (length (''a:1|c'' @ [NL]))"
  let ?s = "count_line (s\<lparr>bytes_recv_tcp := ?x\<rparr>)"
  have sv: "serving (CHR '':'') statsd_line ?s" using example_serving(1) [OF assms(1)] by (simp add: frame_simps)
  have q: "all_quiet ?s" "s_config ?s = ring_config" using example_server_inv [OF assms(1)] by (simp_all add: all_quiet_def count_line_def)
  obtain p where "target ?s ''a'' = Some p" using example_serving(2) [OF assms(1), of "''a''"] by (auto simp: target_def count_line_def)
  from example_accepted [OF sv q this] obtain s' where
    r: "stats_relay_line good_line_env (''a:1|c'' @ [NL, NUL]) (length ''a:1|c'') ?s = Some (0, s')" by blast
  have lines: "split_lines ?d = ([''a:1|c''], [])" using split_lines_line [of "''a:1|c''" "[]"] by simp
  have "run_lines (relay_handler ?R) [''a:1|c''] (s\<lparr>bytes_recv_tcp := ?x\<rparr>) = Some (0, s')"
    using r by (simp add: relay_handler_def MAX_UDP_LENGTH_def)
  then have "run_lines (handle_line ?R (ss_sd se)) [''a:1|c''] (s\<lparr>bytes_recv_tcp := ?x\<rparr>) = Some (0, s')"
    by (subst run_handle_line) (simp_all add: status_line_def)
  with stats_recv_eq [OF assms(2), of "\<lambda>_. None" "ss_buffer se" ?d ?R s] assms(3-5) lines obtain b' where
    "stats_recv (\<lambda>_. None) ?R (Recv_data ?d) se s = Some (0, Some (se\<lparr>ss_buffer := b'\<rparr>), s')"
    by auto
  moreover have "recv_room (\<lambda>_. None) (ss_buffer se) = Some (0, ss_buffer se)" "length ?d \<le> buffer_spacecount (ss_buffer se)"
    using assms(4,5) by simp_all
  ultimately show ?thesis using receives_more receives_none by blast
qed

theorem stresstest_sends_witness:
  "stress_main (stress_example (''a'' @ [NL])) stress_args = Some (0, ''a:1|c'' @ [NL])"
proof -
  have "\<forall>name \<in> set (udp_pieces (''a'' @ [NL])). stat_name name" unfolding stress_example_pieces(1) by (simp add: stat_name_def)
  from stresstest_sends [OF stress_example_ready(1) _ this] stress_example_ready(2) [of "''a'' @ [NL]"] show ?thesis
    unfolding stress_example_pieces(1) by (auto simp: stress_example_def stat_line_def)
qed

theorem stresstest_feeds_relay_witness:
  "\<exists>s s' se se' p b b'. create_example protocol_parser_statsd (Some validate_statsd) = Some (Some s) \<and>
     receives (\<lambda>_. good_line_env) (se, s) [''a:1|c'' @ [NL]] (se', s') \<and>
     s_backends s p = Some b \<and> s_backends s' p = Some b' \<and> queued_for s [''a''] p b b' \<and> malformed_lines s' = malformed_lines s"
proof -
  obtain s where s: "create_example protocol_parser_statsd (Some validate_statsd) = Some (Some s)"
    using example_statsd_server by blast
  obtain b0 where b0: "session_ok \<lparr>ss_buffer = b0, ss_sd = 3\<rparr>" "buffer_data b0 = []" "buffer_spacecount b0 = 4096"
      "\<forall>A. recv_room A b0 = Some (0, b0)"
    using fresh_session by blast
  let ?se = "\<lparr>ss_buffer = b0, ss_sd = 3\<rparr>"
  obtain se' s' where r: "receives (\<lambda>_. good_line_env) (?se, s) [''a:1|c'' @ [NL]] (se', s')"
    using example_counter_taken [OF s b0(1)] b0 by auto
  obtain p where p: "target s ''a'' = Some p" using example_serving(2) [OF s] by blast
  obtain b where b: "s_backends s p = Some b"
    using target_live [of s "''a''" p] example_serving(1) [OF s] p by (auto simp: serving_def)
  have "\<forall>name \<in> set (udp_pieces (''a'' @ [NL])). relay_name name" using stress_example_pieces by simp
  note fed = stresstest_feeds_relay [OF stress_example_ready(1) stress_example_main _ this example_serving(1) [OF s] _ b0(1) _ r]
  obtain n where n: "n > 0" "malformed_lines s' = malformed_lines s"
      "\<exists>b'. s_backends s' p = Some b' \<and> queued_for s (take n (udp_pieces (''a'' @ [NL]))) p b b'"
    using fed b b0(2) good_line_env_ok by (auto simp: envs_ok_def)
  have "take n [''a''] = [''a'']" using n(1) by (cases n) simp_all
  with n(2,3) r s b show ?thesis unfolding stress_example_pieces(1) by metis
qed

theorem stresstest_empty_line_unsafe_witness:
  "stress_main (stress_example (''a'' @ [NL, NL])) stress_args = None"
  using stresstest_empty_line_unsafe [of "stress_example (''a'' @ [NL, NL])" stress_args "[''a'']" "[]"]
    stress_example_ready [of "''a'' @ [NL, NL]"]
  by (simp add: stat_name_def)

end
