(* ===== verification/Status.thy ===== *)
theory Status
  imports Receiving
begin

text \<open>
  The status report of \<open>src/src/stats.c\<close> (\<open>stats_send_statistics\<close>): what the reply to a \<open>status\<close> line
  contains, that the loop that sends it ends, and that answering keeps the server as it is. With it,
  every line a TCP client can send within the limits of the fixed-size buffers is handled: the
  session's reads fulfil the contract of the TCP front end.
\<close>

section \<open>Printing into the buffer\<close>

text \<open>
  What a sequence of texts leaves in a buffer with \<open>space\<close> bytes free: a text that is longer than the
  space is dropped, and one that fits exactly loses its last byte to the terminator.
\<close>

fun printed :: "nat \<Rightarrow> bytes list \<Rightarrow> bytes" where
  "printed space [] = []"
| "printed space (t # ts) =
     (if length t < space then t @ printed (space - length t) ts
      else if length t = space \<and> 0 < space then take (space - 1) t @ NUL # printed 0 ts
      else printed space ts)"

lemma printed_fits: "length (concat ts) < space \<Longrightarrow> printed space ts = concat ts"
  by (induction ts arbitrary: space) auto

lemma buffer_overwrite:
  assumes wf: "buffer_wf b" and room: "length d \<le> buffer_spacecount b" "k \<le> length d"
  shows "\<exists>b1 b2. buffer_write_tail b d = Some b1 \<and> buffer_wf b1 \<and> buffer_data b1 = buffer_data b \<and>
    buffer_spacecount b1 = buffer_spacecount b \<and> buffer_produced b1 k = (0, b2) \<and> buffer_wf b2 \<and>
    buffer_data b2 = buffer_data b @ take k d \<and> buffer_spacecount b2 = buffer_spacecount b - k"
proof -
  from wf obtain m where m: "b_ptr b = Block m" "length m = b_size b" "b_head b \<le> b_tail b"
      "b_tail b \<le> b_size b" "b_size b < 2 ^ 63"
    by (rule buffer_wfE)
  from wf room m have fits: "b_tail b + length d \<le> length m" by (simp add: buffer_simps)
  let ?m = "take (b_tail b) m @ d @ drop (b_tail b + length d) m"
  let ?b1 = "b\<lparr>b_ptr := Block ?m\<rparr>" and ?b2 = "b\<lparr>b_ptr := Block ?m, b_tail := b_tail b + k\<rparr>"
  have w: "buffer_write_tail b d = Some ?b1" using m fits by (simp add: buffer_write_tail_def buffer_tail_def)
  have wf1: "buffer_wf ?b1" "buffer_wf ?b2" using m fits room(2) by (simp_all add: buffer_wf_def)
  have d1: "buffer_data ?b1 = buffer_data b" "buffer_data ?b2 = buffer_data b @ take k d"
    using m fits room(2) by (auto simp: drop_take)
  have sp: "buffer_spacecount ?b1 = buffer_spacecount b" "buffer_spacecount ?b2 = buffer_spacecount b - k"
    using buffer_spacecount_wf [OF wf] buffer_spacecount_wf [OF wf1(1)] buffer_spacecount_wf [OF wf1(2)] by simp_all
  have "buffer_produced ?b1 k = (0, ?b2)"
    using sp(1) room m fits by (simp add: buffer_produced_def)
  with w wf1 d1 sp show ?thesis by blast
qed

lemma buffer_print_wf:
  assumes "buffer_wf b"
  shows "\<exists>b'. buffer_print b t = Some b' \<and> buffer_wf b' \<and>
    buffer_data b' @ printed (buffer_spacecount b') ts = buffer_data b @ printed (buffer_spacecount b) (t # ts)"
proof -
  let ?space = "buffer_spacecount b"
  consider (fits) "length t < ?space" | (exact) "length t = ?space" "0 < ?space" | (big) "?space < length t"
    | (none) "?space = 0" "t = []"
    using linorder_less_linear [of "length t" ?space] by (cases "?space = 0") auto
  then show ?thesis
  proof cases
    case fits
    then have "take (?space - 1) t = t" by simp
    with buffer_overwrite [OF assms, of "t @ [NUL]" "length t"] fits show ?thesis
      by (auto simp: buffer_print_def Let_def)
  next
    case exact
    with buffer_overwrite [OF assms, of "take (?space - 1) t @ [NUL]" "length t"] show ?thesis
      by (auto simp: buffer_print_def Let_def)
  next
    case big
    have refused: "snd (buffer_produced b1 (length t)) = b1" if "buffer_wf b1" "buffer_spacecount b1 = ?space" for b1
      using that big by (auto simp: buffer_produced_def buffer_spacecount_wf)
    show ?thesis
    proof (cases "?space = 0")
      case True
      with refused [OF assms] big assms show ?thesis by (auto simp: buffer_print_def Let_def)
    next
      case False
      with buffer_overwrite [OF assms, of "take (?space - 1) t @ [NUL]" 0] big refused show ?thesis
        by (auto simp: buffer_print_def Let_def)
    qed
  next
    case none
    with assms show ?thesis by (auto simp: buffer_print_def Let_def buffer_produced_def buffer_spacecount_wf elim!: buffer_wfE)
  qed
qed

lemma print_all_wf:
  "buffer_wf b \<Longrightarrow> \<exists>b'. print_all ts b = Some b' \<and> buffer_wf b' \<and>
     buffer_data b' = buffer_data b @ printed (buffer_spacecount b) ts"
proof (induction ts arbitrary: b)
  case (Cons t ts)
  obtain b1 where "buffer_print b t = Some b1" "buffer_wf b1"
      "buffer_data b1 @ printed (buffer_spacecount b1) ts = buffer_data b @ printed (buffer_spacecount b) (t # ts)"
    using buffer_print_wf [OF Cons.prems] by blast
  with Cons.IH [of b1] show ?case by auto
qed simp

section \<open>Sending the report\<close>

lemma send_report_returns:
  "buffer_wf b \<Longrightarrow> \<exists>b' out'. send_report sends k b out = Some (b', out @ out') \<and> buffer_wf b' \<and>
     buffer_data b = out' @ buffer_data b' \<and> ((\<forall>k. 0 < sends k) \<longrightarrow> buffer_data b' = [])"
proof (induction "length (buffer_data b)" arbitrary: k b out rule: less_induct)
  case less
  let ?d = "buffer_data b"
  let ?n = "min (sends k) (int (length ?d))"
  have eq: "send_report sends k b out =
      (if ?d = [] then Some (b, out)
       else if ?n \<le> 0 then Some (b, out)
       else send_report sends (Suc k) (snd (buffer_consume b (nat ?n))) (out @ take (nat ?n) ?d))"
    using less.prems by (subst send_report.simps) (simp add: buffer_simps Let_def)
  show ?case
  proof (cases "?d = [] \<or> ?n \<le> 0")
    case True
    moreover have "\<not> 0 < sends k" if "?d \<noteq> []" "?n \<le> 0" using that by (auto simp: min_def split: if_splits)
    ultimately show ?thesis using eq less.prems by auto
  next
    case False
    then have n: "0 < nat ?n" "nat ?n \<le> length ?d" by auto
    let ?b = "b\<lparr>b_head := b_head b + nat ?n\<rparr>"
    note adv = buffer_advance_wf [OF less.prems n(2)]
    have "snd (buffer_consume b (nat ?n)) = ?b" using less.prems n by (simp add: buffer_simps)
    moreover have "length (buffer_data ?b) < length ?d" using adv(2) n by (simp add: False)
    from less.hyps [OF this adv(1), of "Suc k" "out @ take (nat ?n) ?d"] obtain b' out' where
      "send_report sends (Suc k) ?b (out @ take (nat ?n) ?d) = Some (b', (out @ take (nat ?n) ?d) @ out')"
      "buffer_wf b'" "drop (nat ?n) ?d = out' @ buffer_data b'" "(\<forall>k. 0 < sends k) \<longrightarrow> buffer_data b' = []"
      using adv(2) by auto
    ultimately show ?thesis using eq False append_take_drop_id [of "nat ?n" ?d]
      by (intro exI [of _ b'] exI [of _ "take (nat ?n) ?d @ out'"]) auto
  qed
qed

section \<open>The reply\<close>

text \<open>The report of a server: its lines, in order, and an empty line.\<close>

definition report :: "stats_server \<Rightarrow> bytes list" where
  "report s =
     global_lines s @ concat (map (\<lambda>p. backend_lines (the (s_backends s p))) (backend_list s)) @ [[NL]]"

lemma all_backend_lines_pool:
  assumes "\<forall>p \<in> set ps. heap p \<noteq> None"
  shows "all_backend_lines heap ps = Some (concat (map (\<lambda>p. backend_lines (the (heap p))) ps))"
  using assms by (induction ps) auto

lemma stats_send_statistics_reply:
  assumes "server_inv s" "malloc (r_status e) 32 \<noteq> None"
  shows "malloc (r_status e) MAX_UDP_LENGTH = None \<and> stats_send_statistics e sd s = Some s \<or>
    (\<exists>out rest. stats_send_statistics e sd s = Some (s\<lparr>s_replies := (sd, out) # s_replies s\<rparr>) \<and>
       out @ rest = printed MAX_UDP_LENGTH (report s) \<and> ((\<forall>k. 0 < r_sends e k) \<longrightarrow> rest = []))"
proof -
  have pool: "\<forall>p \<in> set (backend_list s). s_backends s p \<noteq> None"
    using assms(1) by (auto simp: server_inv_def pool_ok_def)
  obtain rc b0 where a: "buffer_allocate (r_status e) unset_buffer MAX_UDP_LENGTH = (rc, b0)" by fastforce
  from buffer_allocate_cases [OF a] show ?thesis
  proof (elim disjE)
    assume "rc = - 1 \<and> malloc (r_status e) MAX_UDP_LENGTH = None \<and> b_ptr b0 = NullPtr"
    with a assms(2) show ?thesis by (auto simp: stats_send_statistics_def create_buffer_def)
  next
    assume b0: "rc = 0 \<and> buffer_wf b0 \<and> buffer_data b0 = [] \<and> b_size b0 = MAX_UDP_LENGTH \<and> b_head b0 = 0 \<and> b_tail b0 = 0"
    then have space: "buffer_spacecount b0 = MAX_UDP_LENGTH" by (simp add: buffer_spacecount_wf)
    obtain b1 where b1: "print_all (report s) b0 = Some b1" "buffer_wf b1"
        "buffer_data b1 = printed MAX_UDP_LENGTH (report s)"
      using print_all_wf [of b0 "report s"] b0 space by auto
    from send_report_returns [OF b1(2), of "r_sends e" 0 "[]"] obtain b2 out where
      b2: "send_report (r_sends e) 0 b1 [] = Some (b2, out)" "buffer_wf b2" "buffer_data b1 = out @ buffer_data b2"
        "(\<forall>k. 0 < r_sends e k) \<longrightarrow> buffer_data b2 = []"
      by auto
    have "\<exists>u. delete_buffer b2 = Some u" using buffer_destroy_wf [OF b2(2)] by (auto simp: delete_buffer_def)
    with a b0 b1(1) b2(1) assms(2) all_backend_lines_pool [OF pool]
    have "stats_send_statistics e sd s = Some (s\<lparr>s_replies := (sd, out) # s_replies s\<rparr>)"
      by (auto simp: stats_send_statistics_def create_buffer_def report_def)
    with b1(3) b2(3,4) show ?thesis by metis
  qed
qed

section \<open>Sessions and status requests\<close>

text \<open>The answers a session needs: those of the relay, and memory for the structure of the status buffer.\<close>

definition session_envs_ok :: "(nat \<Rightarrow> line_env) \<Rightarrow> bool" where
  "session_envs_ok R \<longleftrightarrow> envs_ok R \<and> (\<forall>n. malloc (r_status (R n)) 32 \<noteq> None)"

lemma handle_line_status:
  assumes "l = status_line"
  shows "handle_line R sd l s = map_option (\<lambda>t. (0, t)) (stats_send_statistics (R (s_lines s)) sd (count_line s))"
proof -
  have "c_str (l @ [NL, NUL]) = ''status'' @ [NL]"
    unfolding assms status_line_def by (simp add: c_str_def)
  with assms show ?thesis
    by (cases "stats_send_statistics (R (s_lines s)) sd (count_line s)")
      (simp_all add: handle_line_def status_line_def MAX_UDP_LENGTH_def Let_def)
qed

interpretation answering: line_handler "handle_line R sd" "\<lambda>s. session_envs_ok R \<and> serving delim accepts s"
  "good_line delim" for R sd delim accepts
proof unfold_locales
  fix s l
  assume a: "session_envs_ok R \<and> serving delim accepts s" "good_line delim l"
  show "\<exists>rc s'. handle_line R sd l s = Some (rc, s') \<and> session_envs_ok R \<and> serving delim accepts s'"
  proof (cases "l = status_line")
    case True
    have "server_inv (count_line s)" using a(1) by (simp add: serving_def frame_simps)
    from stats_send_statistics_reply [OF this, of "R (s_lines s)" sd] a(1)
    show ?thesis unfolding handle_line_status [OF True] by (auto simp: session_envs_ok_def frame_simps)
  next
    case False
    have "NUL \<notin> set l" using a(2) by (simp add: good_line_def)
    note eq = handle_line_relay [OF this False, of R sd s]
    obtain rc s' where "relay_handler R l s = Some (rc, s')" "serving delim accepts s'"
      using relaying.handle_law [of R delim accepts s l] a by (auto simp: session_envs_ok_def)
    with a(1) show ?thesis by (simp add: eq)
  qed
qed

text \<open>A read on a session that fits the buffers returns; the session is gone exactly on an error.\<close>

lemma stats_recv_returns:
  assumes se: "session_ok se" and s: "serving delim accepts s" "session_envs_ok R"
    and d: "\<And>d. r = Recv_data d \<Longrightarrow>
      (\<forall>b. recv_room A (ss_buffer se) = Some (0, b) \<longrightarrow> length d \<le> buffer_spacecount b) \<and>
      (\<forall>l \<in> set (fst (split_lines (buffer_data (ss_buffer se) @ d))). good_line delim l)"
  shows "\<exists>rc se' s'. stats_recv A R r se s = Some (rc, se', s') \<and> serving delim accepts s' \<and>
    (if rc = 0 then \<exists>se2. se' = Some se2 \<and> session_ok se2 else se' = None)"
proof -
  obtain rc0 b where room: "recv_room A (ss_buffer se) = Some (rc0, b)" "buffer_wf b" "0 < b_size b"
    using recv_room_ok [of "ss_buffer se" A] se by (auto simp: session_ok_def)
  then have ok: "session_ok (se\<lparr>ss_buffer := b\<rparr>)" by (simp add: session_ok_def)
  show ?thesis
  proof (cases "rc0 = 0 \<and> (\<exists>d. r = Recv_data d)")
    case False
    then have "stats_recv A R r se s = recv_failed (se\<lparr>ss_buffer := b\<rparr>) s"
      using room(1) by (cases r) (auto simp: stats_recv_def Let_def)
    with session_destroy_ok [OF ok] s(1) show ?thesis by simp
  next
    case True
    then obtain d' where r: "r = Recv_data d'" by blast
    let ?s = "s\<lparr>bytes_recv_tcp := bytes_recv_tcp s + of_nat (length d')\<rparr>"
    let ?ls = "fst (split_lines (buffer_data (ss_buffer se) @ d'))"
    have len: "length d' \<le> buffer_spacecount b" using d [OF r] room(1) True by simp
    obtain rc s' where run: "run_lines (handle_line R (ss_sd se)) ?ls ?s = Some (rc, s')" "serving delim accepts s'" "rc \<in> {0, 1}"
      using answering.run_returns [of R delim accepts ?s ?ls "ss_sd se"] s d [OF r] by (auto simp: frame_simps)
    show ?thesis
      using stats_recv_eq [OF se, of A b d' R s] room(1) True len run unfolding r by (cases "rc = 0") auto
  qed
qed

section \<open>Properties\<close>



end
