(* ===== verification/Listeners.thy ===== *)
theory Listeners
  imports Prelude
begin

text \<open>
  What \<open>src/src/tcpserver.c\<close> and \<open>src/src/udpserver.c\<close> have in common: the descriptors the process has
  open and the ones the event loop watches, the answers of the kernel when a listening socket is set
  up, the splitting of an address, and the contract of the loop that fills a table of listeners. The
  contract is the locale \<open>listener_table\<close>; both servers interpret it.
\<close>

section \<open>Descriptors and addresses\<close>

text \<open>
  The state of the process that the kernel and the event loop keep for these components: the open
  descriptors, and the descriptors with an active watcher.
\<close>

record net =
  net_open :: "int set"
  net_watch :: "int set"

definition watch :: "int \<Rightarrow> 'a net_scheme \<Rightarrow> 'a net_scheme" where
  "watch sd n = n\<lparr>net_watch := insert sd (net_watch n)\<rparr>"

definition unwatch :: "int \<Rightarrow> 'a net_scheme \<Rightarrow> 'a net_scheme" where
  "unwatch sd n = n\<lparr>net_watch := net_watch n - {sd}\<rparr>"

text \<open>Only open descriptors are watched, and descriptors are not negative.\<close>

definition net_ok :: "'a net_scheme \<Rightarrow> bool" where
  "net_ok n \<longleftrightarrow> net_watch n \<subseteq> net_open n \<and> (\<forall>sd \<in> net_open n. 0 \<le> sd)"

lemma net_ok_watch: "net_ok n \<Longrightarrow> sd \<in> net_open n \<Longrightarrow> net_ok (watch sd n)"
  by (simp add: net_ok_def watch_def)

text \<open>
  The answers for one address of \<open>getaddrinfo\<close>'s list, in the order in which they are asked for: memory
  for the listener, the result of \<open>socket\<close>, the results of \<open>setsockopt\<close>, \<open>fcntl\<close>, \<open>bind\<close> and \<open>listen\<close>, and
  memory for the watcher. \<open>a_family\<close> and \<open>a_text\<close> are the address itself: its family, which decides the
  size of the socket address, and the text that stands for it. With the hints given, \<open>getaddrinfo\<close>
  returns only these two families.
\<close>

datatype addr_family = AF_INET | AF_INET6

record addr_env =
  a_listener :: bool
  a_family :: addr_family
  a_text :: bytes
  a_socket :: int
  a_reuse :: int
  a_nonblock :: int
  a_bind :: int
  a_listen :: int
  a_watcher :: bool

fun ai_addrlen :: "addr_family \<Rightarrow> nat" where
  "ai_addrlen AF_INET = 16"
| "ai_addrlen AF_INET6 = 28"

text \<open>
  \<open>inet_ntop\<close> fails when the text and its terminator do not fit the size it is given. Both servers pass
  the size of the socket address, not that of their text buffer.
\<close>

definition inet_ntop :: "bytes \<Rightarrow> nat \<Rightarrow> bytes option" where
  "inet_ntop addr n = (if length addr < n then Some addr else None)"

definition a_ntop :: "addr_env \<Rightarrow> bool" where
  "a_ntop e \<longleftrightarrow> inet_ntop (a_text e) (ai_addrlen (a_family e)) \<noteq> None"

text \<open>IPv4 addresses always fit; IPv6 addresses of 28 characters and more do not.\<close>

lemma a_ntop_iff: "a_ntop e \<longleftrightarrow> length (a_text e) < (case a_family e of AF_INET \<Rightarrow> 16 | AF_INET6 \<Rightarrow> 28)"
  by (simp add: a_ntop_def inet_ntop_def split: addr_family.splits)

text \<open>The memory that is not checked must be granted.\<close>

definition memory_granted :: "addr_env \<Rightarrow> bool" where
  "memory_granted e \<longleftrightarrow> a_listener e \<and> a_watcher e"

text \<open>An address is split at its last colon (\<open>strrchr\<close>).\<close>

definition split_address :: "bytes \<Rightarrow> (bytes \<times> bytes) option" where
  "split_address s =
     (case index_of (CHR '':'') (rev s) of
        None \<Rightarrow> None
      | Some i \<Rightarrow> Some (take (length s - Suc i) s, drop (length s - i) s))"

lemma split_address_None: "split_address s = None \<longleftrightarrow> CHR '':'' \<notin> set s"
  by (auto simp: split_address_def split: option.splits dest: index_of_SomeD)

lemma split_address_Some:
  "split_address s = Some (host, port) \<longleftrightarrow> s = host @ CHR '':'' # port \<and> CHR '':'' \<notin> set port"
proof
  assume h: "split_address s = Some (host, port)"
  then obtain i where i: "index_of (CHR '':'') (rev s) = Some i" "host = take (length s - Suc i) s"
      "port = drop (length s - i) s"
    by (auto simp: split_address_def split: option.splits)
  from i(1) obtain ys zs where r: "rev s = ys @ CHR '':'' # zs" "length ys = i" "CHR '':'' \<notin> set ys"
    by (rule index_of_SomeE)
  then have s: "s = rev zs @ CHR '':'' # rev ys" by (metis rev_append rev_rev_ident rev.simps(2) append_assoc append_Cons append_Nil)
  then have "length s = Suc (length zs + i)" using r(2) by simp
  with i s r(2) have "host = rev zs" "port = rev ys" by simp_all
  with s r(3) show "s = host @ CHR '':'' # port \<and> CHR '':'' \<notin> set port" by simp
next
  assume h: "s = host @ CHR '':'' # port \<and> CHR '':'' \<notin> set port"
  then have "index_of (CHR '':'') (rev s) = Some (length port)"
    using index_of_split [of "CHR '':''" "rev port" "rev host"] by simp
  with h show "split_address s = Some (host, port)" by (simp add: split_address_def)
qed

section \<open>The table of listeners\<close>

text \<open>
  A loop over the addresses creates a listener for each, skips those that cannot be set up, starts
  the watchers of the others, and gives up with 1 when there is an address left and the table is
  full.
\<close>

locale listener_table =
  fixes limit :: nat
    and usable :: "'e \<Rightarrow> bool"
    and listens :: "'e \<Rightarrow> bool"
    and made :: "'e \<Rightarrow> 'l"
    and sd_of :: "'l \<Rightarrow> int"
    and create :: "'e \<Rightarrow> 'a net_scheme \<Rightarrow> ('l option \<times> 'a net_scheme) option"
    and bind_all :: "'e list \<Rightarrow> 'l list \<Rightarrow> 'a net_scheme \<Rightarrow> (int \<times> 'l list \<times> 'a net_scheme) option"
  assumes bind_nil: "bind_all [] ls n = Some (0, ls, n)"
    and bind_full: "limit \<le> length ls \<Longrightarrow> bind_all (p # ps) ls n = Some (1, ls, n)"
    and bind_skip: "length ls < limit \<Longrightarrow> create p n = Some (None, n') \<Longrightarrow> bind_all (p # ps) ls n = bind_all ps ls n'"
    and bind_add: "length ls < limit \<Longrightarrow> create p n = Some (Some l, n') \<Longrightarrow>
      bind_all (p # ps) ls n = bind_all ps (ls @ [l]) (watch (sd_of l) n')"
    and bind_undefined: "length ls < limit \<Longrightarrow> create p n = None \<Longrightarrow> bind_all (p # ps) ls n = None"
    and create_law: "usable p \<Longrightarrow>
      \<exists>n'. create p n = Some (if listens p then Some (made p) else None, n') \<and> net_watch n' = net_watch n"
    and create_safe: "create p n = Some (r, n') \<Longrightarrow> net_ok n \<Longrightarrow>
      net_ok n' \<and> net_watch n' = net_watch n \<and> (\<forall>l. r = Some l \<longrightarrow> sd_of l \<in> net_open n' \<and> l = made p)"
begin

lemma bind_all_spec:
  assumes "\<forall>p \<in> set ps. usable p" "length ls \<le> limit"
  shows "\<exists>n'. bind_all ps ls n =
      Some (if ps \<noteq> [] \<and> limit \<le> length ls + length (filter listens (butlast ps)) then 1 else 0,
            ls @ take (limit - length ls) (map made (filter listens ps)), n') \<and>
    net_watch n' = net_watch n \<union> sd_of ` set (take (limit - length ls) (map made (filter listens ps)))"
  using assms
proof (induction ps arbitrary: ls n)
  case Nil
  then show ?case by (simp add: bind_nil)
next
  case (Cons p ps)
  show ?case
  proof (cases "length ls < limit")
    case False
    with Cons.prems show ?thesis by (simp add: bind_full)
  next
    case True
    obtain n1 where c: "create p n = Some (if listens p then Some (made p) else None, n1)" "net_watch n1 = net_watch n"
      using create_law [of p n] Cons.prems(1) by auto
    show ?thesis
    proof (cases "listens p")
      case False
      with c True have "bind_all (p # ps) ls n = bind_all ps ls n1" by (simp add: bind_skip)
      with Cons.IH [of ls n1] Cons.prems False c(2) True show ?thesis by auto
    next
      case add: True
      with c True have eq: "bind_all (p # ps) ls n = bind_all ps (ls @ [made p]) (watch (sd_of (made p)) n1)"
        by (simp add: bind_add)
      obtain k where k: "limit - length ls = Suc k" using True by (cases "limit - length ls") auto
      then have "limit - length (ls @ [made p]) = k" by simp
      with Cons.IH [of "ls @ [made p]" "watch (sd_of (made p)) n1"] Cons.prems True eq k c(2) add
      show ?thesis by (auto simp: watch_def)
    qed
  qed
qed

lemma bind_all_safe:
  assumes "bind_all ps ls n = Some (rc, ls', n')" "net_ok n"
  shows "net_ok n' \<and> set ls' \<subseteq> set ls \<union> range made \<and> net_watch n \<subseteq> net_watch n' \<and>
    sd_of ` set ls' \<subseteq> net_watch n' \<union> sd_of ` set ls"
  using assms
proof (induction ps arbitrary: ls n)
  case Nil
  then show ?case by (auto simp: bind_nil)
next
  case (Cons p ps)
  show ?case
  proof (cases "length ls < limit")
    case False
    with Cons.prems show ?thesis by (auto simp: bind_full)
  next
    case True
    with Cons.prems(1) obtain r n1 where c: "create p n = Some (r, n1)"
      using bind_undefined [OF True, of p n ps] by (cases "create p n") auto
    note safe = create_safe [OF c Cons.prems(2)]
    show ?thesis
    proof (cases r)
      case None
      then have "bind_all ps ls n1 = Some (rc, ls', n')" using bind_skip [OF True, of p n n1 ps] c Cons.prems(1) by simp
      with Cons.IH safe show ?thesis by metis
    next
      case (Some l)
      then have "bind_all ps (ls @ [l]) (watch (sd_of l) n1) = Some (rc, ls', n')"
        using bind_add [OF True, of p n l n1 ps] c Cons.prems(1) by simp
      moreover have "net_ok (watch (sd_of l) n1)" using safe Some by (intro net_ok_watch) auto
      moreover have "net_watch (watch (sd_of l) n1) = insert (sd_of l) (net_watch n)" using safe by (simp add: watch_def)
      ultimately show ?thesis using Cons.IH [of "ls @ [l]" "watch (sd_of l) n1"] safe Some by auto
    qed
  qed
qed

lemma bind_all_bound:
  assumes "\<forall>p \<in> set ps. usable p" "length ls \<le> limit" "bind_all ps ls n = Some (rc, ls', n')"
  shows "length ls' \<le> limit"
  using bind_all_spec [OF assms(1,2), of n] assms(2,3) by auto

end

text \<open>An address that can be set up, for examples.\<close>

definition good_addr :: "int \<Rightarrow> addr_env" where
  "good_addr sd = \<lparr>a_listener = True, a_family = AF_INET, a_text = ''127.0.0.1'', a_socket = sd, a_reuse = 0, a_nonblock = 0, a_bind = 0,
     a_listen = 0, a_watcher = True\<rparr>"

lemma good_addr_ntop [simp]:
  "a_ntop (good_addr sd)" "a_ntop ((good_addr sd)\<lparr>a_bind := b\<rparr>)"
  by (simp_all add: a_ntop_iff good_addr_def)

definition two_addrs :: "bytes \<Rightarrow> bytes \<Rightarrow> addr_env list option" where
  "two_addrs host port =
     (if host = ''::1'' \<and> port = ''8125'' then Some [(good_addr 5)\<lparr>a_bind := -1\<rparr>, good_addr 6] else None)"

lemma two_addrs:
  "CHR '':'' \<notin> set ''8125''" "two_addrs ''::1'' ''8125'' = Some [(good_addr 5)\<lparr>a_bind := -1\<rparr>, good_addr 6]"
  "\<forall>e \<in> set [(good_addr 5)\<lparr>a_bind := -1\<rparr>, good_addr 6]. memory_granted e"
  by (simp_all add: two_addrs_def memory_granted_def good_addr_def)

end
