(* ===== verification/Tcpserver.thy ===== *)
theory Tcpserver
  imports Listeners
begin

text \<open>
  The TCP front end of \<open>src/src/tcpserver.c\<close>: listening sockets, the connections accepted on them and
  their callbacks. A server's \<open>data\<close> and the context of a connection belong to the owner of the
  server; they have the types \<open>'d\<close> and \<open>'c\<close>, and \<open>'d\<close> is threaded through the callbacks. \<open>'i\<close> is what
  the environment answers to a callback. The connections are heap objects that only their watchers
  refer to: \<open>ts_heap\<close> is the part of the heap that holds them, and \<open>ts_next\<close> names the next one.
  The contract with the owner is the locale \<open>connection_handler\<close>; under it the descriptors of the
  process are accounted for in every reachable state.
\<close>

section \<open>The data\<close>

definition MAX_TCP_HANDLERS :: nat where "MAX_TCP_HANDLERS = 32"

type_synonym ('c, 'd, 'i) conn_cb = "'i \<Rightarrow> int \<Rightarrow> 'd \<Rightarrow> 'c option \<times> 'd"
type_synonym ('c, 'd, 'i) recv_cb = "'i \<Rightarrow> int \<Rightarrow> 'd \<Rightarrow> 'c option \<Rightarrow> (int \<times> 'c option \<times> 'd) option"

record ('c, 'd, 'i) tcplistener =
  tl_sd :: int
  tl_cb_conn :: "('c, 'd, 'i) conn_cb"
  tl_cb_recv :: "('c, 'd, 'i) recv_cb option"

record ('c, 'd, 'i) tcpsession =
  ts_sd :: int
  ts_cb_recv :: "('c, 'd, 'i) recv_cb option"
  ts_ctx :: "'c option"

record ('c, 'd, 'i) tcpserver =
  t_listeners :: "('c, 'd, 'i) tcplistener list"

record ('c, 'd, 'i) tcp_net = net +
  ts_heap :: "nat \<Rightarrow> ('c, 'd, 'i) tcpsession option"
  ts_next :: nat

section \<open>Sessions\<close>

text \<open>\<open>tcpsession_create\<close>: memory for the session and for its watcher.\<close>

definition tcpsession_create ::
    "bool \<Rightarrow> bool \<Rightarrow> ('c, 'd, 'i) tcplistener \<Rightarrow> ('c, 'd, 'i) tcpsession option" where
  "tcpsession_create mem_ok watcher_ok listener =
     (if \<not> mem_ok then None
      else if \<not> watcher_ok then None
      else Some \<lparr>ts_sd = -1, ts_cb_recv = tl_cb_recv listener, ts_ctx = None\<rparr>)"

definition tcpsession_destroy :: "nat \<Rightarrow> ('c, 'd, 'i) tcp_net \<Rightarrow> ('c, 'd, 'i) tcp_net option" where
  "tcpsession_destroy p n =
     do {
       session \<leftarrow> ts_heap n p;
       let n1 = (if ts_sd session > 0 then n\<lparr>net_open := net_open n - {ts_sd session}\<rparr> else n);
       Some (unwatch (ts_sd session) n1\<lparr>ts_heap := (ts_heap n)(p := None)\<rparr>)
     }"

text \<open>
  \<open>tcpsession_recv_callback\<close>: \<open>p\<close> is the session the watcher refers to. A context that the callback
  changed or released is the new value of \<open>ts_ctx\<close>.
\<close>

definition tcpsession_recv_callback ::
    "bool \<Rightarrow> 'i \<Rightarrow> nat option \<Rightarrow> 'd \<Rightarrow> ('c, 'd, 'i) tcp_net \<Rightarrow> ('d \<times> ('c, 'd, 'i) tcp_net) option" where
  "tcpsession_recv_callback ev_error i watcher_data d n =
     (if ev_error then Some (d, n)
      else case watcher_data of
        None \<Rightarrow> Some (d, n)
      | Some p \<Rightarrow>
          do {
            session \<leftarrow> ts_heap n p;
            case ts_cb_recv session of
              None \<Rightarrow> Some (d, n)
            | Some cb_recv \<Rightarrow>
                do {
                  (rc, ctx, d') \<leftarrow> cb_recv i (ts_sd session) d (ts_ctx session);
                  let n1 = n\<lparr>ts_heap := (ts_heap n)(p \<mapsto> session\<lparr>ts_ctx := ctx\<rparr>)\<rparr>;
                  if rc \<noteq> 0 then do { n2 \<leftarrow> tcpsession_destroy p n1; Some (d', n2) }
                  else Some (d', n1)
                }
          })"

section \<open>Accepting connections\<close>

text \<open>The answers to one accept event: an error event, memory, \<open>accept\<close>, \<open>fcntl\<close>, and the callback's.\<close>

record 'i accept_env =
  ac_error :: bool
  ac_session :: bool
  ac_watcher :: bool
  ac_accept :: int
  ac_nonblock :: int
  ac_input :: 'i

text \<open>
  \<open>tcplistener_accept_callback\<close>. The session is on the heap before \<open>accept\<close> is called and stays there
  on both early returns; the result of the connection callback is not checked.
\<close>

definition tcplistener_accept_callback ::
    "'i accept_env \<Rightarrow> ('c, 'd, 'i) tcplistener \<Rightarrow> 'd \<Rightarrow> ('c, 'd, 'i) tcp_net \<Rightarrow> 'd \<times> ('c, 'd, 'i) tcp_net" where
  "tcplistener_accept_callback e listener d n =
     (if ac_error e then (d, n)
      else case tcpsession_create (ac_session e) (ac_watcher e) listener of
        None \<Rightarrow> (d, n)
      | Some session0 \<Rightarrow>
          (let p = ts_next n;
               session = session0\<lparr>ts_sd := ac_accept e\<rparr>;
               n1 = n\<lparr>ts_next := Suc p, ts_heap := (ts_heap n)(p \<mapsto> session)\<rparr>
           in if ac_accept e < 0 then (d, n1)
              else
                (let n2 = n1\<lparr>net_open := insert (ac_accept e) (net_open n1)\<rparr> in
                 if ac_nonblock e \<noteq> 0 then (d, n2)
                 else
                   (let (ctx, d') = tl_cb_conn listener (ac_input e) (ts_sd session) d
                    in (d', watch (ts_sd session)
                              (n2\<lparr>ts_heap := (ts_heap n2)(p \<mapsto> session\<lparr>ts_ctx := ctx\<rparr>)\<rparr>))))))"

section \<open>Listeners\<close>

text \<open>\<open>tcpserver_create\<close> does not check its allocation; the event loop is the process's only one.\<close>

definition tcpserver_create :: "bool \<Rightarrow> ('c, 'd, 'i) tcpserver option" where
  "tcpserver_create mem_ok = (if mem_ok then Some \<lparr>t_listeners = []\<rparr> else None)"

text \<open>
  \<open>tcplistener_create\<close>. A descriptor that \<open>socket\<close> returned is not closed on the failing branches; the
  memory for the listener and the watcher is not checked.
\<close>

definition tcplistener_create ::
    "('c, 'd, 'i) conn_cb \<Rightarrow> ('c, 'd, 'i) recv_cb \<Rightarrow> addr_env \<Rightarrow> 'a net_scheme \<Rightarrow>
     (('c, 'd, 'i) tcplistener option \<times> 'a net_scheme) option" where
  "tcplistener_create cb_conn cb_recv e n =
     (if \<not> a_listener e then None
      else
        (let sd = a_socket e;
             n1 = (if 0 \<le> sd then n\<lparr>net_open := insert sd (net_open n)\<rparr> else n)
         in if \<not> a_ntop e then Some (None, n1)
            else if sd < 0 then Some (None, n1)
            else if a_reuse e \<noteq> 0 then Some (None, n1)
            else if a_nonblock e \<noteq> 0 then Some (None, n1)
            else if a_bind e \<noteq> 0 then Some (None, n1)
            else if a_listen e \<noteq> 0 then Some (None, n1)
            else if \<not> a_watcher e then None
            else Some (Some \<lparr>tl_sd = sd, tl_cb_conn = cb_conn, tl_cb_recv = Some cb_recv\<rparr>, n1)))"

text \<open>\<open>tcplistener_destroy\<close> stops the watcher and leaves the descriptor open.\<close>

definition tcplistener_destroy :: "('c, 'd, 'i) tcplistener \<Rightarrow> 'a net_scheme \<Rightarrow> 'a net_scheme" where
  "tcplistener_destroy listener n = unwatch (tl_sd listener) n"

text \<open>The loop of \<open>tcpserver_bind\<close> over the addresses.\<close>

fun tcp_bind_all ::
    "('c, 'd, 'i) conn_cb \<Rightarrow> ('c, 'd, 'i) recv_cb \<Rightarrow> addr_env list \<Rightarrow> ('c, 'd, 'i) tcplistener list \<Rightarrow> 'a net_scheme \<Rightarrow>
     (int \<times> ('c, 'd, 'i) tcplistener list \<times> 'a net_scheme) option" where
  "tcp_bind_all cb_conn cb_recv [] ls n = Some (0, ls, n)"
| "tcp_bind_all cb_conn cb_recv (p # ps) ls n =
     (if MAX_TCP_HANDLERS \<le> length ls then Some (1, ls, n)
      else do {
        (listener, n1) \<leftarrow> tcplistener_create cb_conn cb_recv p n;
        case listener of
          None \<Rightarrow> tcp_bind_all cb_conn cb_recv ps ls n1
        | Some l \<Rightarrow> tcp_bind_all cb_conn cb_recv ps (ls @ [l]) (watch (tl_sd l) n1)
      })"

text \<open>
  \<open>tcpserver_bind\<close>: \<open>resolve\<close> is \<open>getaddrinfo\<close>, which gets the host and the port and returns the
  addresses, or nothing on an error. A null address is undefined.
\<close>

definition tcpserver_bind ::
    "bool \<Rightarrow> (bytes \<Rightarrow> bytes \<Rightarrow> addr_env list option) \<Rightarrow> bytes option \<Rightarrow> ('c, 'd, 'i) conn_cb \<Rightarrow> ('c, 'd, 'i) recv_cb \<Rightarrow>
     ('c, 'd, 'i) tcpserver \<Rightarrow> 'a net_scheme \<Rightarrow> (int \<times> ('c, 'd, 'i) tcpserver \<times> 'a net_scheme) option" where
  "tcpserver_bind strdup_ok resolve address_and_port cb_conn cb_recv server n =
     do {
       addr \<leftarrow> address_and_port;
       if \<not> strdup_ok then Some (1, server, n)
       else case split_address addr of
         None \<Rightarrow> Some (1, server, n)
       | Some (address, port) \<Rightarrow>
           (case resolve address port of
              None \<Rightarrow> Some (1, server, n)
            | Some addrs \<Rightarrow>
                do {
                  (rc, ls, n') \<leftarrow> tcp_bind_all cb_conn cb_recv addrs (t_listeners server) n;
                  Some (rc, server\<lparr>t_listeners := ls\<rparr>, n')
                })
     }"

fun destroy_listeners :: "('c, 'd, 'i) tcplistener list \<Rightarrow> 'a net_scheme \<Rightarrow> 'a net_scheme" where
  "destroy_listeners [] n = n"
| "destroy_listeners (l # ls) n = destroy_listeners ls (tcplistener_destroy l n)"

definition tcpserver_destroy :: "('c, 'd, 'i) tcpserver \<Rightarrow> 'a net_scheme \<Rightarrow> 'a net_scheme" where
  "tcpserver_destroy server n = destroy_listeners (t_listeners server) n"

section \<open>Binding\<close>

definition tcp_listens :: "addr_env \<Rightarrow> bool" where
  "tcp_listens e \<longleftrightarrow>
     a_ntop e \<and> 0 \<le> a_socket e \<and> a_reuse e = 0 \<and> a_nonblock e = 0 \<and> a_bind e = 0 \<and> a_listen e = 0"

definition tcp_made :: "('c, 'd, 'i) conn_cb \<Rightarrow> ('c, 'd, 'i) recv_cb \<Rightarrow> addr_env \<Rightarrow> ('c, 'd, 'i) tcplistener" where
  "tcp_made cb_conn cb_recv e = \<lparr>tl_sd = a_socket e, tl_cb_conn = cb_conn, tl_cb_recv = Some cb_recv\<rparr>"

lemma tcplistener_create_cases:
  assumes "memory_granted e"
  shows "tcplistener_create cb_conn cb_recv e n =
    Some (if tcp_listens e then Some (tcp_made cb_conn cb_recv e) else None,
          if 0 \<le> a_socket e then n\<lparr>net_open := insert (a_socket e) (net_open n)\<rparr> else n)"
  using assms by (simp add: tcplistener_create_def tcp_listens_def tcp_made_def memory_granted_def Let_def)

lemma tcplistener_create_safe:
  assumes "tcplistener_create cb_conn cb_recv e n = Some (r, n')" "net_ok n"
  shows "net_ok n' \<and> net_watch n' = net_watch n \<and>
    (\<forall>l. r = Some l \<longrightarrow> tl_sd l \<in> net_open n' \<and> l = tcp_made cb_conn cb_recv e)"
  using assms by (auto simp: tcplistener_create_def tcp_made_def net_ok_def Let_def split: if_splits)

interpretation tcp_table: listener_table MAX_TCP_HANDLERS memory_granted tcp_listens "tcp_made cb_conn cb_recv" tl_sd
  "tcplistener_create cb_conn cb_recv" "tcp_bind_all cb_conn cb_recv" for cb_conn cb_recv
  by unfold_locales
    (auto simp: tcplistener_create_cases tcplistener_create_safe split: option.split)

text \<open>
  An IPv6 address whose text has 28 characters or more gets no listener, because \<open>inet_ntop\<close> is given
  the size of the socket address. Its socket stays open, and the bind still reports success.
\<close>

lemma tcpserver_bind_long_ipv6:
  assumes "CHR '':'' \<notin> set port" "resolve host port = Some [e]" "memory_granted e" "length (t_listeners server) < MAX_TCP_HANDLERS"
    and "a_family e = AF_INET6" "28 \<le> length (a_text e)" "0 \<le> a_socket e"
  shows "tcpserver_bind True resolve (Some (host @ CHR '':'' # port)) cb_conn cb_recv server n =
    Some (0, server, n\<lparr>net_open := insert (a_socket e) (net_open n)\<rparr>)"
proof -
  have "\<not> tcp_listens e" using assms(5,6) by (simp add: tcp_listens_def a_ntop_iff)
  moreover have "split_address (host @ CHR '':'' # port) = Some (host, port)" using assms(1) by (simp add: split_address_Some)
  ultimately show ?thesis using assms by (simp add: tcpserver_bind_def tcplistener_create_cases)
qed

lemma destroy_listeners_watch:
  "net_watch (destroy_listeners ls n) = net_watch n - tl_sd ` set ls"
  "net_open (destroy_listeners ls n) = net_open n"
  by (induction ls arbitrary: n) (auto simp: tcplistener_destroy_def unwatch_def)

lemma destroy_context:
  "ts_heap n p = Some s \<Longrightarrow>
   tcpsession_destroy p (n\<lparr>ts_heap := (ts_heap n)(p \<mapsto> s\<lparr>ts_ctx := x\<rparr>)\<rparr>) = tcpsession_destroy p n"
  by (simp add: tcpsession_destroy_def unwatch_def)

section \<open>The contract with the owner of the connections\<close>

text \<open>The descriptors that belong to sessions.\<close>

definition session_sds :: "('c, 'd, 'i) tcp_net \<Rightarrow> int set" where
  "session_sds n = {sd \<in> ts_sd ` ran (ts_heap n). 0 \<le> sd}"

lemma session_sdsI: "ts_heap n p = Some s \<Longrightarrow> 0 \<le> ts_sd s \<Longrightarrow> ts_sd s \<in> session_sds n"
  by (auto simp: session_sds_def ran_def)

lemma session_sdsE:
  assumes "sd \<in> session_sds n"
  obtains p s where "ts_heap n p = Some s" "ts_sd s = sd" "0 \<le> sd"
  using assms by (auto simp: session_sds_def ran_def)

lemma session_sds_map: "session_sds n = {sd. 0 \<le> sd \<and> (\<exists>p. map_option ts_sd (ts_heap n p) = Some sd)}"
  by (auto simp: session_sds_def ran_def)

lemma session_sds_cong:
  "(\<And>p. map_option ts_sd (ts_heap n p) = map_option ts_sd (ts_heap m p)) \<Longrightarrow> session_sds n = session_sds m"
  by (simp add: session_sds_map)

text \<open>
  What the kernel promises for \<open>accept\<close>: a descriptor that is not open; and not 0 while the standard
  input is open.
\<close>

definition accept_fresh :: "'i accept_env \<Rightarrow> 'a net_scheme \<Rightarrow> bool" where
  "accept_fresh e n \<longleftrightarrow> (0 \<le> ac_accept e \<longrightarrow> 0 < ac_accept e \<and> ac_accept e \<notin> net_open n)"

text \<open>
  The owner keeps its data in order, gives every connection a context, and releases the context
  exactly when it reports an error. \<open>conn_ok\<close> and \<open>recv_ok\<close> are the inputs for which it promises that.
\<close>

locale connection_handler =
  fixes conn :: "('c, 'd, 'i) conn_cb"
    and recv :: "('c, 'd, 'i) recv_cb"
    and good :: "'d \<Rightarrow> bool"
    and good_ctx :: "'c \<Rightarrow> bool"
    and conn_ok :: "'i \<Rightarrow> bool"
    and recv_ok :: "'i \<Rightarrow> 'c \<Rightarrow> bool"
  assumes conn_law: "good d \<Longrightarrow> conn_ok i \<Longrightarrow> \<exists>c d'. conn i sd d = (Some c, d') \<and> good_ctx c \<and> good d'"
    and recv_law: "good d \<Longrightarrow> good_ctx c \<Longrightarrow> recv_ok i c \<Longrightarrow>
      \<exists>rc c' d'. recv i sd d (Some c) = Some (rc, c', d') \<and> good d' \<and>
        (if rc = 0 then \<exists>c2. c' = Some c2 \<and> good_ctx c2 else c' = None)"
begin

text \<open>
  The descriptors in use: \<open>base\<close> are those that existed before, among them the listening sockets; every
  other open descriptor belongs to one session. A watched session has a context in order.
\<close>

definition slot_ok :: "int set \<Rightarrow> int set \<Rightarrow> nat \<Rightarrow> nat \<Rightarrow> ('c, 'd, 'i) tcpsession \<Rightarrow> bool" where
  "slot_ok base watched next p s \<longleftrightarrow>
     p < next \<and> ts_cb_recv s = Some recv \<and> (0 \<le> ts_sd s \<longrightarrow> 0 < ts_sd s \<and> ts_sd s \<notin> base) \<and>
     (ts_sd s \<in> watched \<longrightarrow> (\<exists>c. ts_ctx s = Some c \<and> good_ctx c))"

definition sessions_ok :: "int set \<Rightarrow> ('c, 'd, 'i) tcp_net \<Rightarrow> bool" where
  "sessions_ok base n \<longleftrightarrow>
     (\<forall>sd \<in> base. 0 \<le> sd) \<and>
     (\<forall>p s. ts_heap n p = Some s \<longrightarrow> slot_ok base (net_watch n) (ts_next n) p s) \<and>
     (\<forall>p q s t. ts_heap n p = Some s \<longrightarrow> ts_heap n q = Some t \<longrightarrow> 0 \<le> ts_sd s \<longrightarrow> ts_sd s = ts_sd t \<longrightarrow> p = q) \<and>
     net_open n = base \<union> session_sds n \<and> net_watch n \<subseteq> base \<union> session_sds n"

text \<open>A new session that is not watched, and one that is.\<close>

lemma sessions_ok_add:
  assumes "sessions_ok base n" "0 \<le> sd \<longrightarrow> 0 < sd \<and> sd \<notin> net_open n"
    and "ts_cb_recv s = Some recv" "ts_sd s = sd" "w \<longrightarrow> 0 \<le> sd \<and> (\<exists>c. ts_ctx s = Some c \<and> good_ctx c)"
  shows "sessions_ok base
    (n\<lparr>ts_next := Suc (ts_next n), ts_heap := (ts_heap n)(ts_next n \<mapsto> s),
       net_open := (if 0 \<le> sd then insert sd (net_open n) else net_open n),
       net_watch := (if w then insert sd (net_watch n) else net_watch n)\<rparr>)" (is "sessions_ok base ?n")
proof -
  have new: "ts_heap n (ts_next n) = None"
    using assms(1) by (cases "ts_heap n (ts_next n)") (auto simp: sessions_ok_def slot_ok_def)
  have sds: "session_sds ?n = (if 0 \<le> sd then insert sd (session_sds n) else session_sds n)"
    using assms(4) new by (simp add: session_sds_def) blast
  have fresh: "ts_sd t \<noteq> sd" if "ts_heap n p = Some t" "0 \<le> sd" for p t
    using assms(1,2) that session_sdsI [OF that(1)] by (auto simp: sessions_ok_def)
  have low: "sd \<notin> net_watch n"
    using assms(1,2) by (cases "0 \<le> sd") (auto simp: sessions_ok_def session_sds_def)
  have base: "0 \<le> sd \<longrightarrow> sd \<notin> base" using assms(1,2) by (auto simp: sessions_ok_def)
  have "slot_ok base (net_watch ?n) (ts_next ?n) p t" if "ts_heap ?n p = Some t" for p t
  proof (cases "p = ts_next n")
    case True
    then have "t = s" using that by simp
    with assms(2-5) low base True show ?thesis by (auto simp: slot_ok_def)
  next
    case False
    then have t: "ts_heap n p = Some t" using that by simp
    with assms(1) have "slot_ok base (net_watch n) (ts_next n) p t" by (simp add: sessions_ok_def)
    with fresh [OF t] assms(5) show ?thesis by (auto simp: slot_ok_def less_SucI)
  qed
  moreover have "p = q" if "ts_heap ?n p = Some t" "ts_heap ?n q = Some u" "0 \<le> ts_sd t" "ts_sd t = ts_sd u" for p q t u
    using that assms(1,4) fresh by (auto simp: sessions_ok_def split: if_splits)
  moreover have "net_open ?n = base \<union> session_sds ?n" "net_watch ?n \<subseteq> base \<union> session_sds ?n"
    using assms(1,5) by (auto simp: sds sessions_ok_def)
  ultimately show ?thesis using assms(1) unfolding sessions_ok_def by blast
qed

lemma accept_keeps:
  assumes ok: "sessions_ok base n" "good d" and l: "tl_cb_conn l = conn" "tl_cb_recv l = Some recv"
    and e: "accept_fresh e n" "conn_ok (ac_input e)"
    and r: "tcplistener_accept_callback e l d n = (d', n')"
  shows "sessions_ok base n' \<and> good d'"
proof -
  let ?sd = "ac_accept e"
  let ?s = "\<lparr>ts_sd = ?sd, ts_cb_recv = Some recv, ts_ctx = None\<rparr>"
  obtain c d1 where c: "conn (ac_input e) ?sd d = (Some c, d1)" "good_ctx c" "good d1"
    using conn_law [OF ok(2) e(2)] by blast
  have fresh: "0 \<le> ?sd \<longrightarrow> 0 < ?sd \<and> ?sd \<notin> net_open n" using e(1) by (simp add: accept_fresh_def)
  note add = sessions_ok_add [OF ok(1) fresh, of ?s False] sessions_ok_add [OF ok(1) fresh, of "?s\<lparr>ts_ctx := Some c\<rparr>" True]
  consider "d' = d" "n' = n"
    | "d' = d" "n' = n\<lparr>ts_next := Suc (ts_next n), ts_heap := (ts_heap n)(ts_next n \<mapsto> ?s),
         net_open := (if 0 \<le> ?sd then insert ?sd (net_open n) else net_open n)\<rparr>"
    | "0 \<le> ?sd" "d' = d1" "n' = n\<lparr>ts_next := Suc (ts_next n), ts_heap := (ts_heap n)(ts_next n \<mapsto> ?s\<lparr>ts_ctx := Some c\<rparr>),
         net_open := insert ?sd (net_open n), net_watch := insert ?sd (net_watch n)\<rparr>"
    using r c(1) l by (auto simp: tcplistener_accept_callback_def tcpsession_create_def watch_def Let_def split: if_splits)
  then show ?thesis
    by cases (use ok add c in simp_all)
qed

lemma sessions_ok_context:
  assumes "sessions_ok base n" "ts_heap n p = Some s" "good_ctx c"
  shows "sessions_ok base (n\<lparr>ts_heap := (ts_heap n)(p \<mapsto> s\<lparr>ts_ctx := Some c\<rparr>)\<rparr>)" (is "sessions_ok base ?n")
proof -
  have "session_sds ?n = session_sds n"
    using assms(2) by (intro session_sds_cong) simp
  with assms show ?thesis by (auto simp: sessions_ok_def slot_ok_def)
qed

lemma sessions_ok_destroy:
  assumes "sessions_ok base n" "ts_heap n p = Some s" "ts_sd s \<in> net_watch n"
  shows "\<exists>n'. tcpsession_destroy p n = Some n' \<and> sessions_ok base n' \<and> ts_heap n' = (ts_heap n)(p := None) \<and>
    net_open n' = net_open n - {ts_sd s} \<and> net_watch n' = net_watch n - {ts_sd s}"
proof -
  have inj: "q = p" if "ts_heap n q = Some t" "ts_sd t = ts_sd s" "0 \<le> ts_sd t" for q t
    using assms(1,2) that by (simp add: sessions_ok_def)
  have other: "q \<noteq> p" if "ts_heap n q = Some t" "ts_sd t \<noteq> ts_sd s" for q t using that assms(2) by auto
  have "ts_sd s \<in> base \<union> session_sds n" using assms(1,3) by (auto simp: sessions_ok_def)
  then have "0 \<le> ts_sd s" using assms(1) by (auto simp: sessions_ok_def elim: session_sdsE)
  then have sd: "0 < ts_sd s" "ts_sd s \<notin> base" using assms(1,2) by (auto simp: sessions_ok_def slot_ok_def)
  let ?n = "n\<lparr>net_open := net_open n - {ts_sd s}, net_watch := net_watch n - {ts_sd s}, ts_heap := (ts_heap n)(p := None)\<rparr>"
  have d: "tcpsession_destroy p n = Some ?n" using assms(2) sd by (simp add: tcpsession_destroy_def unwatch_def)
  have sds: "session_sds ?n = session_sds n - {ts_sd s}"
  proof (rule set_eqI)
    fix x
    have "x \<in> session_sds ?n \<longleftrightarrow> 0 \<le> x \<and> (\<exists>q t. q \<noteq> p \<and> ts_heap n q = Some t \<and> ts_sd t = x)"
      by (auto simp: session_sds_map split: if_splits)
    also have "\<dots> \<longleftrightarrow> x \<in> session_sds n \<and> x \<noteq> ts_sd s"
      using inj other by (auto simp: session_sds_map) blast
    finally show "x \<in> session_sds ?n \<longleftrightarrow> x \<in> session_sds n - {ts_sd s}" by blast
  qed
  have "sessions_ok base ?n"
    using assms(1) sd(2) sds by (auto simp: sessions_ok_def slot_ok_def)
  with d show ?thesis by auto
qed

lemma recv_keeps:
  assumes ok: "sessions_ok base n" "good d" and s: "ts_heap n p = Some s" "ts_sd s \<in> net_watch n"
    and i: "\<And>c. ts_ctx s = Some c \<Longrightarrow> recv_ok i c"
  shows "\<exists>d' n'. tcpsession_recv_callback ev_error i (Some p) d n = Some (d', n') \<and> sessions_ok base n' \<and> good d' \<and>
    (if ev_error then n' = n
     else (\<exists>c. ts_heap n' = (ts_heap n)(p \<mapsto> s\<lparr>ts_ctx := Some c\<rparr>)) \<or>
          (ts_heap n' = (ts_heap n)(p := None) \<and> net_open n' = net_open n - {ts_sd s}))"
proof (cases ev_error)
  case True
  then show ?thesis using ok by (simp add: tcpsession_recv_callback_def)
next
  case False
  obtain c where c: "ts_ctx s = Some c" "good_ctx c" "ts_cb_recv s = Some recv"
    using ok(1) s unfolding sessions_ok_def slot_ok_def by blast
  obtain rc c' d' where r: "recv i (ts_sd s) d (Some c) = Some (rc, c', d')" "good d'"
      "if rc = 0 then \<exists>c2. c' = Some c2 \<and> good_ctx c2 else c' = None"
    using recv_law [OF ok(2) c(2) i [OF c(1)]] by blast
  let ?n = "n\<lparr>ts_heap := (ts_heap n)(p \<mapsto> s\<lparr>ts_ctx := c'\<rparr>)\<rparr>"
  show ?thesis
  proof (cases "rc = 0")
    case True
    with r obtain c2 where "c' = Some c2" "good_ctx c2" by auto
    with sessions_ok_context [OF ok(1) s(1)] r c s True False show ?thesis
      by (auto simp: tcpsession_recv_callback_def)
  next
    case rc: False
    from sessions_ok_destroy [OF ok(1) s] obtain n' where
      n': "tcpsession_destroy p ?n = Some n'" "sessions_ok base n'" "ts_heap n' = (ts_heap n)(p := None)"
        "net_open n' = net_open n - {ts_sd s}"
      unfolding destroy_context [OF s(1)] by blast
    from n'(1) have "tcpsession_recv_callback ev_error i (Some p) d n = Some (d', n')"
      using r(1) c s(1) rc False by (simp add: tcpsession_recv_callback_def)
    with n' r(2) False show ?thesis by auto
  qed
qed

text \<open>
  When two servers share the descriptors of the process, a step of one with the connections \<open>m'\<close>
  after it leaves the connections \<open>n\<close> of the other in order.
\<close>

lemma sessions_ok_other:
  assumes "sessions_ok (base \<union> session_sds m) n" "sessions_ok (base \<union> session_sds n) m'"
    and "net_watch m' \<subseteq> net_watch n \<union> session_sds m'"
  shows "sessions_ok (base \<union> session_sds m') (n\<lparr>net_open := net_open m', net_watch := net_watch m'\<rparr>)" (is "sessions_ok _ ?n")
proof -
  have sds: "session_sds ?n = session_sds n" by (simp add: session_sds_def)
  have nonneg: "\<forall>sd \<in> base \<union> session_sds m'. 0 \<le> sd"
  proof -
    have "\<forall>sd \<in> base. 0 \<le> sd" using assms(1) unfolding sessions_ok_def by blast
    moreover have "\<forall>sd \<in> session_sds m'. 0 \<le> sd" by (simp add: session_sds_def)
    ultimately show ?thesis by blast
  qed
  have apart: "ts_sd s \<notin> session_sds m'" if "ts_heap n p = Some s" for p s
  proof
    assume "ts_sd s \<in> session_sds m'"
    then obtain q t where t: "ts_heap m' q = Some t" "ts_sd t = ts_sd s" "0 \<le> ts_sd s" by (rule session_sdsE)
    have "slot_ok (base \<union> session_sds n) (net_watch m') (ts_next m') q t"
      using assms(2) t(1) unfolding sessions_ok_def by blast
    with t have "ts_sd s \<notin> session_sds n" by (simp add: slot_ok_def)
    with session_sdsI [OF that t(3)] show False by blast
  qed
  have slots: "slot_ok (base \<union> session_sds m') (net_watch m') (ts_next n) p s" if s: "ts_heap n p = Some s" for p s
  proof -
    have "slot_ok (base \<union> session_sds m) (net_watch n) (ts_next n) p s" using assms(1) s unfolding sessions_ok_def by blast
    with apart [OF s] assms(3) show ?thesis by (auto simp: slot_ok_def)
  qed
  from assms(2) have "net_open m' = base \<union> session_sds n \<union> session_sds m'" "net_watch m' \<subseteq> base \<union> session_sds n \<union> session_sds m'"
    by (simp_all add: sessions_ok_def)
  with slots nonneg assms(1) show ?thesis unfolding sessions_ok_def sds by auto
qed

text \<open>
  A weaker invariant that does not account for descriptors: every session calls the owner, and its
  context, once it has one, is in order. It is kept when other servers of the process use
  descriptors of their own.
\<close>

definition contexts_ok :: "('c, 'd, 'i) tcp_net \<Rightarrow> bool" where
  "contexts_ok n \<longleftrightarrow>
     (\<forall>p s. ts_heap n p = Some s \<longrightarrow> ts_cb_recv s = Some recv \<and> (\<forall>c. ts_ctx s = Some c \<longrightarrow> good_ctx c))"

lemma accept_contexts:
  assumes ok: "contexts_ok n" "good d" and l: "tl_cb_conn l = conn" "tl_cb_recv l = Some recv"
    and e: "conn_ok (ac_input e)" and r: "tcplistener_accept_callback e l d n = (d', n')"
  shows "contexts_ok n' \<and> good d'"
proof -
  obtain c d1 where c: "conn (ac_input e) (ac_accept e) d = (Some c, d1)" "good_ctx c" "good d1"
    using conn_law [OF ok(2) e] by blast
  then show ?thesis using r ok l
    by (auto simp: contexts_ok_def tcplistener_accept_callback_def tcpsession_create_def watch_def Let_def
        split: if_splits)
qed

lemma recv_contexts:
  assumes ok: "contexts_ok n" "good d" and s: "ts_heap n p = Some s" "ts_ctx s = Some c" and i: "recv_ok i c"
  shows "\<exists>d' n'. tcpsession_recv_callback False i (Some p) d n = Some (d', n') \<and> contexts_ok n' \<and> good d'"
proof -
  have c: "good_ctx c" "ts_cb_recv s = Some recv" using ok(1) s by (auto simp: contexts_ok_def)
  obtain rc c' d' where r: "recv i (ts_sd s) d (Some c) = Some (rc, c', d')" "good d'"
      "if rc = 0 then \<exists>c2. c' = Some c2 \<and> good_ctx c2 else c' = None"
    using recv_law [OF ok(2) c(1) i] by blast
  with ok(1) s c show ?thesis
    by (cases "rc = 0")
      (auto simp: contexts_ok_def tcpsession_recv_callback_def tcpsession_destroy_def unwatch_def Let_def)
qed

end

section \<open>Properties\<close>

text \<open>C25: \<open>tcpserver_bind\<close> splits the address at its last colon and fills the table: the listeners it
  adds are those of the addresses that could be set up, in order, as far as the table of 32 has
  room; each is watched. It returns 1 exactly when an address was left when the table was full, and
  0 also when no address could be set up.\<close>

theorem tcpserver_bind_fills_table:
  assumes "CHR '':'' \<notin> set port" "resolve host port = Some addrs" "\<forall>e \<in> set addrs. memory_granted e"
    and "length (t_listeners server) \<le> 32"
  shows "\<exists>n'. tcpserver_bind True resolve (Some (host @ CHR '':'' # port)) cb_conn cb_recv server n =
      Some (if addrs \<noteq> [] \<and> 32 \<le> length (t_listeners server) + length (filter tcp_listens (butlast addrs)) then 1 else 0,
            server\<lparr>t_listeners := t_listeners server @
              take (32 - length (t_listeners server)) (map (tcp_made cb_conn cb_recv) (filter tcp_listens addrs))\<rparr>, n') \<and>
    net_watch n' = net_watch n \<union>
      set (take (32 - length (t_listeners server)) (map a_socket (filter tcp_listens addrs)))"
proof -
  have "split_address (host @ CHR '':'' # port) = Some (host, port)" using assms(1) by (simp add: split_address_Some)
  moreover have "tl_sd ` set (take k (map (tcp_made cb_conn cb_recv) es)) = set (take k (map a_socket es))" for k es
    by (simp add: take_map image_image tcp_made_def)
  ultimately show ?thesis
    using tcp_table.bind_all_spec [OF assms(3), of "t_listeners server" cb_conn cb_recv n] assms(2,4)
    by (auto simp: tcpserver_bind_def MAX_TCP_HANDLERS_def)
qed

text \<open>A listening socket that cannot be set up is never closed: every failing branch of
  \<open>tcplistener_create\<close> after \<open>socket\<close> leaves the descriptor open and nothing refers to it.\<close>

lemma tcplistener_create_leaks:
  assumes "memory_granted e" "0 \<le> a_socket e" "a_socket e \<notin> net_open n" "\<not> tcp_listens e"
  shows "\<exists>n'. tcplistener_create cb_conn cb_recv e n = Some (None, n') \<and> net_open n' = insert (a_socket e) (net_open n) \<and>
    net_watch n' = net_watch n"
  using assms by (simp add: tcplistener_create_cases)

end
