(* ===== verification/Udpserver.thy ===== *)
theory Udpserver
  imports Listeners
begin

text \<open>
  The UDP front end of \<open>src/src/udpserver.c\<close>: bound sockets and the callback for a datagram. As in
  \<open>Tcpserver\<close>, \<open>'d\<close> is the data of the server's owner, threaded through the callback, and \<open>'i\<close> is what
  the environment answers to it. The loop that fills the table interprets \<open>listener_table\<close>.
\<close>

section \<open>The operations\<close>

definition MAX_UDP_HANDLERS :: nat where "MAX_UDP_HANDLERS = 32"

type_synonym ('d, 'i) datagram_cb = "'i \<Rightarrow> int \<Rightarrow> 'd \<Rightarrow> (int \<times> 'd) option"

record ('d, 'i) udplistener =
  ul_sd :: int
  ul_cb_recv :: "('d, 'i) datagram_cb"

record ('d, 'i) udpserver =
  u_listeners :: "('d, 'i) udplistener list"

text \<open>\<open>udpserver_create\<close> does not check its allocation.\<close>

definition udpserver_create :: "bool \<Rightarrow> ('d, 'i) udpserver option" where
  "udpserver_create mem_ok = (if mem_ok then Some \<lparr>u_listeners = []\<rparr> else None)"

text \<open>\<open>udplistener_recv_callback\<close>: the result of the owner's callback has no effect.\<close>

definition udplistener_recv_callback :: "bool \<Rightarrow> 'i \<Rightarrow> ('d, 'i) udplistener \<Rightarrow> 'd \<Rightarrow> 'd option" where
  "udplistener_recv_callback ev_error i listener d =
     (if ev_error then Some d
      else do { (_, d') \<leftarrow> ul_cb_recv listener i (ul_sd listener) d; Some d' })"

text \<open>
  \<open>udplistener_create\<close>; a descriptor that \<open>socket\<close> returned is not closed on the failing branches, and
  the memory for the listener and the watcher is not checked.
\<close>

definition udplistener_create ::
    "('d, 'i) datagram_cb \<Rightarrow> addr_env \<Rightarrow> 'a net_scheme \<Rightarrow> (('d, 'i) udplistener option \<times> 'a net_scheme) option" where
  "udplistener_create cb_recv e n =
     (if \<not> a_listener e then None
      else
        (let sd = a_socket e;
             n1 = (if 0 \<le> sd then n\<lparr>net_open := insert sd (net_open n)\<rparr> else n)
         in if \<not> a_ntop e then Some (None, n1)
            else if sd < 0 then Some (None, n1)
            else if a_reuse e \<noteq> 0 then Some (None, n1)
            else if a_nonblock e \<noteq> 0 then Some (None, n1)
            else if a_bind e \<noteq> 0 then Some (None, n1)
            else if \<not> a_watcher e then None
            else Some (Some \<lparr>ul_sd = sd, ul_cb_recv = cb_recv\<rparr>, n1)))"

definition udplistener_destroy :: "('d, 'i) udplistener \<Rightarrow> 'a net_scheme \<Rightarrow> 'a net_scheme" where
  "udplistener_destroy listener n = unwatch (ul_sd listener) n"

text \<open>The loop of \<open>udpserver_bind\<close> over the addresses.\<close>

fun udp_bind_all ::
    "('d, 'i) datagram_cb \<Rightarrow> addr_env list \<Rightarrow> ('d, 'i) udplistener list \<Rightarrow> 'a net_scheme \<Rightarrow>
     (int \<times> ('d, 'i) udplistener list \<times> 'a net_scheme) option" where
  "udp_bind_all cb_recv [] ls n = Some (0, ls, n)"
| "udp_bind_all cb_recv (p # ps) ls n =
     (if MAX_UDP_HANDLERS \<le> length ls then Some (1, ls, n)
      else do {
        (listener, n1) \<leftarrow> udplistener_create cb_recv p n;
        case listener of
          None \<Rightarrow> udp_bind_all cb_recv ps ls n1
        | Some l \<Rightarrow> udp_bind_all cb_recv ps (ls @ [l]) (watch (ul_sd l) n1)
      })"

definition udpserver_bind ::
    "bool \<Rightarrow> (bytes \<Rightarrow> bytes \<Rightarrow> addr_env list option) \<Rightarrow> bytes option \<Rightarrow> ('d, 'i) datagram_cb \<Rightarrow>
     ('d, 'i) udpserver \<Rightarrow> 'a net_scheme \<Rightarrow> (int \<times> ('d, 'i) udpserver \<times> 'a net_scheme) option" where
  "udpserver_bind strdup_ok resolve address_and_port cb_recv server n =
     do {
       addr \<leftarrow> address_and_port;
       if \<not> strdup_ok then Some (1, server, n)
       else case split_address addr of
         None \<Rightarrow> Some (1, server, n)
       | Some (address, port) \<Rightarrow>
           (case resolve address port of
              None \<Rightarrow> Some (1, server, n)
            | Some addrs \<Rightarrow>
                do {
                  (rc, ls, n') \<leftarrow> udp_bind_all cb_recv addrs (u_listeners server) n;
                  Some (rc, server\<lparr>u_listeners := ls\<rparr>, n')
                })
     }"

fun destroy_udp_listeners :: "('d, 'i) udplistener list \<Rightarrow> 'a net_scheme \<Rightarrow> 'a net_scheme" where
  "destroy_udp_listeners [] n = n"
| "destroy_udp_listeners (l # ls) n = destroy_udp_listeners ls (udplistener_destroy l n)"

definition udpserver_destroy :: "('d, 'i) udpserver \<Rightarrow> 'a net_scheme \<Rightarrow> 'a net_scheme" where
  "udpserver_destroy server n = destroy_udp_listeners (u_listeners server) n"

section \<open>Binding\<close>

definition udp_listens :: "addr_env \<Rightarrow> bool" where
  "udp_listens e \<longleftrightarrow> a_ntop e \<and> 0 \<le> a_socket e \<and> a_reuse e = 0 \<and> a_nonblock e = 0 \<and> a_bind e = 0"

definition udp_made :: "('d, 'i) datagram_cb \<Rightarrow> addr_env \<Rightarrow> ('d, 'i) udplistener" where
  "udp_made cb_recv e = \<lparr>ul_sd = a_socket e, ul_cb_recv = cb_recv\<rparr>"

lemma udplistener_create_cases:
  assumes "memory_granted e"
  shows "udplistener_create cb_recv e n =
    Some (if udp_listens e then Some (udp_made cb_recv e) else None,
          if 0 \<le> a_socket e then n\<lparr>net_open := insert (a_socket e) (net_open n)\<rparr> else n)"
  using assms by (simp add: udplistener_create_def udp_listens_def udp_made_def memory_granted_def Let_def)

lemma udplistener_create_safe:
  assumes "udplistener_create cb_recv e n = Some (r, n')" "net_ok n"
  shows "net_ok n' \<and> net_watch n' = net_watch n \<and>
    (\<forall>l. r = Some l \<longrightarrow> ul_sd l \<in> net_open n' \<and> l = udp_made cb_recv e)"
  using assms by (auto simp: udplistener_create_def udp_made_def net_ok_def Let_def split: if_splits)

interpretation udp_table: listener_table MAX_UDP_HANDLERS memory_granted udp_listens "udp_made cb_recv" ul_sd
  "udplistener_create cb_recv" "udp_bind_all cb_recv" for cb_recv
  by unfold_locales
    (auto simp: udplistener_create_cases udplistener_create_safe split: option.split)

lemma destroy_udp_listeners_watch:
  "net_watch (destroy_udp_listeners ls n) = net_watch n - ul_sd ` set ls"
  "net_open (destroy_udp_listeners ls n) = net_open n"
  by (induction ls arbitrary: n) (auto simp: udplistener_destroy_def unwatch_def)

section \<open>Properties\<close>

text \<open>\<open>udpserver_bind\<close> splits the address at its last colon and fills the table: the listeners it
  adds are those of the addresses that could be bound, in order, as far as the table of 32 has room;
  each is watched. It returns 1 exactly when an address was left when the table was full.\<close>

lemma udpserver_bind_fills_table:
  assumes "CHR '':'' \<notin> set port" "resolve host port = Some addrs" "\<forall>e \<in> set addrs. memory_granted e"
    and "length (u_listeners server) \<le> 32"
  shows "\<exists>n'. udpserver_bind True resolve (Some (host @ CHR '':'' # port)) cb_recv server n =
      Some (if addrs \<noteq> [] \<and> 32 \<le> length (u_listeners server) + length (filter udp_listens (butlast addrs)) then 1 else 0,
            server\<lparr>u_listeners := u_listeners server @
              take (32 - length (u_listeners server)) (map (udp_made cb_recv) (filter udp_listens addrs))\<rparr>, n') \<and>
    net_watch n' = net_watch n \<union>
      set (take (32 - length (u_listeners server)) (map a_socket (filter udp_listens addrs)))"
proof -
  have "split_address (host @ CHR '':'' # port) = Some (host, port)" using assms(1) by (simp add: split_address_Some)
  moreover have "ul_sd ` set (take k (map (udp_made cb_recv) es)) = set (take k (map a_socket es))" for k es
    by (simp add: take_map image_image udp_made_def)
  ultimately show ?thesis
    using udp_table.bind_all_spec [OF assms(3), of "u_listeners server" cb_recv n] assms(2,4)
    by (auto simp: udpserver_bind_def MAX_UDP_HANDLERS_def)
qed

end
