(* ===== verification/Frontend.thy ===== *)
theory Frontend
  imports Status Relay_System Tcpserver Udpserver
begin

text \<open>
  The front ends and the relay together: the TCP and UDP servers call \<open>stats_connection\<close>, \<open>stats_recv\<close>
  and \<open>stats_udp_recv\<close> on one statistics server, as \<open>src/src/server.c\<close> wires them, while the event
  loop runs the handlers of the backends. The theory shows that the callbacks fulfil the contract of
  the TCP front end, and what holds in every state the event loop can reach: the descriptors are
  accounted for, every live connection has its context, and no handler runs into undefined
  behaviour on lines within the limits of the fixed-size buffers.
\<close>

section \<open>The callbacks\<close>

text \<open>What the environment answers to one callback; each callback uses a part of it.\<close>

record front_input =
  fi_mem :: bool
  fi_alloc :: allocator
  fi_lines :: "nat \<Rightarrow> line_env"
  fi_recv :: recv_result

definition stats_connection_cb :: "(stats_session, stats_server, front_input) conn_cb" where
  "stats_connection_cb i sd server = stats_connection (fi_mem i) (fi_alloc i) sd server"

text \<open>A null context is dereferenced without a check.\<close>

definition stats_recv_cb :: "(stats_session, stats_server, front_input) recv_cb" where
  "stats_recv_cb i sd server ctx =
     (case ctx of
        None \<Rightarrow> None
      | Some session \<Rightarrow> stats_recv (fi_alloc i) (fi_lines i) (fi_recv i) session server)"

definition stats_udp_recv_cb :: "(stats_server, front_input) datagram_cb" where
  "stats_udp_recv_cb i sd server = stats_udp_recv (fi_lines i) (fi_recv i) server"

type_synonym stats_tcp_net = "(stats_session, stats_server, front_input) tcp_net"
type_synonym stats_tcplistener = "(stats_session, stats_server, front_input) tcplistener"
type_synonym stats_udplistener = "(stats_server, front_input) udplistener"

text \<open>
  The inputs within the limits: memory for a new session; at most as many bytes as there is room, and
  lines that the fixed-size buffers can take.
\<close>

definition conn_fits :: "front_input \<Rightarrow> bool" where
  "conn_fits i \<longleftrightarrow> fi_mem i \<and> malloc (fi_alloc i) INITIAL_BUFFER_SIZE \<noteq> None"

definition read_fits :: "char \<Rightarrow> front_input \<Rightarrow> stats_session \<Rightarrow> bool" where
  "read_fits delim i se \<longleftrightarrow>
     session_envs_ok (fi_lines i) \<and>
     (\<forall>d. fi_recv i = Recv_data d \<longrightarrow>
        (\<forall>b. recv_room (fi_alloc i) (ss_buffer se) = Some (0, b) \<longrightarrow> length d \<le> buffer_spacecount b) \<and>
        (\<forall>l \<in> set (fst (split_lines (buffer_data (ss_buffer se) @ d))). good_line delim l))"

definition datagram_fits :: "char \<Rightarrow> front_input \<Rightarrow> bool" where
  "datagram_fits delim i \<longleftrightarrow>
     envs_ok (fi_lines i) \<and> (\<forall>d. fi_recv i = Recv_data d \<longrightarrow> (\<forall>l \<in> set (udp_pieces d). good_line delim l))"

interpretation front: connection_handler stats_connection_cb stats_recv_cb "serving delim accepts" session_ok
  conn_fits "read_fits delim" for delim accepts
proof unfold_locales
  fix d i sd
  assume a: "serving delim accepts d" "conn_fits i"
  obtain rc b where b: "buffer_init (fi_alloc i) unset_buffer = (rc, b)" by fastforce
  have ok: "rc = 0 \<and> session_ok \<lparr>ss_buffer = b, ss_sd = sd\<rparr>"
    using buffer_allocate_cases [OF b [unfolded buffer_init_def]] a(2)
    by (auto simp: conn_fits_def session_ok_def INITIAL_BUFFER_SIZE_def)
  then have "stats_connection_cb i sd d =
      (Some \<lparr>ss_buffer = b, ss_sd = sd\<rparr>, d\<lparr>total_connections := total_connections d + 1\<rparr>)"
    using a(2) b by (simp add: stats_connection_cb_def stats_connection_def conn_fits_def)
  with ok a(1) show "\<exists>c d'. stats_connection_cb i sd d = (Some c, d') \<and> session_ok c \<and> serving delim accepts d'"
    by (simp add: frame_simps)
next
  fix d c i sd
  assume a: "serving delim accepts d" "session_ok c" "read_fits delim i c"
  then show "\<exists>rc c' d'. stats_recv_cb i sd d (Some c) = Some (rc, c', d') \<and> serving delim accepts d' \<and>
      (if rc = 0 then \<exists>c2. c' = Some c2 \<and> session_ok c2 else c' = None)"
    using stats_recv_returns [of c delim accepts d "fi_lines i" "fi_recv i" "fi_alloc i"]
    by (simp add: stats_recv_cb_def read_fits_def)
qed

section \<open>Sessions and the log\<close>

text \<open>A status request leaves no entry in the log: the delimiters of both protocols do not occur in it.\<close>

lemma handle_line_steps:
  assumes sv: "session_envs_ok R \<and> serving delim accepts s" and l: "good_line delim l"
    and delim: "delim \<notin> set status_line" and h: "handle_line R sd l s = Some (rc, s')"
  shows "(relay_step delim)\<^sup>*\<^sup>* (s, log) (s', log @ (if rc = 0 then line_entry delim l s else []))"
proof (cases "l = status_line")
  case True
  have "server_inv (count_line s)" using sv by (simp add: serving_def frame_simps)
  from stats_send_statistics_reply [OF this, of "R (s_lines s)" sd] sv h
  have "bookkeeping s s'" "rc = 0"
    unfolding handle_line_status [OF True] by (auto simp: session_envs_ok_def bookkeeping_def count_line_def)
  moreover have "line_entry delim l s = []" using delim unfolding True by (simp add: line_entry_def line_key_def)
  ultimately show ?thesis using rs_bookkeeping [of s s' delim log] by simp
next
  case False
  have "NUL \<notin> set l" using l by (simp add: good_line_def)
  from handle_line_relay [OF this False, of R sd s] h obtain rc' where
    "relay_handler R l s = Some (rc', s')" "rc = (if rc' \<noteq> 0 then 1 else 0)"
    by (auto split: Option.bind_splits)
  with relay_handler_steps [OF _ l this(1)] sv show ?thesis by (auto simp: session_envs_ok_def)
qed

interpretation session_log: line_logger "handle_line R sd"
  "\<lambda>s. delim \<notin> set status_line \<and> session_envs_ok R \<and> serving delim accepts s"
  "good_line delim" "relay_step delim" "line_entry delim" for R sd delim accepts
proof unfold_locales
  fix s l
  assume "delim \<notin> set status_line \<and> session_envs_ok R \<and> serving delim accepts s" "good_line delim l"
  then show "\<exists>rc s'. handle_line R sd l s = Some (rc, s') \<and>
      delim \<notin> set status_line \<and> session_envs_ok R \<and> serving delim accepts s'"
    using answering.handle_law [of R delim accepts s l sd] by blast
next
  fix s l rc s' log
  assume "delim \<notin> set status_line \<and> session_envs_ok R \<and> serving delim accepts s" "good_line delim l"
    "handle_line R sd l s = Some (rc, s')"
  then show "(relay_step delim)\<^sup>*\<^sup>* (s, log) (s', log @ (if rc = 0 then line_entry delim l s else []))"
    by (intro handle_line_steps [where accepts = accepts]) auto
qed

text \<open>The lines that a read of a session and a datagram add to the log.\<close>

definition read_log :: "char \<Rightarrow> front_input \<Rightarrow> stats_session \<Rightarrow> stats_server \<Rightarrow> (nat \<times> bytes) list" where
  "read_log delim i se s =
     (case (fi_recv i, recv_room (fi_alloc i) (ss_buffer se)) of
        (Recv_data d, Some (rc, _)) \<Rightarrow>
          if rc = 0
          then logged (handle_line (fi_lines i) (ss_sd se)) (line_entry delim)
                 (fst (split_lines (buffer_data (ss_buffer se) @ d)))
                 (s\<lparr>bytes_recv_tcp := bytes_recv_tcp s + of_nat (length d)\<rparr>)
          else []
      | _ \<Rightarrow> [])"

definition datagram_log :: "char \<Rightarrow> front_input \<Rightarrow> stats_server \<Rightarrow> (nat \<times> bytes) list" where
  "datagram_log delim i s =
     (case fi_recv i of
        Recv_data d \<Rightarrow>
          logged (relay_handler (fi_lines i)) (line_entry delim) (udp_pieces d)
            (s\<lparr>bytes_recv_udp := bytes_recv_udp s + of_nat (length d)\<rparr>)
      | _ \<Rightarrow> [])"

lemma stats_recv_steps:
  assumes "session_ok se" "serving delim accepts s" "delim \<notin> set status_line" "read_fits delim i se"
    and r: "stats_recv (fi_alloc i) (fi_lines i) (fi_recv i) se s = Some (rc, se', s')"
  shows "(relay_step delim)\<^sup>*\<^sup>* (s, log) (s', log @ read_log delim i se s)"
proof -
  obtain rc0 b where room: "recv_room (fi_alloc i) (ss_buffer se) = Some (rc0, b)" "buffer_wf b" "0 < b_size b"
    using recv_room_ok [of "ss_buffer se" "fi_alloc i"] assms(1) by (auto simp: session_ok_def)
  then have ok: "session_ok (se\<lparr>ss_buffer := b\<rparr>)" by (simp add: session_ok_def)
  show ?thesis
  proof (cases "rc0 = 0 \<and> (\<exists>d. fi_recv i = Recv_data d)")
    case False
    then have "stats_recv (fi_alloc i) (fi_lines i) (fi_recv i) se s = recv_failed (se\<lparr>ss_buffer := b\<rparr>) s"
      using room(1) by (cases "fi_recv i") (auto simp: stats_recv_def Let_def)
    with session_destroy_ok [OF ok] r have "s' = s" by simp
    moreover have "read_log delim i se s = []" using False room(1) by (auto simp: read_log_def split: recv_result.split)
    ultimately show ?thesis by simp
  next
    case True
    then obtain d where d: "fi_recv i = Recv_data d" by blast
    let ?s = "s\<lparr>bytes_recv_tcp := bytes_recv_tcp s + of_nat (length d)\<rparr>"
    let ?ls = "fst (split_lines (buffer_data (ss_buffer se) @ d))"
    have fits: "length d \<le> buffer_spacecount b" "\<forall>l \<in> set ?ls. good_line delim l" "session_envs_ok (fi_lines i)"
      using assms(4) d room(1) True by (auto simp: read_fits_def)
    have count: "relay_step delim (s, log) (?s, log)" by (rule rs_bookkeeping) (simp add: bookkeeping_def)
    have inv: "delim \<notin> set status_line \<and> session_envs_ok (fi_lines i) \<and> serving delim accepts ?s"
      using assms(2,3) fits(3) by (simp add: frame_simps)
    obtain rc1 s1 where run: "run_lines (handle_line (fi_lines i) (ss_sd se)) ?ls ?s = Some (rc1, s1)"
      using session_log.run_returns [OF inv fits(2)] by blast
    have "s1 = s'"
      using stats_recv_eq [OF assms(1), of "fi_alloc i" b d "fi_lines i" s] room(1) True fits(1) run r d
      by (cases "rc1 = 0") auto
    with session_log.run_logs [OF inv fits(2) run, of log] count
    show ?thesis using d room(1) True by (simp add: read_log_def)
  qed
qed

lemma stats_udp_recv_steps:
  assumes "serving delim accepts s" "datagram_fits delim i"
    and r: "stats_udp_recv (fi_lines i) (fi_recv i) s = Some (rc, s')"
  shows "(relay_step delim)\<^sup>*\<^sup>* (s, log) (s', log @ datagram_log delim i s)"
proof (cases "fi_recv i")
  case (Recv_data d)
  let ?s = "s\<lparr>bytes_recv_udp := bytes_recv_udp s + of_nat (length d)\<rparr>"
  have run: "run_lines (relay_handler (fi_lines i)) (udp_pieces d) ?s = Some (rc, s')"
    using r Recv_data by (simp add: stats_udp_recv_def udp_lines_run)
  have inv: "envs_ok (fi_lines i) \<and> serving delim accepts ?s" "\<forall>l \<in> set (udp_pieces d). good_line delim l"
    using assms Recv_data by (simp_all add: datagram_fits_def frame_simps)
  have "relay_step delim (s, log) (?s, log)" by (rule rs_bookkeeping) (simp add: bookkeeping_def)
  with relay_log.run_logs [OF inv run, of log] Recv_data show ?thesis by (simp add: datagram_log_def)
qed (use r in \<open>simp_all add: stats_udp_recv_def datagram_log_def\<close>)

section \<open>The event loop\<close>

text \<open>
  One turn of the event loop, with the listeners \<open>ls\<close> and \<open>us\<close>: a connection is accepted, a connection
  or a UDP socket is readable, or a backend's client has an event. An event can happen only on a
  descriptor that is watched; it may also report an error. The state has the log of accepted lines
  as a ghost.
\<close>

type_synonym front_state = "(stats_server \<times> stats_tcp_net) \<times> (nat \<times> bytes) list"

inductive front_step ::
    "char \<Rightarrow> stats_tcplistener list \<Rightarrow> stats_udplistener list \<Rightarrow> front_state \<Rightarrow> front_state \<Rightarrow> bool"
  for delim ls us where
  fs_accept:
    "l \<in> set ls \<Longrightarrow> tl_sd l \<in> net_watch n \<Longrightarrow> accept_fresh e n \<Longrightarrow> conn_fits (ac_input e) \<Longrightarrow>
     tcplistener_accept_callback e l d n = (d', n') \<Longrightarrow> front_step delim ls us ((d, n), log) ((d', n'), log)"
| fs_error:
    "ts_heap n p = Some s \<Longrightarrow> ts_sd s \<in> net_watch n \<Longrightarrow>
     tcpsession_recv_callback True i (Some p) d n = Some (d', n') \<Longrightarrow>
     front_step delim ls us ((d, n), log) ((d', n'), log)"
| fs_read:
    "ts_heap n p = Some s \<Longrightarrow> ts_sd s \<in> net_watch n \<Longrightarrow> ts_ctx s = Some c \<Longrightarrow> read_fits delim i c \<Longrightarrow>
     tcpsession_recv_callback False i (Some p) d n = Some (d', n') \<Longrightarrow>
     front_step delim ls us ((d, n), log) ((d', n'), log @ read_log delim i c d)"
| fs_datagram:
    "u \<in> set us \<Longrightarrow> ul_sd u \<in> net_watch n \<Longrightarrow> datagram_fits delim i \<Longrightarrow>
     udplistener_recv_callback ev_error i u d = Some d' \<Longrightarrow>
     front_step delim ls us ((d, n), log) ((d', n), log @ (if ev_error then [] else datagram_log delim i d))"
| fs_backend:
    "s_backends d p = Some b \<Longrightarrow> backend_event b b' \<Longrightarrow>
     front_step delim ls us ((d, n), log) ((d\<lparr>s_backends := (s_backends d)(p \<mapsto> b')\<rparr>, n), log)"

text \<open>The listeners of the relay, as \<open>connect_server\<close> makes them.\<close>

definition relay_listeners :: "stats_tcplistener list \<Rightarrow> stats_udplistener list \<Rightarrow> bool" where
  "relay_listeners ls us \<longleftrightarrow>
     (\<forall>l \<in> set ls. tl_cb_conn l = stats_connection_cb \<and> tl_cb_recv l = Some stats_recv_cb) \<and>
     (\<forall>u \<in> set us. ul_cb_recv u = stats_udp_recv_cb)"

text \<open>
  The invariant: the relay's, with the log as the relay system keeps it, and that of the sessions.
\<close>

definition front_inv :: "char \<Rightarrow> (bytes \<Rightarrow> bool) \<Rightarrow> int set \<Rightarrow> stats_server \<Rightarrow> front_state \<Rightarrow> bool" where
  "front_inv delim accepts base d0 st \<longleftrightarrow>
     serving delim accepts (fst (fst st)) \<and> front.sessions_ok base (snd (fst st)) \<and>
     front.contexts_ok (snd (fst st)) \<and> (relay_step delim)\<^sup>*\<^sup>* (d0, []) (fst (fst st), snd st)"

lemma udp_callback_returns:
  assumes "serving delim accepts d" "datagram_fits delim i" "ul_cb_recv u = stats_udp_recv_cb"
  shows "\<exists>d'. udplistener_recv_callback ev_error i u d = Some d' \<and> serving delim accepts d' \<and>
    (relay_step delim)\<^sup>*\<^sup>* (d, log) (d', log @ (if ev_error then [] else datagram_log delim i d))"
proof (cases ev_error)
  case True
  then show ?thesis using assms(1) by (simp add: udplistener_recv_callback_def)
next
  case False
  have "\<exists>rc d'. stats_udp_recv (fi_lines i) (fi_recv i) d = Some (rc, d') \<and> serving delim accepts d'"
  proof (cases "fi_recv i")
    case (Recv_data x)
    then show ?thesis
      using relaying.run_returns [of "fi_lines i" delim accepts
        "d\<lparr>bytes_recv_udp := bytes_recv_udp d + of_nat (length x)\<rparr>" "udp_pieces x"] assms(1,2)
      by (auto simp: stats_udp_recv_def udp_lines_run frame_simps datagram_fits_def)
  qed (use assms(1) in \<open>simp_all add: stats_udp_recv_def\<close>)
  then obtain rc d' where r: "stats_udp_recv (fi_lines i) (fi_recv i) d = Some (rc, d')" "serving delim accepts d'"
    by blast
  with stats_udp_recv_steps [OF assms(1,2) r(1)] False assms(3) show ?thesis
    by (simp add: udplistener_recv_callback_def stats_udp_recv_cb_def)
qed

lemma accept_steps:
  assumes "tl_cb_conn l = stats_connection_cb" "tcplistener_accept_callback e l d n = (d', n')"
  shows "relay_step delim (d, log) (d', log)"
proof -
  have "d' = d \<or> d' = d\<lparr>total_connections := total_connections d + 1\<rparr>"
    using assms by (auto simp: tcplistener_accept_callback_def stats_connection_cb_def stats_connection_def Let_def
        split: if_splits option.splits prod.splits)
  then show ?thesis by (intro rs_bookkeeping) (auto simp: bookkeeping_def)
qed

lemma read_steps:
  assumes "serving delim accepts d" "front.contexts_ok n" "ts_heap n p = Some s" "ts_ctx s = Some c"
    and c: "read_fits delim i c" "delim \<notin> set status_line"
    and r: "tcpsession_recv_callback False i (Some p) d n = Some (d', n')"
  shows "(relay_step delim)\<^sup>*\<^sup>* (d, log) (d', log @ read_log delim i c d)"
proof -
  have s: "session_ok c" "ts_cb_recv s = Some stats_recv_cb"
    using assms(2-4) unfolding front.contexts_ok_def by blast+
  then obtain rc c' where "stats_recv (fi_alloc i) (fi_lines i) (fi_recv i) c d = Some (rc, c', d')"
    using r assms(3,4)
    by (auto simp: tcpsession_recv_callback_def stats_recv_cb_def Let_def split: Option.bind_splits if_splits)
  from stats_recv_steps [OF s(1) assms(1) c(2,1) this] show ?thesis .
qed

lemma backend_event_serves:
  assumes "serving delim accepts d" "s_backends d p = Some b" "backend_event b b'"
  shows "serving delim accepts (d\<lparr>s_backends := (s_backends d)(p \<mapsto> b')\<rparr>)"
proof -
  have "backend_ok b" using assms(1,2) unfolding serving_def server_inv_def pool_ok_def by auto
  with backend_event_ok [OF assms(3)] serving_update [OF assms(1,2)] show ?thesis by auto
qed

text \<open>What one turn does to the server and the contexts, wherever the descriptors come from.\<close>

lemma front_step_serves:
  assumes "relay_listeners ls us" "delim \<notin> set status_line" "front_step delim ls us ((d, n), log) ((d', n'), log')"
    and "serving delim accepts d" "front.contexts_ok n"
  shows "serving delim accepts d' \<and> front.contexts_ok n' \<and> (relay_step delim)\<^sup>*\<^sup>* (d, log) (d', log')"
  using assms(3)
proof cases
  case (fs_accept l e)
  then have l: "tl_cb_conn l = stats_connection_cb" "tl_cb_recv l = Some stats_recv_cb"
    using assms(1) by (auto simp: relay_listeners_def)
  with fs_accept front.accept_contexts [OF assms(5,4) l, of e d' n'] accept_steps [OF l(1), of e d n d' n' delim log]
  show ?thesis by blast
next
  case (fs_error p s i)
  then show ?thesis using assms(4,5) by (simp add: tcpsession_recv_callback_def)
next
  case (fs_read p s c i)
  from front.recv_contexts [OF assms(5,4) fs_read(2,4,5)] fs_read(6)
    read_steps [OF assms(4,5) fs_read(2,4,5) assms(2) fs_read(6), of log] fs_read(1)
  show ?thesis by auto
next
  case (fs_datagram u i ev_error)
  then have "ul_cb_recv u = stats_udp_recv_cb" using assms(1) by (simp add: relay_listeners_def)
  with udp_callback_returns [OF assms(4) fs_datagram(5) this, of ev_error log] fs_datagram assms(5)
  show ?thesis by auto
next
  case (fs_backend p b b')
  from backend_event_serves [OF assms(4) fs_backend(4,5)] rs_event [OF fs_backend(4,5), of delim log] fs_backend assms(5)
  show ?thesis by blast
qed

lemma front_step_sessions:
  assumes "relay_listeners ls us" "front_step delim ls us ((d, n), log) ((d', n'), log')"
    and "serving delim accepts d" "front.sessions_ok base n"
  shows "front.sessions_ok base n'"
  using assms(2)
proof cases
  case (fs_accept l e)
  then have l: "tl_cb_conn l = stats_connection_cb" "tl_cb_recv l = Some stats_recv_cb"
    using assms(1) by (auto simp: relay_listeners_def)
  from front.accept_keeps [OF assms(4,3) l fs_accept(4,5,6)] show ?thesis by blast
next
  case (fs_read p s c i)
  with front.recv_keeps [OF assms(4,3) fs_read(2,3), of i False] show ?thesis by auto
qed (use assms(4) in \<open>auto simp: tcpsession_recv_callback_def\<close>)

lemma front_step_watch:
  assumes "front_step delim ls us ((d, n), log) ((d', n'), log')"
  shows "net_watch n' \<subseteq> net_watch n \<union> session_sds n'"
  using assms
proof cases
  case (fs_accept l e)
  then show ?thesis
    by (auto simp: tcplistener_accept_callback_def tcpsession_create_def watch_def session_sds_map Let_def
        split: if_splits prod.splits)
next
  case (fs_error p s i)
  then show ?thesis by (simp add: tcpsession_recv_callback_def)
next
  case (fs_read p s c i)
  then show ?thesis
    by (auto simp: tcpsession_recv_callback_def tcpsession_destroy_def unwatch_def Let_def
        split: if_splits Option.bind_splits option.splits)
qed auto

lemma front_step_inv:
  assumes "relay_listeners ls us" "delim \<notin> set status_line" "front_step delim ls us st st'"
    and "front_inv delim accepts base d0 st"
  shows "front_inv delim accepts base d0 st'"
proof -
  obtain d n log d' n' log' where st: "st = ((d, n), log)" "st' = ((d', n'), log')" by (metis surj_pair)
  then have ok: "serving delim accepts d" "front.sessions_ok base n" "front.contexts_ok n"
      "(relay_step delim)\<^sup>*\<^sup>* (d0, []) (d, log)"
    using assms(4) by (simp_all add: front_inv_def)
  from front_step_serves [OF assms(1,2) assms(3) [unfolded st] ok(1,3)]
    front_step_sessions [OF assms(1) assms(3) [unfolded st] ok(1,2)] ok(4)
  show ?thesis unfolding st front_inv_def by auto
qed

text \<open>The event loop starts with a server in order and no connections.\<close>

definition front_start :: "char \<Rightarrow> (bytes \<Rightarrow> bool) \<Rightarrow> int set \<Rightarrow> stats_server \<Rightarrow> front_state \<Rightarrow> bool" where
  "front_start delim accepts base d0 st \<longleftrightarrow>
     serving delim accepts d0 \<and> fst (fst st) = d0 \<and> snd st = [] \<and> ts_heap (snd (fst st)) = Map.empty \<and>
     net_open (snd (fst st)) = base \<and> net_watch (snd (fst st)) \<subseteq> base \<and> (\<forall>sd \<in> base. 0 \<le> sd)"

interpretation front_run: invariant_system "front_start delim accepts base d0"
  "\<lambda>st st'. relay_listeners ls us \<and> delim \<notin> set status_line \<and> front_step delim ls us st st'"
  "front_inv delim accepts base d0" for delim accepts base d0 ls us
proof unfold_locales
  fix st assume "front_start delim accepts base d0 st"
  then show "front_inv delim accepts base d0 st"
    by (auto simp: front_start_def front_inv_def front.sessions_ok_def front.contexts_ok_def session_sds_def)
next
  fix st st'
  assume "front_inv delim accepts base d0 st"
    "relay_listeners ls us \<and> delim \<notin> set status_line \<and> front_step delim ls us st st'"
  then show "front_inv delim accepts base d0 st'" by (blast intro: front_step_inv)
qed

text \<open>The states the event loop reaches from a start without connections.\<close>

definition front_reaches ::
    "char \<Rightarrow> (bytes \<Rightarrow> bool) \<Rightarrow> stats_tcplistener list \<Rightarrow> stats_udplistener list \<Rightarrow>
     stats_server \<times> stats_tcp_net \<Rightarrow> front_state \<Rightarrow> bool" where
  "front_reaches delim accepts ls us start st \<longleftrightarrow>
     relay_listeners ls us \<and> delim \<notin> set status_line \<and>
     front_start delim accepts (net_open (snd start)) (fst start) (start, []) \<and>
     (front_step delim ls us)\<^sup>*\<^sup>* (start, []) st"

lemma front_reaches_inv:
  assumes "front_reaches delim accepts ls us (d0, n0) st"
  shows "front_inv delim accepts (net_open n0) d0 st"
proof -
  let ?step = "\<lambda>st st'. relay_listeners ls us \<and> delim \<notin> set status_line \<and> front_step delim ls us st st'"
  have "?step\<^sup>*\<^sup>* ((d0, n0), []) st"
    using assms by (auto simp: front_reaches_def)
  moreover have "front_start delim accepts (net_open n0) d0 ((d0, n0), [])"
    using assms by (simp add: front_reaches_def)
  ultimately show ?thesis by (blast intro: front_run.reachable_inv)
qed

section \<open>Properties\<close>

text \<open>The handlers return: a read on a watched session and a datagram, for all lines within the limits of
  the fixed-size buffers and all answers of the network.\<close>

lemma handlers_return:
  assumes "serving delim accepts d" "front.sessions_ok base n"
  shows "\<lbrakk>ts_heap n p = Some s; ts_sd s \<in> net_watch n; ts_ctx s = Some c; read_fits delim i c\<rbrakk> \<Longrightarrow>
      \<exists>d' n'. tcpsession_recv_callback False i (Some p) d n = Some (d', n')"
    "\<lbrakk>relay_listeners ls us; u \<in> set us; datagram_fits delim i\<rbrakk> \<Longrightarrow> \<exists>d'. udplistener_recv_callback False i u d = Some d'"
proof -
  show "\<exists>d' n'. tcpsession_recv_callback False i (Some p) d n = Some (d', n')"
    if "ts_heap n p = Some s" "ts_sd s \<in> net_watch n" "ts_ctx s = Some c" "read_fits delim i c"
    using front.recv_keeps [OF assms(2,1) that(1,2), of i False] that(3,4) by auto
  show "\<exists>d'. udplistener_recv_callback False i u d = Some d'"
    if "relay_listeners ls us" "u \<in> set us" "datagram_fits delim i"
    using udp_callback_returns [OF assms(1) that(3), of u False "[]"] that(1,2) by (auto simp: relay_listeners_def)
qed

text \<open>From the clients to the backends: in every reachable state, the bytes a backend has been sent,
  followed by the bytes waiting for it, are the lines that were accepted for it from all TCP sessions
  and datagrams, in the order of their acceptance, each with its newline; each accepted line
  passed validation, if that is enabled, and went to the backend its key hashes to.\<close>

lemma front_end_to_end:
  assumes "front_reaches delim accepts ls us (d0, n0) ((d, n), log)" "all_quiet d0" "s_backends d p = Some b"
  shows "sent_bytes (c_trace (bk_client b)) @ buffer_data (c_queue (bk_client b)) = stream_for p log \<and>
    (\<forall>(q, l) \<in> set log. entry_ok delim accepts d0 q l)"
proof -
  have run: "(relay_step delim)\<^sup>*\<^sup>* (d0, []) (d, log)"
    using front_reaches_inv [OF assms(1)] by (simp add: front_inv_def)
  have "serving delim accepts d0" using assms(1) by (simp add: front_reaches_def front_start_def)
  from relay_streams [OF this assms(2) run assms(3)] show ?thesis by blast
qed

text \<open>A client that connects, and one that sends a datagram.\<close>

definition example_input :: front_input where
  "example_input = \<lparr>fi_mem = True, fi_alloc = (\<lambda>_. Some []), fi_lines = (\<lambda>_. good_line_env),
     fi_recv = Recv_data ''a:1|c''\<rparr>"

lemma example_datagram: "datagram_fits (CHR '':'') example_input"
proof -
  have "udp_pieces ''a:1|c'' = [''a:1|c'']" by (simp add: udp_pieces_def)
  then show ?thesis using example_line(1) good_line_env_ok by (simp add: datagram_fits_def example_input_def envs_ok_def)
qed

lemma example_accept:
  assumes "serving delim accepts d" "l \<in> set ls" "relay_listeners ls us" "tl_sd l \<in> net_watch n" "7 \<notin> net_open n"
  shows "\<exists>c d'. stats_connection_cb example_input 7 d = (Some c, d') \<and> serving delim accepts d' \<and> front_step delim ls us ((d, n), log)
    ((d', n\<lparr>ts_next := Suc (ts_next n), net_open := insert 7 (net_open n),
       ts_heap := (ts_heap n)(ts_next n \<mapsto> \<lparr>ts_sd = 7, ts_cb_recv = Some stats_recv_cb, ts_ctx = Some c\<rparr>),
       net_watch := insert 7 (net_watch n)\<rparr>), log)"
proof -
  let ?e = "\<lparr>ac_error = False, ac_session = True, ac_watcher = True, ac_accept = 7, ac_nonblock = 0, ac_input = example_input\<rparr>"
  have fits: "conn_fits example_input" by (simp add: conn_fits_def example_input_def INITIAL_BUFFER_SIZE_def)
  obtain c d' where c: "stats_connection_cb example_input 7 d = (Some c, d')" "serving delim accepts d'"
    using front.conn_law [OF assms(1) fits] by blast
  let ?n = "n\<lparr>ts_next := Suc (ts_next n), net_open := insert 7 (net_open n),
    ts_heap := (ts_heap n)(ts_next n \<mapsto> \<lparr>ts_sd = 7, ts_cb_recv = Some stats_recv_cb, ts_ctx = Some c\<rparr>),
    net_watch := insert 7 (net_watch n)\<rparr>"
  have "tl_cb_conn l = stats_connection_cb" "tl_cb_recv l = Some stats_recv_cb"
    using assms(2,3) by (simp_all add: relay_listeners_def)
  then have "tcplistener_accept_callback ?e l d n = (d', ?n)"
    using c(1) by (simp add: tcplistener_accept_callback_def tcpsession_create_def watch_def Let_def)
  then have "front_step delim ls us ((d, n), log) ((d', ?n), log)"
    using assms(2,4,5) fits by (intro fs_accept [where l = l and e = ?e]) (simp_all add: accept_fresh_def)
  with c show ?thesis by blast
qed

text \<open>What the client may send next: a line.\<close>

definition example_read :: front_input where
  "example_read = example_input\<lparr>fi_recv := Recv_data (''a:1|c'' @ [NL])\<rparr>"

lemma example_read_fits:
  assumes "stats_connection_cb example_input sd d = (Some c, d')"
  shows "read_fits (CHR '':'') example_read c"
proof -
  obtain b where b: "buffer_init (\<lambda>_. Some []) unset_buffer = (0, b)" "buffer_data b = []" "buffer_spacecount b = 4096"
      "\<forall>A. recv_room A b = Some (0, b)"
    using fresh_session by blast
  have "ss_buffer c = b" using assms b(1) by (auto simp: stats_connection_cb_def stats_connection_def example_input_def)
  moreover have "split_lines (''a:1|c'' @ NL # []) = ([''a:1|c''], [])" by (subst split_lines_line) simp_all
  moreover have "session_envs_ok (\<lambda>_. good_line_env)"
    using good_line_env_ok by (simp add: session_envs_ok_def envs_ok_def good_line_env_def)
  ultimately show ?thesis using b(2-4) example_line(1) by (simp add: read_fits_def example_read_def example_input_def)
qed

text \<open>The servers' properties for these callbacks: the first of two addresses cannot be bound.\<close>

theorem tcpserver_bind_fills_table_witness:
  "\<exists>n'. tcpserver_bind True two_addrs (Some (''::1'' @ CHR '':'' # ''8125'')) stats_connection_cb stats_recv_cb
      \<lparr>t_listeners = []\<rparr> \<lparr>net_open = {}, net_watch = {}\<rparr> =
    Some (0, \<lparr>t_listeners = [tcp_made stats_connection_cb stats_recv_cb (good_addr 6)]\<rparr>, n') \<and> net_watch n' = {6}"
proof -
  have "filter tcp_listens [(good_addr 5)\<lparr>a_bind := -1\<rparr>, good_addr 6] = [good_addr 6]" "a_socket (good_addr 6) = 6"
      "filter tcp_listens [(good_addr 5)\<lparr>a_bind := -1\<rparr>] = []"
    by (simp_all add: tcp_listens_def a_ntop_iff good_addr_def)
  with tcpserver_bind_fills_table [where port = "''8125''" and resolve = two_addrs and host = "''::1''" and server = "\<lparr>t_listeners = []\<rparr>"
      and cb_conn = stats_connection_cb and cb_recv = stats_recv_cb and n = "\<lparr>net_open = {}, net_watch = {}\<rparr>", OF two_addrs]
  show ?thesis by simp
qed

end
