(* ===== verification/Server.thy ===== *)
theory Server
  imports Frontend
begin

text \<open>
  The servers of the process, \<open>src/src/server.c\<close>: one server per protocol, each a statistics server
  with a TCP and a UDP front end on the same address, and the collection of the two. A pointer to an
  object is the object; \<open>sv_left\<close> is a ghost that is set when the objects have been released, with
  what then remained of the heap of backends. The theory shows that a server that was connected is
  a start of the event loop of \<open>Frontend\<close>, so that its lines go to the backends of its
  configuration, and that the collection releases everything exactly once.
\<close>

section \<open>The operations\<close>

type_synonym stats_tcpserver = "(stats_session, stats_server, front_input) tcpserver"
type_synonym stats_udpserver = "(stats_server, front_input) udpserver"

record server =
  sv_enabled :: bool
  sv_server :: "stats_server option"
  sv_ts :: "stats_tcpserver option"
  sv_us :: "stats_udpserver option"
  sv_left :: "(nat \<Rightarrow> stats_backend option) option"

definition init_server :: server where
  "init_server = \<lparr>sv_enabled = False, sv_server = None, sv_ts = None, sv_us = None, sv_left = None\<rparr>"

text \<open>
  What the environment answers while a server is connected: the memory of the statistics server, of
  its ring and of its backends, the memory of the two front ends, their copies of the address and
  the resolver's lists of addresses.
\<close>

record server_env =
  se_mem :: bool
  se_ring :: allocator
  se_rings :: "nat \<Rightarrow> allocator"
  se_make :: "nat \<Rightarrow> make_env"
  se_tcp :: bool
  se_udp :: bool
  se_tcp_copy :: bool
  se_udp_copy :: bool
  se_tcp_addrs :: "bytes \<Rightarrow> bytes \<Rightarrow> addr_env list option"
  se_udp_addrs :: "bytes \<Rightarrow> bytes \<Rightarrow> addr_env list option"

text \<open>
  \<open>connect_server\<close>. The server is enabled before the statistics server is checked, and the
  front ends stay with it when a bind fails.
\<close>

definition connect_server ::
    "server_env \<Rightarrow> server \<Rightarrow> proto_config \<Rightarrow> protocol_parser \<Rightarrow> line_validator_fn \<Rightarrow> net \<Rightarrow>
     (bool \<times> server \<times> net) option" where
  "connect_server e server config parser validator n =
     do {
       ring \<leftarrow> pc_ring config;
       if l_size ring = 0 then Some (False, server, n)
       else do {
         ss \<leftarrow> stats_server_create (se_mem e) (se_ring e) (se_rings e) (se_make e) config parser (Some validator);
         let server1 = server\<lparr>sv_server := ss, sv_enabled := True\<rparr>;
         case ss of
           None \<Rightarrow> Some (False, server1, n)
         | Some _ \<Rightarrow>
             do {
               ts \<leftarrow> tcpserver_create (se_tcp e);
               us \<leftarrow> udpserver_create (se_udp e);
               (rc, ts', n1) \<leftarrow> tcpserver_bind (se_tcp_copy e) (se_tcp_addrs e) (pc_bind config)
                                  stats_connection_cb stats_recv_cb ts n;
               let server2 = server1\<lparr>sv_ts := Some ts', sv_us := Some us\<rparr>;
               if rc \<noteq> 0 then Some (False, server2, n1)
               else do {
                 (rc2, us', n2) \<leftarrow> udpserver_bind (se_udp_copy e) (se_udp_addrs e) (pc_bind config)
                                     stats_udp_recv_cb us n1;
                 Some (rc2 = 0, server2\<lparr>sv_us := Some us'\<rparr>, n2)
               }
             }
       }
     }"

text \<open>\<open>destroy_server\<close>; objects that are released already must not be released again.\<close>

definition destroy_server :: "server \<Rightarrow> 'a net_scheme \<Rightarrow> (server \<times> 'a net_scheme) option" where
  "destroy_server server n =
     (if \<not> sv_enabled server then Some (server, n)
      else if sv_left server \<noteq> None then None
      else
        (let n1 = (case sv_ts server of None \<Rightarrow> n | Some ts \<Rightarrow> tcpserver_destroy ts n);
             n2 = (case sv_us server of None \<Rightarrow> n1 | Some us \<Rightarrow> udpserver_destroy us n1)
         in case sv_server server of
              None \<Rightarrow> Some (server\<lparr>sv_left := Some Map.empty\<rparr>, n2)
            | Some ss \<Rightarrow> do { left \<leftarrow> stats_server_destroy ss; Some (server\<lparr>sv_left := Some left\<rparr>, n2) }))"

record server_collection =
  sc_initialized :: bool
  config_file :: "bytes option"
  carbon_server :: server
  statsd_server :: server

text \<open>\<open>init_server_collection\<close>; the copy of the file name is not checked.\<close>

definition init_server_collection :: "allocator \<Rightarrow> bytes \<Rightarrow> server_collection" where
  "init_server_collection S filename =
     \<lparr>sc_initialized = True, config_file = strdup S filename, carbon_server = init_server, statsd_server = init_server\<rparr>"

definition connect_server_collection ::
    "server_env \<Rightarrow> server_env \<Rightarrow> server_collection \<Rightarrow> config \<Rightarrow> net \<Rightarrow> (bool \<times> server_collection \<times> net) option" where
  "connect_server_collection ec es sc cfg n =
     do {
       (carbon_ok, carbon, n1) \<leftarrow> connect_server ec (carbon_server sc) (carbon_config cfg)
                                    protocol_parser_carbon validate_carbon n;
       (statsd_ok, statsd, n2) \<leftarrow> connect_server es (statsd_server sc) (statsd_config cfg)
                                    protocol_parser_statsd validate_statsd n1;
       Some (carbon_ok \<or> statsd_ok, sc\<lparr>carbon_server := carbon, statsd_server := statsd\<rparr>, n2)
     }"

definition destroy_server_collection ::
    "server_collection \<Rightarrow> 'a net_scheme \<Rightarrow> (server_collection \<times> 'a net_scheme) option" where
  "destroy_server_collection sc n =
     (if sc_initialized sc then
        do {
          (carbon, n1) \<leftarrow> destroy_server (carbon_server sc) n;
          (statsd, n2) \<leftarrow> destroy_server (statsd_server sc) n1;
          Some (sc\<lparr>carbon_server := carbon, statsd_server := statsd, sc_initialized := False\<rparr>, n2)
        }
      else Some (sc, n))"

section \<open>Connecting\<close>

text \<open>The connections of a server before the event loop runs.\<close>

definition no_sessions :: "net \<Rightarrow> stats_tcp_net" where
  "no_sessions n = \<lparr>net_open = net_open n, net_watch = net_watch n, ts_heap = Map.empty, ts_next = 0\<rparr>"

text \<open>The lines of the shards in the configuration of one protocol.\<close>

definition configured :: "proto_config \<Rightarrow> bytes list \<Rightarrow> bool" where
  "configured config ls \<longleftrightarrow>
     (\<exists>lines. pc_ring config = Some lines \<and> slist_wf lines \<and> slist_elems lines = map Some ls) \<and> length ls < 2 ^ 32"

lemma configured_empty: "configured config ls \<Longrightarrow> pc_ring config = Some ring \<Longrightarrow> l_size ring = 0 \<longleftrightarrow> ls = []"
  using length_slist_elems [of ring] by (auto simp: configured_def)

text \<open>An environment that the making of a backend can work with.\<close>

definition server_env_ok :: "server_env \<Rightarrow> bool" where
  "server_env_ok e \<longleftrightarrow> (\<forall>i. make_env_ok (se_make e i))"

text \<open>The parser and the validator of a protocol.\<close>

definition protocol :: "protocol_parser \<Rightarrow> line_validator_fn \<Rightarrow> char \<Rightarrow> (bytes \<Rightarrow> bool) \<Rightarrow> bool" where
  "protocol parser validator delim accepts \<longleftrightarrow>
     key_parser parser delim \<and> line_validator validator accepts \<and> delim \<notin> set status_line"

lemma protocols:
  "protocol protocol_parser_statsd validate_statsd (CHR '':'') statsd_line"
  "protocol protocol_parser_carbon validate_carbon (CHR '' '') carbon_line"
  using statsd_key.key_parser_axioms statsd_check.line_validator_axioms
    carbon_key.key_parser_axioms carbon_check.line_validator_axioms
  by (simp_all add: protocol_def status_line_def)

text \<open>The statistics server that a connection makes, in terms of the configured lines.\<close>

lemma created_server:
  assumes "server_env_ok e" "configured config ls" "protocol parser validator delim accepts" "ls \<noteq> []"
    and r: "stats_server_create (se_mem e) (se_ring e) (se_rings e) (se_make e) config parser (Some validator) = Some (Some d)"
  shows "serving delim accepts d" "all_quiet d" "s_config d = config"
    "length key < 2 ^ 32 \<Longrightarrow> \<exists>p b. target d key = Some p \<and> s_backends d p = Some b \<and>
       bk_key b = normal_key (ls ! shard_of (length ls) key)"
proof -
  from assms(2) obtain lines where l: "pc_ring config = Some lines" "slist_wf lines" "slist_elems lines = map Some ls"
      "ls \<noteq> []" "length ls < 2 ^ 32"
    using assms(4) by (auto simp: configured_def)
  have env: "\<forall>i. make_env_ok (se_make e i)" using assms(1) by (simp add: server_env_ok_def)
  have ne: "slist_elems lines \<noteq> []" using l by simp
  from stats_server_create_cases [OF env l(1,2) ne r] obtain ring where
    d: "server_inv d" "s_ring d = Some ring" "mb.represents (se_make e) d (slist_elems lines) ring"
      "same_setup (fresh_server config parser (Some validator)) d" "all_quiet d" .
  have all: "list_all2 (\<lambda>l p. key_of d p = Some (normal_key l)) ls (ring_shards ring)"
    using d(3) l(3) by (simp add: mb.represents_def list.rel_map)
  then have len: "length (ring_shards ring) = length ls" by (simp add: list_all2_lengthD)
  show "all_quiet d" by (rule d)
  show "s_config d = config" using d(4) by (simp add: same_setup_def fresh_server_def)
  show "serving delim accepts d"
    using d assms(3) l(5) len
    by (simp add: serving_def ring_small_def speaks_def same_setup_def fresh_server_def protocol_def)
  show "\<exists>p b. target d key = Some p \<and> s_backends d p = Some b \<and> bk_key b = normal_key (ls ! shard_of (length ls) key)"
    if "length key < 2 ^ 32"
  proof -
    have "shard_of (length ls) key < length ls" using that l(4,5) by (intro shard_of_less) simp_all
    from list_all2_nthD [OF all this] d(2) len l(4) show ?thesis
      by (auto simp: target_def key_of_def)
  qed
qed

text \<open>What the binds do, whether they succeed or not.\<close>

lemma tcpserver_bind_safe:
  assumes "tcpserver_bind copy_ok resolve addr cb_conn cb_recv ts n = Some (rc, ts', n')" "net_ok n" "t_listeners ts = []"
  shows "net_ok n' \<and> (\<forall>l \<in> set (t_listeners ts'). tl_cb_conn l = cb_conn \<and> tl_cb_recv l = Some cb_recv) \<and>
    net_watch n \<subseteq> net_watch n' \<and> tl_sd ` set (t_listeners ts') \<subseteq> net_watch n'"
proof -
  have "ts' = ts \<and> n' = n \<or>
      (\<exists>addrs. tcp_bind_all cb_conn cb_recv addrs [] n = Some (rc, t_listeners ts', n'))"
    using assms(1,3) by (auto simp: tcpserver_bind_def split: if_splits option.splits Option.bind_splits)
  with assms(2,3) tcp_table.bind_all_safe [of cb_conn cb_recv _ "[]" n rc _ n'] show ?thesis
    by (fastforce simp: tcp_made_def)
qed

lemma udpserver_bind_safe:
  assumes "udpserver_bind copy_ok resolve addr cb_recv us n = Some (rc, us', n')" "net_ok n" "u_listeners us = []"
  shows "net_ok n' \<and> (\<forall>l \<in> set (u_listeners us'). ul_cb_recv l = cb_recv) \<and>
    net_watch n \<subseteq> net_watch n' \<and> ul_sd ` set (u_listeners us') \<subseteq> net_watch n'"
proof -
  have "us' = us \<and> n' = n \<or>
      (\<exists>addrs. udp_bind_all cb_recv addrs [] n = Some (rc, u_listeners us', n'))"
    using assms(1,3) by (auto simp: udpserver_bind_def split: if_splits option.splits Option.bind_splits)
  with assms(2,3) udp_table.bind_all_safe [of cb_recv _ "[]" n rc _ n'] show ?thesis
    by (fastforce simp: udp_made_def)
qed

text \<open>The listeners of a server.\<close>

definition tcp_listeners :: "server \<Rightarrow> stats_tcplistener list" where
  "tcp_listeners sv = (case sv_ts sv of None \<Rightarrow> [] | Some ts \<Rightarrow> t_listeners ts)"

definition udp_listeners :: "server \<Rightarrow> stats_udplistener list" where
  "udp_listeners sv = (case sv_us sv of None \<Rightarrow> [] | Some us \<Rightarrow> u_listeners us)"

text \<open>What \<open>connect_server\<close> leaves behind, whether it succeeds or not.\<close>

lemma connect_server_cases:
  assumes "connect_server e init_server config parser validator n = Some (ok, sv, n')" "net_ok n"
  obtains (skipped) "\<not> ok" "sv = init_server" "n' = n"
  | (no_server) "\<not> ok" "sv = init_server\<lparr>sv_enabled := True\<rparr>" "n' = n"
  | (connected) d ring where "pc_ring config = Some ring" "l_size ring \<noteq> 0"
      "stats_server_create (se_mem e) (se_ring e) (se_rings e) (se_make e) config parser (Some validator) = Some (Some d)"
      "sv_enabled sv" "sv_server sv = Some d" "sv_left sv = None" "net_ok n'" "net_watch n \<subseteq> net_watch n'"
      "relay_listeners (tcp_listeners sv) (udp_listeners sv)"
      "tl_sd ` set (tcp_listeners sv) \<union> ul_sd ` set (udp_listeners sv) \<subseteq> net_watch n'"
proof -
  obtain ring where ring: "pc_ring config = Some ring"
    using assms(1) by (cases "pc_ring config") (auto simp: connect_server_def)
  show ?thesis
  proof (cases "l_size ring = 0")
    case True
    then show ?thesis using assms(1) ring skipped by (simp add: connect_server_def)
  next
    case False
    then obtain ss where
      ss: "stats_server_create (se_mem e) (se_ring e) (se_rings e) (se_make e) config parser (Some validator) = Some ss"
      using assms(1) ring by (auto simp: connect_server_def split: Option.bind_splits)
    show ?thesis
    proof (cases ss)
      case None
      then show ?thesis using assms(1) ring False ss no_server by (simp add: connect_server_def init_server_def)
    next
      case (Some d)
      then obtain ts us rc ts' n1 us' where
        new: "tcpserver_create (se_tcp e) = Some ts" "udpserver_create (se_udp e) = Some us" and
        b: "tcpserver_bind (se_tcp_copy e) (se_tcp_addrs e) (pc_bind config) stats_connection_cb stats_recv_cb ts n =
              Some (rc, ts', n1)" and
        sv: "sv = \<lparr>sv_enabled = True, sv_server = Some d, sv_ts = Some ts', sv_us = Some us', sv_left = None\<rparr>" and
        u: "us' = us \<and> n' = n1 \<or>
            (\<exists>rc2. udpserver_bind (se_udp_copy e) (se_udp_addrs e) (pc_bind config) stats_udp_recv_cb us n1 = Some (rc2, us', n'))"
        using assms(1) ring False ss
        by (auto simp: connect_server_def init_server_def Let_def split: Option.bind_splits if_splits)
      have nil: "t_listeners ts = []" "u_listeners us = []"
        using new by (auto simp: tcpserver_create_def udpserver_create_def split: if_splits)
      note t = tcpserver_bind_safe [OF b assms(2) nil(1)]
      from u t nil(2) have "net_ok n' \<and> (\<forall>l \<in> set (u_listeners us'). ul_cb_recv l = stats_udp_recv_cb) \<and>
          net_watch n1 \<subseteq> net_watch n' \<and> ul_sd ` set (u_listeners us') \<subseteq> net_watch n'"
        using udpserver_bind_safe [of "se_udp_copy e" "se_udp_addrs e" "pc_bind config" stats_udp_recv_cb us n1 _ us' n']
        by auto
      with t show ?thesis
        by (intro connected [of ring d]) (auto simp: ring False ss Some sv relay_listeners_def tcp_listeners_def udp_listeners_def)
    qed
  qed
qed

text \<open>A connected server is a start of its event loop.\<close>

lemma connected_front:
  assumes "server_env_ok e" "configured config ls" "protocol parser validator delim accepts" "net_ok n"
    and "connect_server e init_server config parser validator n = Some (ok, sv, n')" "sv_server sv = Some d"
  shows "front_reaches delim accepts (tcp_listeners sv) (udp_listeners sv) (d, no_sessions n') ((d, no_sessions n'), [])"
    "all_quiet d" "s_config d = config"
    "length key < 2 ^ 32 \<Longrightarrow> \<exists>p b. target d key = Some p \<and> s_backends d p = Some b \<and>
       bk_key b = normal_key (ls ! shard_of (length ls) key)"
proof -
  from assms(5,4) have c: "ls \<noteq> []" "stats_server_create (se_mem e) (se_ring e) (se_rings e) (se_make e) config parser (Some validator) =
      Some (Some d)" "net_ok n'" "relay_listeners (tcp_listeners sv) (udp_listeners sv)"
    by (cases rule: connect_server_cases; use assms(6) configured_empty [OF assms(2)] in \<open>simp add: init_server_def\<close>)+
  note d = created_server [OF assms(1-3) c(1,2)]
  show "all_quiet d" by (rule d)
  show "s_config d = config" by (rule d)
  show "\<exists>p b. target d key = Some p \<and> s_backends d p = Some b \<and> bk_key b = normal_key (ls ! shard_of (length ls) key)"
    if "length key < 2 ^ 32" by (rule d(4) [OF that])
  show "front_reaches delim accepts (tcp_listeners sv) (udp_listeners sv) (d, no_sessions n') ((d, no_sessions n'), [])"
    using c(3,4) d(1) assms(3)
    by (simp add: front_reaches_def front_start_def no_sessions_def net_ok_def protocol_def)
qed

section \<open>Releasing\<close>

text \<open>A server whose objects are there and in order.\<close>

definition server_ok :: "server \<Rightarrow> bool" where
  "server_ok sv \<longleftrightarrow> sv_left sv = None \<and> (\<forall>d. sv_server sv = Some d \<longrightarrow> server_inv d)"

lemma init_server_ok: "server_ok init_server"
  by (simp add: server_ok_def init_server_def)

lemma destroy_server_ok:
  assumes "server_ok sv"
  shows "\<exists>n'. destroy_server sv n = Some (if sv_enabled sv then sv\<lparr>sv_left := Some Map.empty\<rparr> else sv, n') \<and>
    net_open n' = net_open n \<and>
    net_watch n' = net_watch n - (if sv_enabled sv then tl_sd ` set (tcp_listeners sv) \<union> ul_sd ` set (udp_listeners sv) else {})"
  using assms stats_server_released
  by (auto simp: destroy_server_def server_ok_def Let_def tcpserver_destroy_def udpserver_destroy_def tcp_listeners_def
      udp_listeners_def destroy_listeners_watch destroy_udp_listeners_watch split: option.splits)

lemma connect_server_ok:
  assumes "server_env_ok e" "configured config ls" "protocol parser validator delim accepts" "net_ok n"
    and "connect_server e init_server config parser validator n = Some (ok, sv, n')"
  shows "server_ok sv \<and> net_ok n'"
  using assms(5,4)
proof (cases rule: connect_server_cases)
  case (connected d ring)
  from created_server(1) [OF assms(1-3) _ connected(3)] configured_empty [OF assms(2)] connected show ?thesis
    by (simp add: server_ok_def serving_def)
qed (use assms(4) in \<open>simp_all add: server_ok_def init_server_def\<close>)


section \<open>From the configured lines to the backends\<close>

text \<open>
  What a backend with a key is to be sent, given the configured shards and the lines that were
  accepted: the lines whose keys hash to a shard that is configured for this backend.
\<close>

definition home :: "char \<Rightarrow> bytes list \<Rightarrow> bytes \<Rightarrow> bytes option" where
  "home delim ls l = map_option (\<lambda>k. normal_key (ls ! shard_of (length ls) k)) (line_key delim l)"

definition routed :: "char \<Rightarrow> bytes list \<Rightarrow> bytes \<Rightarrow> bytes list \<Rightarrow> bytes" where
  "routed delim ls key lines = concat (map (\<lambda>l. l @ [NL]) (filter (\<lambda>l. home delim ls l = Some key) lines))"

lemma stream_routed:
  assumes "\<forall>(q, l) \<in> set log. q = p \<longleftrightarrow> home delim ls l = Some key"
  shows "stream_for p log = routed delim ls key (map snd log)"
  using assms by (induction log) (auto simp: stream_for_def routed_def)

lemma connected_streams:
  assumes conn: "server_env_ok e" "configured config ls" "protocol parser validator delim accepts" "net_ok n"
      "connect_server e init_server config parser validator n = Some (ok, sv, n')" "sv_server sv = Some d0"
    and run: "(relay_step delim)\<^sup>*\<^sup>* (d0, []) (d, log)" "s_backends d p = Some b"
  shows "sent_bytes (c_trace (bk_client b)) @ buffer_data (c_queue (bk_client b)) = routed delim ls (bk_key b) (map snd log) \<and>
    (\<forall>l \<in> set (map snd log). good_line delim l \<and> (enable_validation config \<longrightarrow> accepts l))"
proof -
  note front = connected_front [OF conn]
  have sv: "serving delim accepts d0" using front(1) by (simp add: front_reaches_def front_start_def)
  note streams = relay_streams [OF sv front(2) run]
  then obtain b0 where b0: "s_backends d0 p = Some b0" "bk_key b0 = bk_key b"
    using run(2) by (metis same_routes_def map_option_eq_Some option.simps(9))
  have "q = p \<longleftrightarrow> home delim ls l = Some (bk_key b)" if "(q, l) \<in> set log" for q l
  proof -
    from that streams obtain k where k: "good_line delim l" "line_key delim l = Some k" "target d0 k = Some q"
      unfolding entry_ok_def by blast
    from front(4) [OF good_key(2) [OF k(1,2)]] k(3) obtain c where c: "s_backends d0 q = Some c"
        "bk_key c = normal_key (ls ! shard_of (length ls) k)"
      by auto
    have "q = p \<longleftrightarrow> bk_key c = bk_key b"
      using sv b0 c(1) unfolding serving_def server_inv_def pool_ok_def by (metis option.inject)
    with c(2) k(2) show ?thesis by (simp add: home_def)
  qed
  then have "stream_for p log = routed delim ls (bk_key b) (map snd log)" by (intro stream_routed) auto
  with streams front(3) show ?thesis by (auto simp: entry_ok_def)
qed

text \<open>Releasing the collection of two servers.\<close>

lemma destroy_collection_releases:
  assumes "sc_initialized sc" "server_ok (carbon_server sc)" "server_ok (statsd_server sc)"
  shows "\<exists>sc' n'. destroy_server_collection sc n = Some (sc', n') \<and>
    (\<forall>sv \<in> {carbon_server sc', statsd_server sc'}. sv_enabled sv \<longrightarrow> sv_left sv = Some Map.empty) \<and>
    net_open n' = net_open n \<and>
    net_watch n' = net_watch n - (\<Union>sv \<in> {sv \<in> {carbon_server sc, statsd_server sc}. sv_enabled sv}.
      tl_sd ` set (tcp_listeners sv) \<union> ul_sd ` set (udp_listeners sv)) \<and>
    destroy_server_collection sc' n' = Some (sc', n')"
proof -
  obtain n1 where 1: "destroy_server (carbon_server sc) n =
      Some (if sv_enabled (carbon_server sc) then (carbon_server sc)\<lparr>sv_left := Some Map.empty\<rparr> else carbon_server sc, n1)"
      "net_open n1 = net_open n"
      "net_watch n1 = net_watch n - (if sv_enabled (carbon_server sc)
         then tl_sd ` set (tcp_listeners (carbon_server sc)) \<union> ul_sd ` set (udp_listeners (carbon_server sc)) else {})"
    using destroy_server_ok [OF assms(2), of n] by blast
  obtain n2 where 2: "destroy_server (statsd_server sc) n1 =
      Some (if sv_enabled (statsd_server sc) then (statsd_server sc)\<lparr>sv_left := Some Map.empty\<rparr> else statsd_server sc, n2)"
      "net_open n2 = net_open n1"
      "net_watch n2 = net_watch n1 - (if sv_enabled (statsd_server sc)
         then tl_sd ` set (tcp_listeners (statsd_server sc)) \<union> ul_sd ` set (udp_listeners (statsd_server sc)) else {})"
    using destroy_server_ok [OF assms(3), of n1] by blast
  have sets: "{sv \<in> {a, b}. P sv} = (if P a then {a} else {}) \<union> (if P b then {b} else {})" for P and a b :: server
    by auto
  show ?thesis using assms(1) 1 2 unfolding sets by (auto simp: destroy_server_collection_def)
qed

end
