(* ===== verification/Log.thy ===== *)
theory Log
  imports Prelude
begin

text \<open>
  Logging, \<open>src/src/log.c\<close>: the levels, the buffer in which a message is formatted and that grows by
  doubling, and the two outputs. What was written to the standard error and what was given to
  \<open>syslog\<close>, newest first, are kept as ghosts. A message is the text that its format and arguments
  stand for; the other theories leave the calls that log out, which change nothing there. The
  theory shows that the level decides what is logged, that formatting ends and leaves the buffer at
  its first size, and which messages are not safe to log.
\<close>

section \<open>Levels\<close>

datatype statsrelay_log_level = STATSRELAY_LOG_DEBUG | STATSRELAY_LOG_INFO | STATSRELAY_LOG_WARN | STATSRELAY_LOG_ERROR

fun level_value :: "statsrelay_log_level \<Rightarrow> nat" where
  "level_value STATSRELAY_LOG_DEBUG = 10"
| "level_value STATSRELAY_LOG_INFO = 20"
| "level_value STATSRELAY_LOG_WARN = 30"
| "level_value STATSRELAY_LOG_ERROR = 40"

lemma level_value_inject [simp]: "level_value a = level_value b \<longleftrightarrow> a = b"
  by (cases a; cases b) simp_all

lemma level_value_le: "level_value a \<le> 40"
  by (cases a) simp_all

text \<open>The levels are ordered by their values.\<close>

instantiation statsrelay_log_level :: linorder
begin

definition less_eq_statsrelay_log_level :: "statsrelay_log_level \<Rightarrow> statsrelay_log_level \<Rightarrow> bool" where
  "less_eq_statsrelay_log_level a b \<longleftrightarrow> level_value a \<le> level_value b"

definition less_statsrelay_log_level :: "statsrelay_log_level \<Rightarrow> statsrelay_log_level \<Rightarrow> bool" where
  "less_statsrelay_log_level a b \<longleftrightarrow> level_value a < level_value b"

instance
  by standard (auto simp: less_eq_statsrelay_log_level_def less_statsrelay_log_level_def)

end

section \<open>The state\<close>

definition STATSRELAY_LOG_BUF_SIZE :: nat where "STATSRELAY_LOG_BUF_SIZE = 256"
definition INT_MAX :: nat where "INT_MAX = 2147483647"

text \<open>
  \<open>g_level\<close> is nothing until it is first set: it is then zero, below all levels.
\<close>

record log_state =
  g_verbose :: bool
  g_level :: "statsrelay_log_level option"
  fmt_buf_size :: nat
  fmt_buf :: mblock
  log_stderr :: bytes
  log_syslog :: "bytes list"

definition log_start :: log_state where
  "log_start = \<lparr>g_verbose = False, g_level = None, fmt_buf_size = 0, fmt_buf = NullPtr, log_stderr = [], log_syslog = []\<rparr>"

definition stats_log_verbose :: "bool \<Rightarrow> log_state \<Rightarrow> log_state" where
  "stats_log_verbose verbose st = st\<lparr>g_verbose := verbose\<rparr>"

definition stats_set_log_level :: "statsrelay_log_level \<Rightarrow> log_state \<Rightarrow> log_state" where
  "stats_set_log_level level st = st\<lparr>g_level := Some level\<rparr>"

definition stats_log_end :: "log_state \<Rightarrow> log_state option" where
  "stats_log_end st = do { _ \<leftarrow> mfree (fmt_buf st); Some (st\<lparr>fmt_buf := NullPtr, fmt_buf_size := 0\<rparr>) }"

section \<open>Formatting and writing a message\<close>

text \<open>
  A message: its text, or nothing when \<open>vsnprintf\<close> reports an output error, and whether formatting
  reads arguments.
\<close>

record log_message =
  lm_text :: "bytes option"
  lm_args :: bool

text \<open>
  The environment: memory for the first buffer, for each growth and for the last shrinking, and how
  many bytes each \<open>fwrite\<close> takes.
\<close>

record log_env =
  le_first :: allocator
  le_grow :: "nat \<Rightarrow> allocator"
  le_shrink :: allocator
  le_writes :: "nat \<Rightarrow> nat"

datatype fmt_result = Fmt_error | Fmt_len nat | Fmt_no_memory

text \<open>
  The loop around \<open>vsnprintf\<close>. The argument list is used again on every pass although the first one
  has consumed it, which is undefined when there are arguments. So is doubling the size beyond the
  range of \<open>int\<close>.
\<close>

partial_function (option) format_loop ::
    "(nat \<Rightarrow> allocator) \<Rightarrow> nat \<Rightarrow> log_message \<Rightarrow> log_state \<Rightarrow> (fmt_result \<times> log_state) option" where
  "format_loop As k m st =
     (if 0 < k \<and> lm_args m then None
      else case lm_text m of
        None \<Rightarrow> Some (Fmt_error, st)
      | Some text \<Rightarrow>
          if INT_MAX < length text then Some (Fmt_error, st)
          else do {
            buf \<leftarrow> (if fmt_buf_size st = 0 then Some (fmt_buf st)
                    else mstore (fmt_buf st) 0 (take (fmt_buf_size st - 1) text @ [NUL]));
            let st1 = st\<lparr>fmt_buf := buf\<rparr>;
            if length text < fmt_buf_size st then Some (Fmt_len (length text), st1)
            else if INT_MAX < fmt_buf_size st * 2 then None
            else do {
              np \<leftarrow> mrealloc (As k) buf (fmt_buf_size st * 2);
              (if np = NullPtr then Some (Fmt_no_memory, st1\<lparr>fmt_buf_size := fmt_buf_size st * 2\<rparr>)
               else format_loop As (Suc k) m (st1\<lparr>fmt_buf_size := fmt_buf_size st * 2, fmt_buf := np\<rparr>))
            }
          })"

text \<open>The loop that writes to the standard error: it gives up when nothing is taken.\<close>

function write_stderr :: "(nat \<Rightarrow> nat) \<Rightarrow> nat \<Rightarrow> bytes \<Rightarrow> bytes" where
  "write_stderr writes k rest =
     (let bw = min (writes k) (length rest)
      in if bw = 0 then [] else take bw rest @ write_stderr writes (Suc k) (drop bw rest))"
  by pat_completeness auto
termination
  by (relation "measure (\<lambda>(writes, k, rest). length rest)") auto

declare write_stderr.simps [simp del]

text \<open>
  \<open>syslog(LOG_INFO, fmt_buf, fmt_len)\<close> takes the message as a format with one integer argument. The
  other conversions are outside the model; all but \<open>%m\<close> read an argument that is not there.
\<close>

fun syslog_format :: "int option \<Rightarrow> bytes \<Rightarrow> bytes option" where
  "syslog_format arg [] = Some []"
| "syslog_format arg (c # cs) =
     (if c \<noteq> CHR ''%'' then map_option ((#) c) (syslog_format arg cs)
      else case cs of
        [] \<Rightarrow> None
      | d # ds \<Rightarrow>
          if d = CHR ''%'' then map_option ((#) d) (syslog_format arg ds)
          else if d = CHR ''d'' then
            (case arg of None \<Rightarrow> None | Some n \<Rightarrow> map_option ((@) (decimal_int n)) (syslog_format None ds))
          else None)"

text \<open>The part of \<open>stats_vlog\<close> after the message has been formatted.\<close>

definition log_output :: "(nat \<Rightarrow> nat) \<Rightarrow> bytes option \<Rightarrow> nat \<Rightarrow> log_state \<Rightarrow> log_state option" where
  "log_output writes prefix fmt_len st =
     do {
       text \<leftarrow> mload (fmt_buf st) 0 fmt_len;
       let st1 =
         (if g_verbose st then
            (let pre = (case prefix of None \<Rightarrow> [] | Some p \<Rightarrow> p);
                 written = write_stderr writes 0 text;
                 nl = (if fmt_len \<le> length written then [NL] else [])
             in st\<lparr>log_stderr := log_stderr st @ pre @ written @ nl\<rparr>)
          else st);
       (case fmt_buf st of
          Block m \<Rightarrow> do { out \<leftarrow> syslog_format (Some (int fmt_len)) (c_str m); Some (st1\<lparr>log_syslog := out # log_syslog st1\<rparr>) }
        | _ \<Rightarrow> None)
     }"

text \<open>\<open>stats_vlog\<close> once there is a buffer.\<close>

definition vlog_message :: "log_env \<Rightarrow> bytes option \<Rightarrow> log_message \<Rightarrow> log_state \<Rightarrow> log_state option" where
  "vlog_message e prefix m st =
     do {
       (r, st1) \<leftarrow> format_loop (le_grow e) 0 m st;
       case r of
         Fmt_error \<Rightarrow> Some st1
       | Fmt_no_memory \<Rightarrow> stats_log_end st1
       | Fmt_len fmt_len \<Rightarrow>
           do {
             st2 \<leftarrow> log_output (le_writes e) prefix fmt_len st1;
             if STATSRELAY_LOG_BUF_SIZE < fmt_buf_size st2 then
               do {
                 np \<leftarrow> mrealloc (le_shrink e) (fmt_buf st2) STATSRELAY_LOG_BUF_SIZE;
                 if np = NullPtr then stats_log_end st2
                 else Some (st2\<lparr>fmt_buf := np, fmt_buf_size := STATSRELAY_LOG_BUF_SIZE\<rparr>)
               }
             else Some st2
           }
     }"

definition stats_vlog :: "log_env \<Rightarrow> bytes option \<Rightarrow> log_message \<Rightarrow> log_state \<Rightarrow> log_state option" where
  "stats_vlog e prefix m st =
     (if fmt_buf st = NullPtr then
        (case malloc (le_first e) STATSRELAY_LOG_BUF_SIZE of
           None \<Rightarrow> stats_log_end st
         | Some b \<Rightarrow> vlog_message e prefix m (st\<lparr>fmt_buf := Block b, fmt_buf_size := STATSRELAY_LOG_BUF_SIZE\<rparr>))
      else vlog_message e prefix m st)"

definition level_enabled :: "statsrelay_log_level \<Rightarrow> log_state \<Rightarrow> bool" where
  "level_enabled level st = (case g_level st of None \<Rightarrow> True | Some g \<Rightarrow> g \<le> level)"

definition stats_debug_log :: "log_env \<Rightarrow> log_message \<Rightarrow> log_state \<Rightarrow> log_state option" where
  "stats_debug_log e m st =
     (if level_enabled STATSRELAY_LOG_DEBUG st then stats_vlog e (Some ''DEBUG: '') m st else Some st)"

definition stats_log :: "log_env \<Rightarrow> log_message \<Rightarrow> log_state \<Rightarrow> log_state option" where
  "stats_log e m st = (if level_enabled STATSRELAY_LOG_INFO st then stats_vlog e None m st else Some st)"

definition stats_error_log :: "log_env \<Rightarrow> log_message \<Rightarrow> log_state \<Rightarrow> log_state option" where
  "stats_error_log e m st =
     (if level_enabled STATSRELAY_LOG_ERROR st then
        do {
          st1 \<leftarrow> stats_vlog e (Some ''ERROR: '') m (st\<lparr>g_verbose := True\<rparr>);
          Some (st1\<lparr>g_verbose := g_verbose st\<rparr>)
        }
      else Some st)"


section \<open>Formatting ends\<close>

text \<open>Between two messages the buffer is absent or has its first size.\<close>

definition log_ok :: "log_state \<Rightarrow> bool" where
  "log_ok st \<longleftrightarrow>
     fmt_buf st = NullPtr \<and> fmt_buf_size st = 0 \<or>
     (\<exists>b. fmt_buf st = Block b \<and> length b = STATSRELAY_LOG_BUF_SIZE \<and> fmt_buf_size st = STATSRELAY_LOG_BUF_SIZE)"

text \<open>The messages that can be logged: formatting a long one must not read arguments.\<close>

definition loggable :: "log_message \<Rightarrow> bytes \<Rightarrow> bool" where
  "loggable m text \<longleftrightarrow>
     lm_text m = Some text \<and> length text < 2 ^ 30 \<and> NUL \<notin> set text \<and> CHR ''%'' \<notin> set text \<and>
     (STATSRELAY_LOG_BUF_SIZE \<le> length text \<longrightarrow> \<not> lm_args m)"

definition generous :: "log_env \<Rightarrow> bool" where
  "generous e \<longleftrightarrow>
     (\<forall>n < 2 ^ 31. malloc (le_first e) n \<noteq> None \<and> (\<forall>k. malloc (le_grow e k) n \<noteq> None) \<and> malloc (le_shrink e) n \<noteq> None)"

text \<open>The loop ends: each pass doubles the buffer.\<close>

definition formatted :: "bytes \<Rightarrow> log_state \<Rightarrow> log_state \<Rightarrow> bool" where
  "formatted text st st' \<longleftrightarrow>
     (\<exists>b. fmt_buf st' = Block (text @ NUL # b) \<and> length (text @ NUL # b) = fmt_buf_size st' \<and>
          fmt_buf_size st \<le> fmt_buf_size st' \<and>
          st' = st\<lparr>fmt_buf := fmt_buf st', fmt_buf_size := fmt_buf_size st'\<rparr>)"

lemma format_loop_ends:
  assumes "fmt_buf st = Block b" "length b = fmt_buf_size st" "0 < fmt_buf_size st"
    and "lm_text m = Some text" "length text < 2 ^ 30" "0 < k \<or> fmt_buf_size st \<le> length text \<longrightarrow> \<not> lm_args m"
  shows "(\<exists>st'. format_loop As k m st = Some (Fmt_len (length text), st') \<and> formatted text st st') \<or>
    (\<exists>st' b'. format_loop As k m st = Some (Fmt_no_memory, st') \<and> fmt_buf st' = Block b' \<and>
       st' = st\<lparr>fmt_buf := fmt_buf st', fmt_buf_size := fmt_buf_size st'\<rparr> \<and> (\<exists>k n. n < 2 ^ 31 \<and> malloc (As k) n = None))"
  using assms
proof (induction "2 ^ 30 - fmt_buf_size st" arbitrary: st b k rule: less_induct)
  case less
  let ?s = "fmt_buf_size st"
  have int: "\<not> INT_MAX < length text" using less.prems(5) by (simp add: INT_MAX_def)
  have store: "mstore (fmt_buf st) 0 (take (?s - 1) text @ [NUL]) =
      Some (Block (take (?s - 1) text @ NUL # drop (Suc (min (length text) (?s - 1))) b))"
    using less.prems(1-3) by (auto simp: mstore_def min_def)
  show ?case
  proof (cases "length text < ?s")
    case True
    let ?b = "text @ NUL # drop (Suc (length text)) b"
    have "take (?s - 1) text = text" "min (length text) (?s - 1) = length text" using True by simp_all
    then have "format_loop As k m st = Some (Fmt_len (length text), st\<lparr>fmt_buf := Block ?b\<rparr>)"
      using less.prems store True int by (subst format_loop.simps) auto
    then show ?thesis using True less.prems(2) by (auto simp: formatted_def)
  next
    case False
    let ?b = "take (?s - 1) text @ NUL # drop (Suc (min (length text) (?s - 1))) b"
    have small: "?s * 2 < 2 ^ 31" "\<not> INT_MAX < ?s * 2" "\<not> lm_args m" using False less.prems(5,6) by (simp_all add: INT_MAX_def)
    from mrealloc_Block [of "As k" ?b "?s * 2"] show ?thesis
    proof (elim disjE exE conjE)
      assume no: "mrealloc (As k) (Block ?b) (?s * 2) = Some NullPtr" "malloc (As k) (?s * 2) = None"
      have "format_loop As k m st = Some (Fmt_no_memory, st\<lparr>fmt_buf := Block ?b, fmt_buf_size := ?s * 2\<rparr>)"
        using less.prems store False int small no by (subst format_loop.simps) auto
      moreover have "\<exists>k n. n < 2 ^ 31 \<and> malloc (As k) n = None" using no(2) small(1) by blast
      ultimately show ?thesis by simp
    next
      fix b' assume b': "mrealloc (As k) (Block ?b) (?s * 2) = Some (Block b')" "length b' = ?s * 2"
      let ?st = "st\<lparr>fmt_buf_size := ?s * 2, fmt_buf := Block b'\<rparr>"
      have eq: "format_loop As k m st = format_loop As (Suc k) m ?st"
        using less.prems store False int small b' by (subst format_loop.simps) auto
      have "2 ^ 30 - fmt_buf_size ?st < 2 ^ 30 - ?s" using False less.prems(3,5) by simp
      from less.hyps [OF this, of b' "Suc k"] b' less.prems small eq show ?thesis
        by (auto simp: formatted_def)
    qed
  qed
qed


section \<open>Writing\<close>

lemma write_stderr_all: "(\<And>k. length t \<le> writes k) \<Longrightarrow> write_stderr writes k t = t"
  by (subst write_stderr.simps, cases "t = []") (simp_all add: Let_def write_stderr.simps [of _ _ "[]"])

lemma syslog_format_plain: "CHR ''%'' \<notin> set t \<Longrightarrow> syslog_format arg t = Some t"
  by (induction t) auto

text \<open>What a message adds to the outputs.\<close>

definition logs_text :: "log_env \<Rightarrow> bytes option \<Rightarrow> bytes \<Rightarrow> log_state \<Rightarrow> log_state \<Rightarrow> bool" where
  "logs_text e prefix text st st' \<longleftrightarrow>
     log_syslog st' = text # log_syslog st \<and>
     ((\<forall>k. length text \<le> le_writes e k) \<longrightarrow>
      log_stderr st' = log_stderr st @ (if g_verbose st then (case prefix of None \<Rightarrow> [] | Some p \<Rightarrow> p) @ text @ [NL] else []))"

lemma log_output_text:
  assumes "fmt_buf st = Block (t @ NUL # b)" "NUL \<notin> set t" "CHR ''%'' \<notin> set t"
  shows "\<exists>st'. log_output (le_writes e) prefix (length t) st = Some st' \<and> logs_text e prefix t st st' \<and>
    st' = st\<lparr>log_stderr := log_stderr st', log_syslog := log_syslog st'\<rparr>"
  using assms write_stderr_all [of t "le_writes e"]
  by (cases "g_verbose st") (auto simp: log_output_def logs_text_def syslog_format_plain Let_def)

text \<open>The state after a message: only the outputs have changed, and the buffer is in order.\<close>

definition log_kept :: "log_state \<Rightarrow> log_state \<Rightarrow> bool" where
  "log_kept st st' \<longleftrightarrow> log_ok st' \<and> g_verbose st' = g_verbose st \<and> g_level st' = g_level st"

text \<open>After the first allocation, both ways into the loop are the same.\<close>

lemma stats_vlog_buffer:
  assumes "log_ok st"
  obtains (refused) "fmt_buf st = NullPtr" "fmt_buf_size st = 0" "malloc (le_first e) STATSRELAY_LOG_BUF_SIZE = None"
  | (buffer) b where "length b = STATSRELAY_LOG_BUF_SIZE"
      "stats_vlog e prefix m st = vlog_message e prefix m (st\<lparr>fmt_buf := Block b, fmt_buf_size := STATSRELAY_LOG_BUF_SIZE\<rparr>)"
proof (cases "fmt_buf st = NullPtr")
  case True
  then have "fmt_buf_size st = 0" using assms by (auto simp: log_ok_def)
  with True refused show ?thesis
  proof (cases "malloc (le_first e) STATSRELAY_LOG_BUF_SIZE")
    case (Some c)
    with malloc_SomeD [OF Some] True show ?thesis by (intro buffer [of c]) (simp_all add: stats_vlog_def)
  qed
next
  case False
  with assms obtain c where c: "fmt_buf st = Block c" "length c = STATSRELAY_LOG_BUF_SIZE"
      "fmt_buf_size st = STATSRELAY_LOG_BUF_SIZE"
    by (auto simp: log_ok_def)
  then have same: "st\<lparr>fmt_buf := Block c, fmt_buf_size := STATSRELAY_LOG_BUF_SIZE\<rparr> = st" by simp
  with c show ?thesis by (intro buffer [of c]) (simp_all only: same, simp add: stats_vlog_def)
qed

lemma vlog_message_ends:
  assumes b: "length b = STATSRELAY_LOG_BUF_SIZE" and m: "loggable m t"
    and st0: "st0 = st\<lparr>fmt_buf := Block b, fmt_buf_size := STATSRELAY_LOG_BUF_SIZE\<rparr>"
  shows "\<exists>st'. vlog_message e prefix m st0 = Some st' \<and> log_kept st st' \<and> (generous e \<longrightarrow> logs_text e prefix t st st')"
proof -
  have "(\<exists>st'. format_loop (le_grow e) 0 m st0 = Some (Fmt_len (length t), st') \<and> formatted t st0 st') \<or>
    (\<exists>st' b'. format_loop (le_grow e) 0 m st0 = Some (Fmt_no_memory, st') \<and> fmt_buf st' = Block b' \<and>
       st' = st0\<lparr>fmt_buf := fmt_buf st', fmt_buf_size := fmt_buf_size st'\<rparr> \<and> (\<exists>k n. n < 2 ^ 31 \<and> malloc (le_grow e k) n = None))"
    using m b by (intro format_loop_ends [where b = b]) (auto simp: st0 loggable_def STATSRELAY_LOG_BUF_SIZE_def)
  then show ?thesis
  proof (elim disjE exE conjE)
    fix st1 b' k n
    assume r: "format_loop (le_grow e) 0 m st0 = Some (Fmt_no_memory, st1)" "fmt_buf st1 = Block b'"
      "st1 = st0\<lparr>fmt_buf := fmt_buf st1, fmt_buf_size := fmt_buf_size st1\<rparr>" "n < 2 ^ 31" "malloc (le_grow e k) n = None"
    have "\<not> generous e" using r(4,5) by (auto simp: generous_def)
    moreover have "g_verbose st1 = g_verbose st \<and> g_level st1 = g_level st" by (subst (1 2) r(3)) (simp add: st0)
    ultimately show ?thesis using r(1,2) by (simp add: vlog_message_def stats_log_end_def log_kept_def log_ok_def)
  next
    fix st1
    assume r: "format_loop (le_grow e) 0 m st0 = Some (Fmt_len (length t), st1)" "formatted t st0 st1"
    then obtain c where c: "fmt_buf st1 = Block (t @ NUL # c)" "length (t @ NUL # c) = fmt_buf_size st1"
        "STATSRELAY_LOG_BUF_SIZE \<le> fmt_buf_size st1" and
        same: "st1 = st0\<lparr>fmt_buf := fmt_buf st1, fmt_buf_size := fmt_buf_size st1\<rparr>"
      by (auto simp: formatted_def st0)
    have f: "g_verbose st1 = g_verbose st \<and> g_level st1 = g_level st \<and> log_stderr st1 = log_stderr st \<and> log_syslog st1 = log_syslog st"
      by (subst (1 2 3 4) same) (simp add: st0)
    obtain st2 where out: "log_output (le_writes e) prefix (length t) st1 = Some st2" "logs_text e prefix t st1 st2"
        "st2 = st1\<lparr>log_stderr := log_stderr st2, log_syslog := log_syslog st2\<rparr>"
      using log_output_text [OF c(1), of e prefix] m by (auto simp: loggable_def)
    have g: "fmt_buf st2 = fmt_buf st1 \<and> fmt_buf_size st2 = fmt_buf_size st1 \<and> g_verbose st2 = g_verbose st1 \<and> g_level st2 = g_level st1"
      by (subst (1 2 3 4) out(3)) simp
    have logs: "logs_text e prefix t st st2" using out(2) f by (simp add: logs_text_def)
    from mrealloc_Block [of "le_shrink e" "t @ NUL # c" STATSRELAY_LOG_BUF_SIZE] r(1) out(1) logs c f g
    show ?thesis
      by (auto simp: vlog_message_def stats_log_end_def log_kept_def log_ok_def logs_text_def)
  qed
qed

lemma stats_vlog_ends:
  assumes "log_ok st" "loggable m t"
  shows "\<exists>st'. stats_vlog e prefix m st = Some st' \<and> log_kept st st' \<and> (generous e \<longrightarrow> logs_text e prefix t st st')"
  using assms(1)
proof (cases rule: stats_vlog_buffer [where e = e and prefix = prefix and m = m])
  case refused
  have "STATSRELAY_LOG_BUF_SIZE < 2 ^ 31" by (simp add: STATSRELAY_LOG_BUF_SIZE_def)
  with refused have "\<not> generous e" by (auto simp only: generous_def)
  with refused show ?thesis by (simp add: stats_vlog_def stats_log_end_def log_kept_def log_ok_def)
next
  case (buffer b)
  from vlog_message_ends [OF buffer(1) assms(2) refl, of e prefix st] buffer(2) show ?thesis by simp
qed


section \<open>Unsafe messages\<close>

lemma format_loop_fits:
  assumes "length b = STATSRELAY_LOG_BUF_SIZE" "lm_text m = Some t" "length t < STATSRELAY_LOG_BUF_SIZE"
  shows "\<exists>b'. format_loop As 0 m (st\<lparr>fmt_buf := Block b, fmt_buf_size := STATSRELAY_LOG_BUF_SIZE\<rparr>) =
    Some (Fmt_len (length t), st\<lparr>fmt_buf_size := STATSRELAY_LOG_BUF_SIZE, fmt_buf := Block (t @ NUL # b')\<rparr>)"
proof -
  have "take (STATSRELAY_LOG_BUF_SIZE - 1) t = t" "min (length t) (STATSRELAY_LOG_BUF_SIZE - 1) = length t"
    using assms(3) by simp_all
  with assms show ?thesis
    by (subst format_loop.simps) (auto simp: STATSRELAY_LOG_BUF_SIZE_def INT_MAX_def)
qed

lemma format_loop_reuses:
  assumes "generous e" "lm_text m = Some t" "length t < 2 ^ 30" "STATSRELAY_LOG_BUF_SIZE \<le> length t" "lm_args m"
    and "length b = STATSRELAY_LOG_BUF_SIZE"
  shows "format_loop (le_grow e) 0 m (st\<lparr>fmt_buf := Block b, fmt_buf_size := STATSRELAY_LOG_BUF_SIZE\<rparr>) = None"
proof -
  have "STATSRELAY_LOG_BUF_SIZE * 2 < 2 ^ 31" by (simp add: STATSRELAY_LOG_BUF_SIZE_def)
  with assms(1) have grow: "malloc (le_grow e 0) (STATSRELAY_LOG_BUF_SIZE * 2) \<noteq> None" by (simp only: generous_def) blast
  let ?b = "take (STATSRELAY_LOG_BUF_SIZE - 1) t @ [NUL]"
  obtain b' where b': "mrealloc (le_grow e 0) (Block ?b) (STATSRELAY_LOG_BUF_SIZE * 2) = Some (Block b')"
    using mrealloc_Block [of "le_grow e 0" ?b "STATSRELAY_LOG_BUF_SIZE * 2"] grow by blast
  have store: "mstore (Block b) 0 ?b = Some (Block ?b)"
    using assms(4,6) by (simp add: mstore_def STATSRELAY_LOG_BUF_SIZE_def)
  have again: "format_loop (le_grow e) (Suc 0) m st' = None" for st'
    using assms(5) by (subst format_loop.simps) simp
  have lim: "\<not> INT_MAX < length t" "\<not> length t < STATSRELAY_LOG_BUF_SIZE" "\<not> INT_MAX < STATSRELAY_LOG_BUF_SIZE * 2"
      "STATSRELAY_LOG_BUF_SIZE \<noteq> 0"
    using assms(3,4) by (simp_all add: INT_MAX_def STATSRELAY_LOG_BUF_SIZE_def)
  show ?thesis
    using assms(2) store b' again lim by (subst format_loop.simps) simp
qed

lemma syslog_format_stray:
  "CHR ''%'' \<notin> set pre \<Longrightarrow> syslog_format arg (pre @ CHR ''%'' # CHR ''s'' # post) = None"
  by (induction pre) auto

section \<open>Properties\<close>


text \<open>An error is always seen: at every level, verbose or not, \<open>stats_error_log\<close> sends the message to
  \<open>syslog\<close> and to the standard error, and afterwards the log is as verbose as before.\<close>

lemma stats_error_log_visible:
  assumes "log_ok st" "loggable m t" "generous e" "\<forall>k. length t \<le> le_writes e k"
  shows "\<exists>st'. stats_error_log e m st = Some st' \<and> log_ok st' \<and> g_verbose st' = g_verbose st \<and> g_level st' = g_level st \<and>
    log_syslog st' = t # log_syslog st \<and> log_stderr st' = log_stderr st @ ''ERROR: '' @ t @ [NL]"
proof -
  let ?st = "st\<lparr>g_verbose := True\<rparr>"
  have ok: "log_ok ?st" using assms(1) by (simp add: log_ok_def)
  have "level_enabled STATSRELAY_LOG_ERROR st"
    by (simp add: level_enabled_def less_eq_statsrelay_log_level_def level_value_le split: option.split)
  moreover obtain st' where "stats_vlog e (Some ''ERROR: '') m ?st = Some st'" "log_kept ?st st'"
      "logs_text e (Some ''ERROR: '') t ?st st'"
    using stats_vlog_ends [OF ok assms(2), of e "Some ''ERROR: ''"] assms(3) by blast
  ultimately show ?thesis using assms(4)
    by (simp add: stats_error_log_def log_kept_def logs_text_def log_ok_def)
qed

text \<open>C38: two kinds of messages are not safe to log. Formatting a message of 256 bytes or more again in a
  larger buffer uses an argument list that has been consumed; and a message with a conversion such
  as \<open>%s\<close>, which may have come from a client, is used as a format itself. Both are undefined.\<close>

theorem stats_vlog_unsafe_messages:
  assumes "log_ok st" "generous e" "lm_text m = Some t" "length t < 2 ^ 30"
  shows "(STATSRELAY_LOG_BUF_SIZE \<le> length t \<and> lm_args m \<longrightarrow> stats_vlog e prefix m st = None) \<and>
    (length t < STATSRELAY_LOG_BUF_SIZE \<and> NUL \<notin> set t \<and> CHR ''%'' \<notin> set pre \<and> t = pre @ CHR ''%'' # CHR ''s'' # post \<longrightarrow>
      stats_vlog e prefix m st = None)"
proof -
  from assms(1) obtain b where b: "length b = STATSRELAY_LOG_BUF_SIZE"
      "stats_vlog e prefix m st = vlog_message e prefix m (st\<lparr>fmt_buf := Block b, fmt_buf_size := STATSRELAY_LOG_BUF_SIZE\<rparr>)"
  proof (cases rule: stats_vlog_buffer [where e = e and prefix = prefix and m = m])
    case refused
    have "STATSRELAY_LOG_BUF_SIZE < 2 ^ 31" by (simp add: STATSRELAY_LOG_BUF_SIZE_def)
    with assms(2) refused(3) show ?thesis by (auto simp only: generous_def)
  qed
  have "vlog_message e prefix m (st\<lparr>fmt_buf := Block b, fmt_buf_size := STATSRELAY_LOG_BUF_SIZE\<rparr>) = None"
    if "STATSRELAY_LOG_BUF_SIZE \<le> length t" "lm_args m"
    using format_loop_reuses [OF assms(2-4) that b(1)] by (simp add: vlog_message_def)
  moreover have "vlog_message e prefix m (st\<lparr>fmt_buf := Block b, fmt_buf_size := STATSRELAY_LOG_BUF_SIZE\<rparr>) = None"
    if t: "length t < STATSRELAY_LOG_BUF_SIZE" "NUL \<notin> set t" "CHR ''%'' \<notin> set pre" "t = pre @ CHR ''%'' # CHR ''s'' # post"
  proof -
    have "syslog_format arg t = None" for arg unfolding t(4) using t(3) by (rule syslog_format_stray)
    moreover obtain b' where "format_loop (le_grow e) 0 m (st\<lparr>fmt_buf := Block b, fmt_buf_size := STATSRELAY_LOG_BUF_SIZE\<rparr>) =
        Some (Fmt_len (length t), st\<lparr>fmt_buf_size := STATSRELAY_LOG_BUF_SIZE, fmt_buf := Block (t @ NUL # b')\<rparr>)"
      using format_loop_fits [OF b(1) assms(3) t(1)] by blast
    ultimately show ?thesis using t(2)
      by (simp add: vlog_message_def log_output_def Let_def)
  qed
  ultimately show ?thesis using b(2) by metis
qed

text \<open>A first message that fits, an error, and a long message with arguments.\<close>

definition good_log_env :: log_env where
  "good_log_env = \<lparr>le_first = (\<lambda>_. Some []), le_grow = (\<lambda>_ _. Some []), le_shrink = (\<lambda>_. Some []), le_writes = (\<lambda>_. 100)\<rparr>"

lemma good_log_env: "generous good_log_env" "log_ok log_start" "le_writes good_log_env k = 100"
  by (simp_all add: generous_def good_log_env_def log_ok_def log_start_def)

definition hello :: log_message where
  "hello = \<lparr>lm_text = Some ''hello'', lm_args = True\<rparr>"

lemma hello: "loggable hello ''hello''"
  by (simp add: loggable_def hello_def STATSRELAY_LOG_BUF_SIZE_def)


theorem stats_vlog_unsafe_messages_witness:
  "stats_vlog good_log_env None \<lparr>lm_text = Some (replicate 300 CHR ''x''), lm_args = True\<rparr> log_start = None"
  using stats_vlog_unsafe_messages [OF good_log_env(2,1), of "\<lparr>lm_text = Some (replicate 300 CHR ''x''), lm_args = True\<rparr>"
      "replicate 300 CHR ''x''" None "[]" "[]"]
  by (simp add: STATSRELAY_LOG_BUF_SIZE_def)

end
