(* ===== verification/Main_Program.thy ===== *)
theory Main_Program
  imports Server Log Getopt
begin

text \<open>
  The program, \<open>src/src/main.c\<close>: the options, loading the configuration, connecting the servers, the
  event loop with its signal handlers, and the two exits. The calls that only log are left out; the
  level and the verbosity that the options set are kept. The event loop is a step relation on the
  whole process: each turn is a turn of the carbon or of the statsd front end of \<open>Frontend\<close>, or a
  signal. The theory shows that in every state of the process the backends have been sent what the
  configuration says, no handler runs into undefined behaviour and the descriptors of both servers are
  accounted for, that a signal releases everything once and the program then returns 0, and that
  checking a configuration opens nothing.
\<close>

section \<open>The options\<close>

text \<open>The global variables; \<open>m_server\<close> is the variable \<open>server\<close> that \<open>src/src/stats.h\<close> defines.\<close>

record main_state =
  m_log :: log_state
  m_servers :: server_collection
  m_server :: "stats_server option"
  just_check_config :: bool

definition main_globals :: main_state where
  "main_globals =
     \<lparr>m_log = log_start,
      m_servers = \<lparr>sc_initialized = False, config_file = None, carbon_server = init_server, statsd_server = init_server\<rparr>,
      m_server = None, just_check_config = False\<rparr>"

text \<open>\<open>to_lower\<close> writes to the copy without checking it.\<close>

definition to_lower :: "allocator \<Rightarrow> bytes \<Rightarrow> bytes option" where
  "to_lower A input = map_option (map c_tolower) (strdup A input)"

definition set_level_option :: "bytes \<Rightarrow> log_state \<Rightarrow> log_state" where
  "set_level_option lower st =
     (if lower = ''debug'' then stats_log_verbose True (stats_set_log_level STATSRELAY_LOG_DEBUG st)
      else if lower = ''warn'' then stats_set_log_level STATSRELAY_LOG_WARN st
      else if lower = ''error'' then stats_set_log_level STATSRELAY_LOG_ERROR st
      else st)"

datatype options_result = Options_done | Options_return int | Options_err

definition int8 :: "int \<Rightarrow> int" where
  "int8 c = sint (word_of_int c :: 8 word)"

text \<open>
  The loop over the options: the list has the results of \<open>getopt_long\<close> with their arguments
  (\<open>Getopt\<close>), and when it is used up the result is -1. The cases are the characters \<open>h\<close>, \<open>v\<close>, \<open>V\<close>, \<open>l\<close>, \<open>c\<close> and \<open>t\<close>.
\<close>

fun option_loop :: "(nat \<Rightarrow> allocator) \<Rightarrow> (int \<times> bytes) list \<Rightarrow> main_state \<Rightarrow> (options_result \<times> main_state) option" where
  "option_loop As [] st = Some (Options_done, st)"
| "option_loop As ((opt, optarg) # rest) st =
     (let c = int8 opt; A = As (length rest) in
      if c = -1 then Some (Options_done, st)
      else if c = 0 \<or> c = 104 then Some (Options_return 1, st)
      else if c = 118 then option_loop As rest (st\<lparr>m_log := stats_log_verbose True (m_log st)\<rparr>)
      else if c = 86 then Some (Options_return 0, st)
      else if c = 108 then
        do { lower \<leftarrow> to_lower A optarg; option_loop As rest (st\<lparr>m_log := set_level_option lower (m_log st)\<rparr>) }
      else if c = 99 then option_loop As rest (st\<lparr>m_servers := init_server_collection A optarg\<rparr>)
      else if c = 116 then
        option_loop As rest (st\<lparr>m_servers := init_server_collection A optarg, just_check_config := True\<rparr>)
      else Some (Options_err, st))"

text \<open>The table of the long options, and the options of a command line; a call of \<open>getopt_long\<close> that is
  undefined only matters if the loop gets there.\<close>

definition main_long_options :: "long_option list" where
  "main_long_options =
     [\<lparr>lo_name = ''config'', lo_has_arg = required_argument, lo_val = CHR ''c''\<rparr>,
      \<lparr>lo_name = ''check-config'', lo_has_arg = required_argument, lo_val = CHR ''t''\<rparr>,
      \<lparr>lo_name = ''verbose'', lo_has_arg = no_argument, lo_val = CHR ''v''\<rparr>,
      \<lparr>lo_name = ''version'', lo_has_arg = no_argument, lo_val = CHR ''V''\<rparr>,
      \<lparr>lo_name = ''log-level'', lo_has_arg = required_argument, lo_val = CHR ''l''\<rparr>,
      \<lparr>lo_name = ''help'', lo_has_arg = no_argument, lo_val = CHR ''h''\<rparr>]"

definition read_options :: "(nat \<Rightarrow> allocator) \<Rightarrow> bytes list \<Rightarrow> main_state \<Rightarrow> (options_result \<times> main_state) option" where
  "read_options As args st =
     (let (opts, ind) = getopt_long ''t:c:l:vh'' main_long_options args in
      do {
        (r, st1) \<leftarrow> option_loop As opts st;
        if r = Options_done \<and> ind = None then None else Some (r, st1)
      })"

section \<open>Starting and ending\<close>

text \<open>
  The environment: memory for the options and for the default file name, the events of a file or
  nothing when it cannot be opened, memory and the library's initialisation for the parser, and the
  answers while the servers are connected.
\<close>

record main_env =
  me_options :: "nat \<Rightarrow> allocator"
  me_default :: allocator
  me_open :: "bytes \<Rightarrow> yaml_event list option"
  me_struct :: allocator
  me_list :: allocator
  me_address :: allocator
  me_yaml :: bool
  me_parse :: config_mem
  me_carbon :: server_env
  me_statsd :: server_env

definition load_config :: "main_env \<Rightarrow> bytes option \<Rightarrow> config option option" where
  "load_config e filename =
     do {
       name \<leftarrow> filename;
       case me_open e name of
         None \<Rightarrow> Some None
       | Some evs \<Rightarrow> parse_config (me_struct e) (me_list e) (me_address e) (me_yaml e) (me_parse e) evs
     }"

text \<open>The labels \<open>success\<close> and \<open>err\<close>, which differ in the value that is returned.\<close>

definition main_end :: "int \<Rightarrow> config option \<Rightarrow> main_state \<Rightarrow> 'a net_scheme \<Rightarrow> (int \<times> main_state \<times> 'a net_scheme) option" where
  "main_end rc cfg st n =
     do {
       (servers, n') \<leftarrow> destroy_server_collection (m_servers st) n;
       _ \<leftarrow> destroy_config cfg;
       log \<leftarrow> stats_log_end (m_log st);
       Some (rc, st\<lparr>m_servers := servers, m_log := log\<rparr>, n')
     }"

datatype main_result = Exits int main_state net | Loops main_state config net

definition exits :: "int \<times> main_state \<times> net \<Rightarrow> main_result" where
  "exits r = (case r of (rc, st, n) \<Rightarrow> Exits rc st n)"

text \<open>\<open>main\<close> up to the event loop.\<close>

definition main_start :: "main_env \<Rightarrow> bytes list \<Rightarrow> net \<Rightarrow> main_result option" where
  "main_start e args n =
     do {
       (r, st1) \<leftarrow> read_options (me_options e) args
                     (main_globals\<lparr>m_log := stats_set_log_level STATSRELAY_LOG_INFO (m_log main_globals)\<rparr>);
       case r of
         Options_return rc \<Rightarrow> Some (Exits rc st1 n)
       | Options_err \<Rightarrow> map_option exits (main_end 1 None st1 n)
       | Options_done \<Rightarrow>
           do {
             let st2 = (if sc_initialized (m_servers st1) then st1
                        else st1\<lparr>m_servers := init_server_collection (me_default e) default_config\<rparr>);
             loaded \<leftarrow> load_config e (config_file (m_servers st2));
             case loaded of
               None \<Rightarrow> map_option exits (main_end 1 None st2 n)
             | Some cfg \<Rightarrow>
                 if just_check_config st2 then map_option exits (main_end 0 (Some cfg) st2 n)
                 else do {
                   (worked, servers, n') \<leftarrow> connect_server_collection (me_carbon e) (me_statsd e) (m_servers st2) cfg n;
                   let st3 = st2\<lparr>m_servers := servers\<rparr>;
                   if \<not> worked then map_option exits (main_end 1 (Some cfg) st3 n')
                   else Some (Loops st3 cfg n')
                 }
           }
     }"

section \<open>The event loop\<close>

text \<open>
  The process while the event loop runs: the global variables, the descriptors, and for each
  protocol its connections and, as a ghost, the log of its accepted lines. \<open>pr_break\<close> is set by
  \<open>ev_break\<close>.
\<close>

type_synonym sessions = "(nat \<Rightarrow> (stats_session, stats_server, front_input) tcpsession option) \<times> nat"

record process =
  pr_main :: main_state
  pr_net :: net
  pr_sessions :: "section_ref \<Rightarrow> sessions"
  pr_log :: "section_ref \<Rightarrow> (nat \<times> bytes) list"
  pr_break :: bool

definition process_start :: "main_state \<Rightarrow> net \<Rightarrow> process" where
  "process_start st n =
     \<lparr>pr_main = st, pr_net = n, pr_sessions = (\<lambda>_. (Map.empty, 0)), pr_log = (\<lambda>_. []), pr_break = False\<rparr>"

fun proto_server :: "section_ref \<Rightarrow> server_collection \<Rightarrow> server" where
  "proto_server Statsd sc = statsd_server sc"
| "proto_server Carbon sc = carbon_server sc"

fun set_server :: "section_ref \<Rightarrow> server \<Rightarrow> server_collection \<Rightarrow> server_collection" where
  "set_server Statsd sv sc = sc\<lparr>statsd_server := sv\<rparr>"
| "set_server Carbon sv sc = sc\<lparr>carbon_server := sv\<rparr>"

fun proto_delim :: "section_ref \<Rightarrow> char" where
  "proto_delim Statsd = CHR '':''"
| "proto_delim Carbon = CHR '' ''"

fun proto_line :: "section_ref \<Rightarrow> bytes \<Rightarrow> bool" where
  "proto_line Statsd = statsd_line"
| "proto_line Carbon = carbon_line"

definition with_sessions :: "net \<Rightarrow> sessions \<Rightarrow> stats_tcp_net" where
  "with_sessions n ss = \<lparr>net_open = net_open n, net_watch = net_watch n, ts_heap = fst ss, ts_next = snd ss\<rparr>"

text \<open>\<open>graceful_shutdown\<close>, for \<open>SIGINT\<close> and \<open>SIGTERM\<close>, and \<open>reload_config\<close>, for \<open>SIGHUP\<close>.\<close>

definition graceful_shutdown :: "process \<Rightarrow> process option" where
  "graceful_shutdown p =
     do {
       (servers, n) \<leftarrow> destroy_server_collection (m_servers (pr_main p)) (pr_net p);
       Some (p\<lparr>pr_main := (pr_main p)\<lparr>m_servers := servers\<rparr>, pr_net := n, pr_break := True\<rparr>)
     }"

definition reload_config :: "int \<Rightarrow> process \<Rightarrow> process option" where
  "reload_config now p =
     (case m_server (pr_main p) of
        None \<Rightarrow> Some p
      | Some server \<Rightarrow>
          do {
            server' \<leftarrow> stats_server_reload now server;
            Some (p\<lparr>pr_main := (pr_main p)\<lparr>m_server := Some server'\<rparr>\<rparr>)
          })"

text \<open>A turn of the loop, until a signal breaks it.\<close>

inductive loop_step :: "process \<Rightarrow> process \<Rightarrow> bool" where
  turn:
    "\<not> pr_break p \<Longrightarrow> sv = proto_server r (m_servers (pr_main p)) \<Longrightarrow> sv_server sv = Some d \<Longrightarrow>
     front_step (proto_delim r) (tcp_listeners sv) (udp_listeners sv)
       ((d, with_sessions (pr_net p) (pr_sessions p r)), pr_log p r) ((d', m), log') \<Longrightarrow>
     loop_step p
       (p\<lparr>pr_main := (pr_main p)\<lparr>m_servers := set_server r (sv\<lparr>sv_server := Some d'\<rparr>) (m_servers (pr_main p))\<rparr>,
          pr_net := \<lparr>net_open = net_open m, net_watch = net_watch m\<rparr>,
          pr_sessions := (pr_sessions p)(r := (ts_heap m, ts_next m)),
          pr_log := (pr_log p)(r := log')\<rparr>)"
| hangup: "\<not> pr_break p \<Longrightarrow> reload_config now p = Some p' \<Longrightarrow> loop_step p p'"
| shutdown: "\<not> pr_break p \<Longrightarrow> graceful_shutdown p = Some p' \<Longrightarrow> loop_step p p'"


section \<open>From the start to the event loop\<close>

fun proto_parser :: "section_ref \<Rightarrow> protocol_parser" where
  "proto_parser Statsd = protocol_parser_statsd"
| "proto_parser Carbon = protocol_parser_carbon"

fun proto_validator :: "section_ref \<Rightarrow> line_validator_fn" where
  "proto_validator Statsd = validate_statsd"
| "proto_validator Carbon = validate_carbon"

lemma proto_protocol: "protocol (proto_parser r) (proto_validator r) (proto_delim r) (proto_line r)"
  using protocols by (cases r) simp_all

lemma proto_server_set [simp]: "proto_server q (set_server r sv sc) = (if q = r then sv else proto_server q sc)"
  by (cases q; cases r) simp_all

lemma set_server_frame [simp]: "sc_initialized (set_server r sv sc) = sc_initialized sc"
  by (cases r) simp_all

text \<open>What a start needs of its environment: the making of backends can work, and files are not too long.\<close>

definition main_env_ok :: "main_env \<Rightarrow> bool" where
  "main_env_ok e \<longleftrightarrow>
     server_env_ok (me_carbon e) \<and> server_env_ok (me_statsd e) \<and>
     (\<forall>name evs. me_open e name = Some evs \<longrightarrow> length evs < 2 ^ 32)"

text \<open>The options leave the servers alone and the log in order.\<close>

definition main_ok :: "main_state \<Rightarrow> bool" where
  "main_ok st \<longleftrightarrow>
     statsd_server (m_servers st) = init_server \<and> carbon_server (m_servers st) = init_server \<and>
     m_server st = None \<and> log_ok (m_log st)"

lemma main_ok_updates:
  "main_ok st \<Longrightarrow> main_ok (st\<lparr>m_servers := init_server_collection A name\<rparr>)"
  "main_ok st \<Longrightarrow> main_ok (st\<lparr>just_check_config := c\<rparr>)"
  "main_ok st \<Longrightarrow> main_ok (st\<lparr>m_log := stats_log_verbose v (m_log st)\<rparr>)"
  "main_ok st \<Longrightarrow> main_ok (st\<lparr>m_log := set_level_option l (m_log st)\<rparr>)"
  by (simp_all add: main_ok_def init_server_collection_def log_ok_def stats_log_verbose_def
      set_level_option_def stats_set_log_level_def)

lemma option_loop_ok:
  assumes "option_loop As args st = Some (r, st')" "main_ok st"
  shows "main_ok st'"
  using assms
proof (induction args arbitrary: st)
  case (Cons a rest)
  obtain opt optarg where a: "a = (opt, optarg)" by fastforce
  have "st' = st \<or> (\<exists>st1. option_loop As rest st1 = Some (r, st') \<and> main_ok st1)"
    using Cons.prems unfolding a by (auto simp: Let_def main_ok_updates split: if_splits Option.bind_splits)
  with Cons show ?case by blast
qed simp

lemma read_options_ok:
  assumes "read_options As args st = Some (r, st')" "main_ok st"
  shows "main_ok st'"
  using assms option_loop_ok by (auto simp: read_options_def split: prod.splits Option.bind_splits if_splits)

lemma main_globals_ok: "main_ok (main_globals\<lparr>m_log := stats_set_log_level l (m_log main_globals)\<rparr>)"
  by (simp add: main_ok_def main_globals_def log_ok_def log_start_def stats_set_log_level_def)

text \<open>What is known when the event loop starts.\<close>

lemma main_start_loops:
  assumes "main_start e args n = Some (Loops st cfg n')"
  obtains st2 name evs where "main_ok st2" "sc_initialized (m_servers st2)" "me_open e name = Some evs"
    "parse_config (me_struct e) (me_list e) (me_address e) (me_yaml e) (me_parse e) evs = Some (Some cfg)"
    "connect_server_collection (me_carbon e) (me_statsd e) (m_servers st2) cfg n = Some (True, m_servers st, n')"
    "st = st2\<lparr>m_servers := m_servers st\<rparr>"
proof -
  have no: "map_option exits x \<noteq> Some (Loops st cfg n')" for x by (auto simp: exits_def)
  obtain st1 where 1: "read_options (me_options e) args
      (main_globals\<lparr>m_log := stats_set_log_level STATSRELAY_LOG_INFO (m_log main_globals)\<rparr>) = Some (Options_done, st1)"
    using assms no by (auto simp: main_start_def split: Option.bind_splits options_result.splits)
  define st2 where "st2 = (if sc_initialized (m_servers st1) then st1
      else st1\<lparr>m_servers := init_server_collection (me_default e) default_config\<rparr>)"
  have ok: "main_ok st2" "sc_initialized (m_servers st2)"
    using read_options_ok [OF 1 main_globals_ok] by (auto simp: st2_def main_ok_updates) (simp add: init_server_collection_def)
  have "load_config e (config_file (m_servers st2)) = Some (Some cfg) \<and>
      (\<exists>sc. connect_server_collection (me_carbon e) (me_statsd e) (m_servers st2) cfg n = Some (True, sc, n') \<and>
        st = st2\<lparr>m_servers := sc\<rparr>)"
    using assms no 1
    by (auto simp: main_start_def Let_def simp flip: st2_def split: Option.bind_splits option.splits if_splits)
  with ok show ?thesis
    by (auto simp: load_config_def split: Option.bind_splits option.splits intro!: that)
qed


lemma parsed_configured:
  assumes "parse_config A1 A2 S yaml_init_ok mem evs = Some (Some cfg)" "length evs < 2 ^ 32"
    and "pc_ring (get_section cfg r) \<noteq> None"
  shows "\<exists>ls. configured (get_section cfg r) ls"
proof -
  obtain lines where l: "pc_ring (get_section cfg r) = Some lines" using assms(3) by auto
  with rings_ok_section [OF parsed_rings [OF assms(1)], of r] have ok: "ring_ok (length evs) (Some lines)" by simp
  then obtain ls where "slist_elems lines = map Some ls" using all_Some by (auto simp: ring_ok_def)
  with ok assms(2) l show ?thesis by (auto simp: configured_def ring_ok_def)
qed

text \<open>Each server was connected from scratch, in an environment and with a configuration in order.\<close>

definition set_up :: "section_ref \<Rightarrow> config \<Rightarrow> server \<Rightarrow> bool" where
  "set_up r cfg sv \<longleftrightarrow>
     (\<exists>e n n' ok ls. server_env_ok e \<and> net_ok n \<and> configured (get_section cfg r) ls \<and>
        connect_server e init_server (get_section cfg r) (proto_parser r) (proto_validator r) n = Some (ok, sv, n'))"

lemma connect_server_ring:
  "connect_server e sv config parser validator n = Some (ok, sv', n') \<Longrightarrow> pc_ring config \<noteq> None"
  by (cases "pc_ring config") (simp_all add: connect_server_def)

lemma connect_collection_set_up:
  assumes "server_env_ok ec" "server_env_ok es" "net_ok n"
    and conf: "\<And>r. pc_ring (get_section cfg r) \<noteq> None \<Longrightarrow> \<exists>ls. configured (get_section cfg r) ls"
    and init: "carbon_server sc = init_server" "statsd_server sc = init_server"
    and c: "connect_server_collection ec es sc cfg n = Some (ok, sc', n')"
  shows "set_up r cfg (proto_server r sc')" "sc_initialized sc' = sc_initialized sc"
    "pc_ring (statsd_config cfg) \<noteq> None" "pc_ring (carbon_config cfg) \<noteq> None" "net_ok n'"
proof -
  obtain ok1 ok2 carbon statsd n1 where
    1: "connect_server ec init_server (carbon_config cfg) protocol_parser_carbon validate_carbon n = Some (ok1, carbon, n1)" and
    2: "connect_server es init_server (statsd_config cfg) protocol_parser_statsd validate_statsd n1 = Some (ok2, statsd, n')" and
    sc': "sc' = sc\<lparr>carbon_server := carbon, statsd_server := statsd\<rparr>"
    using c unfolding connect_server_collection_def init by (simp split: Option.bind_splits prod.splits)
  show rings: "pc_ring (statsd_config cfg) \<noteq> None" "pc_ring (carbon_config cfg) \<noteq> None"
    using connect_server_ring [OF 1] connect_server_ring [OF 2] by simp_all
  obtain l1 l2 where l: "configured (carbon_config cfg) l1" "configured (statsd_config cfg) l2"
    using conf [of Carbon] conf [of Statsd] rings by auto
  have n1: "net_ok n1" using connect_server_ok [OF assms(1) l(1) protocols(2) assms(3) 1] by blast
  show "net_ok n'" using connect_server_ok [OF assms(2) l(2) protocols(1) n1 2] by blast
  from n1 1 2 l assms(1-3) show "set_up r cfg (proto_server r sc')"
    unfolding set_up_def sc' by (cases r) auto
  show "sc_initialized sc' = sc_initialized sc" by (simp add: sc')
qed

lemma set_up_ok:
  assumes "set_up r cfg sv"
  shows "server_ok sv" "relay_listeners (tcp_listeners sv) (udp_listeners sv)"
    "sv_server sv = Some d \<Longrightarrow> serving (proto_delim r) (proto_line r) d"
proof -
  from assms obtain e n n' ok ls where c: "server_env_ok e" "configured (get_section cfg r) ls" "net_ok n"
      "connect_server e init_server (get_section cfg r) (proto_parser r) (proto_validator r) n = Some (ok, sv, n')"
    unfolding set_up_def by blast
  show "server_ok sv" using connect_server_ok [OF c(1,2) proto_protocol c(3,4)] by blast
  show "relay_listeners (tcp_listeners sv) (udp_listeners sv)"
    using c(4,3) by (cases rule: connect_server_cases)
      (simp_all add: relay_listeners_def init_server_def tcp_listeners_def udp_listeners_def)
  show "serving (proto_delim r) (proto_line r) d" if "sv_server sv = Some d"
    using connected_front(1) [OF c(1,2) proto_protocol c(3,4) that] by (simp add: front_reaches_def front_start_def)
qed

section \<open>The invariant of the process\<close>

text \<open>
  A server while the event loop runs, compared with the server as it was connected: only the
  statistics server has changed, in a run of the relay that has the log, and the contexts of its
  connections are in order.
\<close>

definition server_runs :: "section_ref \<Rightarrow> server \<Rightarrow> server \<Rightarrow> sessions \<Rightarrow> (nat \<times> bytes) list \<Rightarrow> bool" where
  "server_runs r sv0 sv ss log \<longleftrightarrow>
     sv = sv0\<lparr>sv_server := sv_server sv\<rparr> \<and> (\<forall>n. front.contexts_ok (with_sessions n ss)) \<and>
     (case sv_server sv0 of
        None \<Rightarrow> sv_server sv = None
      | Some d0 \<Rightarrow> \<exists>d. sv_server sv = Some d \<and> serving (proto_delim r) (proto_line r) d \<and>
          (relay_step (proto_delim r))\<^sup>*\<^sup>* (d0, []) (d, log))"

text \<open>
  The descriptors: beyond those open at the start (\<open>base\<close>) each belongs to one session of one of the
  two protocols. For the sessions of one protocol those of the other are descriptors in use.
\<close>

fun other :: "section_ref \<Rightarrow> section_ref" where
  "other Statsd = Carbon"
| "other Carbon = Statsd"

lemma other_other [simp]: "other (other r) = r" "other r \<noteq> r"
  by (cases r; simp)+

lemma neq_other: "q \<noteq> r \<longleftrightarrow> q = other r"
  by (cases q; cases r) simp_all

definition proto_net :: "process \<Rightarrow> section_ref \<Rightarrow> stats_tcp_net" where
  "proto_net p r = with_sessions (pr_net p) (pr_sessions p r)"

definition process_inv :: "main_state \<Rightarrow> int set \<Rightarrow> process \<Rightarrow> bool" where
  "process_inv st base p \<longleftrightarrow>
     (\<exists>sc. pr_main p = st\<lparr>m_servers := sc\<rparr>) \<and>
     (\<not> pr_break p \<longrightarrow>
        sc_initialized (m_servers (pr_main p)) \<and>
        (\<forall>r. server_runs r (proto_server r (m_servers st)) (proto_server r (m_servers (pr_main p)))
               (pr_sessions p r) (pr_log p r)) \<and>
        (\<forall>r. front.sessions_ok (base \<union> session_sds (proto_net p (other r))) (proto_net p r)))"

definition process_starts :: "config \<Rightarrow> main_state \<Rightarrow> net \<Rightarrow> process \<Rightarrow> bool" where
  "process_starts cfg st n p \<longleftrightarrow>
     p = process_start st n \<and> net_ok n \<and> m_server st = None \<and> sc_initialized (m_servers st) \<and>
     (\<forall>r. set_up r cfg (proto_server r (m_servers st)))"

lemma contexts_with_sessions: "front.contexts_ok (with_sessions n (ts_heap m, k)) = front.contexts_ok m"
  by (simp add: front.contexts_ok_def with_sessions_def)

lemma with_sessions_same: "with_sessions \<lparr>net_open = net_open m, net_watch = net_watch m\<rparr> (ts_heap m, ts_next m) = m"
  by (simp add: with_sessions_def)

text \<open>What a turn of one protocol does to its server and to the sessions of both.\<close>

lemma turn_keeps:
  assumes run: "server_runs r sv0 sv (pr_sessions p r) (pr_log p r)" and up: "set_up r cfg sv0"
    and d: "sv_server sv = Some d" and step: "front_step (proto_delim r) (tcp_listeners sv) (udp_listeners sv)
      ((d, proto_net p r), pr_log p r) ((d', m), log')"
    and ok: "\<And>r. front.sessions_ok (base \<union> session_sds (proto_net p (other r))) (proto_net p r)"
  shows "server_runs r sv0 (sv\<lparr>sv_server := Some d'\<rparr>) (ts_heap m, ts_next m) log'"
    "front.sessions_ok (base \<union> session_sds (proto_net p (other r))) m"
    "front.sessions_ok (base \<union> session_sds m) ((proto_net p (other r))\<lparr>net_open := net_open m, net_watch := net_watch m\<rparr>)"
proof -
  from run d obtain d0 where d0: "sv_server sv0 = Some d0" "serving (proto_delim r) (proto_line r) d"
      "(relay_step (proto_delim r))\<^sup>*\<^sup>* (d0, []) (d, pr_log p r)" "sv = sv0\<lparr>sv_server := sv_server sv\<rparr>"
    by (auto simp: server_runs_def split: option.splits)
  have ctx: "front.contexts_ok (proto_net p r)" using run by (simp add: server_runs_def proto_net_def)
  have "tcp_listeners sv = tcp_listeners sv0" "udp_listeners sv = udp_listeners sv0"
    by (subst d0(4), simp add: tcp_listeners_def udp_listeners_def)+
  then have ls: "relay_listeners (tcp_listeners sv) (udp_listeners sv)" using set_up_ok(2) [OF up] by simp
  have delim: "proto_delim r \<notin> set status_line" using proto_protocol [of r] by (simp add: protocol_def)
  have "serving (proto_delim r) (proto_line r) d' \<and> front.contexts_ok m \<and>
      (relay_step (proto_delim r))\<^sup>*\<^sup>* (d, pr_log p r) (d', log')"
    by (rule front_step_serves [OF ls delim step d0(2) ctx])
  with d0(1,3) show "server_runs r sv0 (sv\<lparr>sv_server := Some d'\<rparr>) (ts_heap m, ts_next m) log'"
    by (subst d0(4)) (auto simp: server_runs_def contexts_with_sessions)
  show m: "front.sessions_ok (base \<union> session_sds (proto_net p (other r))) m"
    by (rule front_step_sessions [OF ls step d0(2) ok])
  have "net_watch m \<subseteq> net_watch (proto_net p (other r)) \<union> session_sds m"
    using front_step_watch [OF step] by (simp add: proto_net_def with_sessions_def)
  from front.sessions_ok_other [OF _ m this] ok [of "other r"]
  show "front.sessions_ok (base \<union> session_sds m) ((proto_net p (other r))\<lparr>net_open := net_open m, net_watch := net_watch m\<rparr>)"
    by simp
qed

lemma loop_step_inv:
  assumes "loop_step p p'" "process_inv st base p" "m_server st = None" "\<forall>r. set_up r cfg (proto_server r (m_servers st))"
  shows "process_inv st base p'"
  using assms(1)
proof cases
  case (turn sv r d d' m log')
  let ?sv0 = "proto_server r (m_servers st)"
  have run: "server_runs r ?sv0 sv (pr_sessions p r) (pr_log p r)"
    and ok: "\<And>r. front.sessions_ok (base \<union> session_sds (proto_net p (other r))) (proto_net p r)"
    using assms(2) turn(2,3) by (simp_all add: process_inv_def)
  have up: "set_up r cfg ?sv0" using assms(4) by blast
  note keep = turn_keeps [OF run up turn(4) turn(5) [folded proto_net_def] ok]
  have nets: "proto_net p' r = m"
      "proto_net p' (other r) = (proto_net p (other r))\<lparr>net_open := net_open m, net_watch := net_watch m\<rparr>"
    unfolding turn(1) by (simp_all add: proto_net_def with_sessions_same) (simp add: with_sessions_def)
  have "front.sessions_ok (base \<union> session_sds (proto_net p' (other q))) (proto_net p' q)" for q
  proof (cases "q = r")
    case True
    have "session_sds (proto_net p' (other r)) = session_sds (proto_net p (other r))"
      unfolding nets(2) by (simp add: session_sds_def)
    with True nets(1) keep(2) show ?thesis by simp
  next
    case False
    then have "q = other r" by (simp add: neq_other)
    with keep(3) nets show ?thesis by simp
  qed
  with assms(2) turn(1,2) keep(1) show ?thesis by (auto simp: process_inv_def)
next
  case (hangup now)
  have "m_server (pr_main p) = None" using assms(2,3) by (auto simp: process_inv_def)
  with hangup assms(2) show ?thesis by (simp add: reload_config_def)
next
  case shutdown
  then show ?thesis using assms(2) by (auto simp: graceful_shutdown_def process_inv_def split: Option.bind_splits)
qed

interpretation process_run: invariant_system "process_starts cfg st n"
  "\<lambda>p p'. m_server st = None \<and> (\<forall>r. set_up r cfg (proto_server r (m_servers st))) \<and> loop_step p p'"
  "process_inv st (net_open n)" for cfg st n
proof unfold_locales
  fix p assume p: "process_starts cfg st n p"
  have "server_runs r (proto_server r (m_servers st)) (proto_server r (m_servers st)) (Map.empty, 0) []" for r
    using p set_up_ok(3) [of r cfg]
    by (auto simp: process_starts_def server_runs_def front.contexts_ok_def with_sessions_def split: option.split)
  moreover have "front.sessions_ok (net_open n \<union> session_sds (no_sessions n)) (no_sessions n)"
    using p by (auto simp: process_starts_def no_sessions_def front.sessions_ok_def session_sds_def net_ok_def)
  moreover have "proto_net p r = no_sessions n" for r
    using p by (simp add: process_starts_def process_start_def proto_net_def no_sessions_def with_sessions_def)
  moreover have "st = st\<lparr>m_servers := m_servers st\<rparr>" by simp
  then have "\<exists>sc. st = st\<lparr>m_servers := sc\<rparr>" by blast
  ultimately show "process_inv st (net_open n) p" using p by (auto simp: process_starts_def process_inv_def process_start_def)
next
  fix p p'
  assume "process_inv st (net_open n) p" "m_server st = None \<and> (\<forall>r. set_up r cfg (proto_server r (m_servers st))) \<and> loop_step p p'"
  then show "process_inv st (net_open n) p'" by (blast intro: loop_step_inv)
qed

text \<open>What is known of every state of the process.\<close>

lemma main_start_sets_up:
  assumes "main_env_ok e" "net_ok n" "main_start e args n = Some (Loops st cfg n')"
  shows "process_starts cfg st n' (process_start st n')" "log_ok (m_log st)" "destroy_config (Some cfg) = Some ()"
proof -
  from assms(3) obtain st2 name evs where s: "main_ok st2" "sc_initialized (m_servers st2)" "me_open e name = Some evs"
    "parse_config (me_struct e) (me_list e) (me_address e) (me_yaml e) (me_parse e) evs = Some (Some cfg)"
    "connect_server_collection (me_carbon e) (me_statsd e) (m_servers st2) cfg n = Some (True, m_servers st, n')"
    "st = st2\<lparr>m_servers := m_servers st\<rparr>"
    by (rule main_start_loops)
  have env: "server_env_ok (me_carbon e)" "server_env_ok (me_statsd e)" "length evs < 2 ^ 32"
    using assms(1) s(3) by (auto simp: main_env_ok_def)
  have init: "carbon_server (m_servers st2) = init_server" "statsd_server (m_servers st2) = init_server"
    using s(1) by (simp_all add: main_ok_def)
  note conf = parsed_configured [OF s(4) env(3)]
  note up = connect_collection_set_up [OF env(1,2) assms(2) conf init s(5)]
  have "m_server st = None \<and> log_ok (m_log st)" using s(1) by (subst (1 2) s(6)) (simp add: main_ok_def)
  then show "process_starts cfg st n' (process_start st n')" "log_ok (m_log st)"
    using up(1,2,5) s(2) by (auto simp: process_starts_def)
  show "destroy_config (Some cfg) = Some ()" by (rule destroy_config_ok [OF parsed_rings [OF s(4)] up(3,4)])
qed

lemma process_invariant:
  assumes "process_starts cfg st n p0" "loop_step\<^sup>*\<^sup>* p0 p"
  shows "process_inv st (net_open n) p"
proof -
  have "m_server st = None" "\<forall>r. set_up r cfg (proto_server r (m_servers st))" using assms(1) by (auto simp: process_starts_def)
  then have "(\<lambda>p p'. m_server st = None \<and> (\<forall>r. set_up r cfg (proto_server r (m_servers st))) \<and> loop_step p p')\<^sup>*\<^sup>* p0 p"
    using assms(2) by simp
  with process_run.reachable_inv [OF assms(1)] show ?thesis by blast
qed

section \<open>Properties\<close>

text \<open>C1: from the command line and the configuration file to the backends. The program has loaded a
  configuration and connected its servers, and the event loop has run for any time, with any clients,
  datagrams, answers of the network and signals that are not a shutdown. Then the bytes a backend
  has been sent, followed by the bytes waiting for it, are the accepted lines of its protocol whose
  keys hash to a shard that is configured for this backend, in the order of their acceptance, each with
  its newline; and each accepted line passed validation if it is enabled.\<close>

theorem process_relays:
  assumes "main_env_ok e" "net_ok n" "main_start e args n = Some (Loops st cfg n')"
    and "configured (get_section cfg r) ls"
    and "loop_step\<^sup>*\<^sup>* (process_start st n') p" "\<not> pr_break p"
    and "sv_server (proto_server r (m_servers (pr_main p))) = Some d" "s_backends d q = Some b"
  shows "sent_bytes (c_trace (bk_client b)) @ buffer_data (c_queue (bk_client b)) =
      routed (proto_delim r) ls (bk_key b) (map snd (pr_log p r)) \<and>
    (\<forall>l \<in> set (map snd (pr_log p r)). good_line (proto_delim r) l \<and>
      (enable_validation (get_section cfg r) \<longrightarrow> proto_line r l))"
proof -
  let ?sv0 = "proto_server r (m_servers st)"
  note up = main_start_sets_up(1) [OF assms(1-3)]
  from up have "set_up r cfg ?sv0" by (simp add: process_starts_def)
  then obtain e1 n1 n2 ok ls' where c: "server_env_ok e1" "configured (get_section cfg r) ls'" "net_ok n1"
      "connect_server e1 init_server (get_section cfg r) (proto_parser r) (proto_validator r) n1 = Some (ok, ?sv0, n2)"
    unfolding set_up_def by blast
  have "server_runs r ?sv0 (proto_server r (m_servers (pr_main p))) (pr_sessions p r) (pr_log p r)"
    using process_invariant [OF up assms(5)] assms(6) by (simp add: process_inv_def)
  then obtain d0 where d0: "sv_server ?sv0 = Some d0" "(relay_step (proto_delim r))\<^sup>*\<^sup>* (d0, []) (d, pr_log p r)"
    using assms(7) by (auto simp: server_runs_def split: option.splits)
  from connected_streams [OF c(1) assms(4) proto_protocol c(3,4) d0 assms(8)] show ?thesis .
qed


text \<open>C2: a shutdown in any state of the process: \<open>graceful_shutdown\<close> returns and leaves no backend of an
  enabled server; then \<open>main\<close> releases nothing twice and returns 0. The watchers of the listeners are
  stopped, and no others: those of open sessions stay active on the released server.\<close>

theorem process_shuts_down:
  assumes "main_env_ok e" "net_ok n" "main_start e args n = Some (Loops st cfg n')"
    and "loop_step\<^sup>*\<^sup>* (process_start st n') p" "\<not> pr_break p"
  shows "\<exists>p'. graceful_shutdown p = Some p' \<and> loop_step p p' \<and>
    (\<forall>r. sv_enabled (proto_server r (m_servers (pr_main p'))) \<longrightarrow>
       sv_left (proto_server r (m_servers (pr_main p'))) = Some Map.empty) \<and>
    net_watch (pr_net p') = net_watch (pr_net p) - (\<Union>sv \<in> {sv \<in> range (\<lambda>r. proto_server r (m_servers (pr_main p))). sv_enabled sv}.
      tl_sd ` set (tcp_listeners sv) \<union> ul_sd ` set (udp_listeners sv)) \<and>
    (\<exists>st'. main_end 0 (Some cfg) (pr_main p') (pr_net p') = Some (0, st', pr_net p'))"
proof -
  note up = main_start_sets_up [OF assms(1-3)]
  from process_invariant [OF up(1) assms(4)] assms(5) obtain sc where
    p: "pr_main p = st\<lparr>m_servers := sc\<rparr>" "sc_initialized sc" and
    run: "\<And>r. server_runs r (proto_server r (m_servers st)) (proto_server r sc) (pr_sessions p r) (pr_log p r)"
    by (auto simp: process_inv_def)
  have ok: "server_ok (proto_server r sc)" for r
  proof -
    have "set_up r cfg (proto_server r (m_servers st))" using up(1) by (simp add: process_starts_def)
    from set_up_ok(1) [OF this] run [of r] have "sv_left (proto_server r sc) = None"
      unfolding server_runs_def server_ok_def by (metis server.select_convs(5) server.surjective server.update_convs(2))
    with run [of r] show ?thesis by (auto simp: server_runs_def server_ok_def serving_def split: option.splits)
  qed
  have range: "range (\<lambda>r. proto_server r sc) = {carbon_server sc, statsd_server sc}" for sc
  proof -
    have "proto_server r sc \<in> {carbon_server sc, statsd_server sc}" for r by (cases r) simp_all
    moreover have "carbon_server sc = proto_server Carbon sc" "statsd_server sc = proto_server Statsd sc" by simp_all
    ultimately show ?thesis by blast
  qed
  obtain sc' m where d: "destroy_server_collection sc (pr_net p) = Some (sc', m)"
      "\<forall>sv \<in> range (\<lambda>r. proto_server r sc'). sv_enabled sv \<longrightarrow> sv_left sv = Some Map.empty"
      "net_watch m = net_watch (pr_net p) - (\<Union>sv \<in> {sv \<in> range (\<lambda>r. proto_server r sc). sv_enabled sv}.
        tl_sd ` set (tcp_listeners sv) \<union> ul_sd ` set (udp_listeners sv))"
      "destroy_server_collection sc' m = Some (sc', m)"
    using destroy_collection_releases [OF p(2), of "pr_net p"] ok [of Carbon] ok [of Statsd] unfolding range by auto
  let ?p = "p\<lparr>pr_main := st\<lparr>m_servers := sc'\<rparr>, pr_net := m, pr_break := True\<rparr>"
  have shut: "graceful_shutdown p = Some ?p" using d(1) p(1) by (simp add: graceful_shutdown_def)
  obtain l where "stats_log_end (m_log st) = Some l" using up(2) by (auto simp: stats_log_end_def log_ok_def)
  with d(4) up(3) have "\<exists>st'. main_end 0 (Some cfg) (pr_main ?p) (pr_net ?p) = Some (0, st', pr_net ?p)"
    by (simp add: main_end_def)
  with shut d(2,3) p(1) loop_step.shutdown [OF assms(5) shut] show ?thesis by auto
qed

text \<open>C3: no handler runs into undefined behaviour: in every state of the process, a read on a watched
  session and a datagram return, for all lines within the limits of the fixed-size buffers and all
  answers of the network.\<close>

theorem process_never_undefined:
  assumes "main_env_ok e" "net_ok n" "main_start e args n = Some (Loops st cfg n')"
    and "loop_step\<^sup>*\<^sup>* (process_start st n') p" "\<not> pr_break p"
    and "sv_server (proto_server r (m_servers (pr_main p))) = Some d"
  shows "(\<forall>q s c i. ts_heap (proto_net p r) q = Some s \<and> ts_sd s \<in> net_watch (proto_net p r) \<and> ts_ctx s = Some c \<and>
        read_fits (proto_delim r) i c \<longrightarrow>
      (\<exists>d' m. tcpsession_recv_callback False i (Some q) d (proto_net p r) = Some (d', m))) \<and>
    (\<forall>u i. u \<in> set (udp_listeners (proto_server r (m_servers (pr_main p)))) \<and> datagram_fits (proto_delim r) i \<longrightarrow>
      (\<exists>d'. udplistener_recv_callback False i u d = Some d'))"
proof -
  let ?old = "proto_server r (m_servers st)"
  let ?new = "proto_server r (m_servers (pr_main p))"
  note up = main_start_sets_up(1) [OF assms(1-3)]
  note inv = process_invariant [OF up assms(4), unfolded process_inv_def]
  have run: "server_runs r ?old ?new (pr_sessions p r) (pr_log p r)" using inv assms(5) by blast
  have slots: "front.sessions_ok (net_open n' \<union> session_sds (proto_net p (other r))) (proto_net p r)" using inv assms(5) by blast
  have sv: "serving (proto_delim r) (proto_line r) d" "?new = ?old\<lparr>sv_server := sv_server ?new\<rparr>"
    using run assms(6) by (auto simp: server_runs_def split: option.splits)
  have "set_up r cfg ?old" using up by (simp add: process_starts_def)
  moreover have "tcp_listeners ?new = tcp_listeners ?old" "udp_listeners ?new = udp_listeners ?old"
    by (subst sv(2), simp add: tcp_listeners_def udp_listeners_def)+
  ultimately have "relay_listeners (tcp_listeners ?new) (udp_listeners ?new)" using set_up_ok(2) [of r cfg ?old] by simp
  then show ?thesis using handlers_return [OF sv(1) slots] by blast
qed


text \<open>C40: \<open>SIGHUP\<close> changes nothing: the variable that \<open>reload_config\<close> looks at is never set.\<close>

theorem sighup_is_ignored:
  assumes "main_env_ok e" "net_ok n" "main_start e args n = Some (Loops st cfg n')"
    and "loop_step\<^sup>*\<^sup>* (process_start st n') p"
  shows "reload_config now p = Some p"
proof -
  note up = main_start_sets_up(1) [OF assms(1-3)]
  from process_invariant [OF up assms(4)] up show ?thesis
    by (auto simp: process_inv_def process_starts_def reload_config_def)
qed

text \<open>The options that are read from a written command line.\<close>

lemma read_options_written:
  assumes "written ''t:c:l:vh'' main_long_options rs args" "getopt_long ''t:c:l:vh'' main_long_options rest = ([], ind)"
  shows "read_options As (args @ rest) st =
    do { (r, st1) \<leftarrow> option_loop As rs st; if r = Options_done \<and> ind = None then None else Some (r, st1) }"
  using getopt_long_written [OF assms(1), of rest] assms(2) by (simp add: read_options_def)


text \<open>C23: \<open>-t\<close>, in each of its spellings, only checks: the program exits with 0 if the file can be opened and parsed and with 1
  otherwise, releases what it loaded, and opens and watches no descriptor.\<close>

theorem main_checks_config:
  assumes "strdup (me_options e 0) name = Some name" "load_config e (Some name) = Some r"
    and "\<forall>cfg. r = Some cfg \<longrightarrow> pc_ring (statsd_config cfg) \<noteq> None \<and> pc_ring (carbon_config cfg) \<noteq> None"
    and "args \<in> spellings ''check-config'' (CHR ''t'') name"
  shows "\<exists>st. main_start e args n = Some (Exits (if r = None then 1 else 0) st n) \<and>
    \<not> sc_initialized (m_servers st)"
proof -
  let ?sc = "init_server_collection (me_options e 0) name"
  have c: "int8 116 = 116" by (simp add: int8_def)
  have "both_tables ''t:c:l:vh'' main_long_options ''check-config'' (CHR ''t'') required_argument"
    unfolding both_tables_def by code_simp
  from getopt_long_spelled [OF this assms(4), of "[]"]
  have opts: "getopt_long ''t:c:l:vh'' main_long_options args = ([(116, name)], Some (length args + 1))" by (simp add: add_result_def)
  obtain sc' where sc': "destroy_server_collection ?sc n = Some (sc', n)" "\<not> sc_initialized sc'"
    by (simp add: destroy_server_collection_def init_server_collection_def destroy_server_def init_server_def)
  have named: "config_file ?sc = Some name" "sc_initialized ?sc" using assms(1) by (simp_all add: init_server_collection_def)
  have cfg: "destroy_config r = Some ()"
  proof (cases r)
    case (Some c)
    then obtain evs where "parse_config (me_struct e) (me_list e) (me_address e) (me_yaml e) (me_parse e) evs = Some (Some c)"
      using assms(2) by (auto simp: load_config_def split: option.splits)
    from destroy_config_ok [OF parsed_rings [OF this]] assms(3) Some show ?thesis by simp
  qed (simp add: destroy_config_def)
  have log: "stats_log_end (stats_set_log_level STATSRELAY_LOG_INFO (m_log main_globals)) =
      Some (stats_set_log_level STATSRELAY_LOG_INFO (m_log main_globals))"
    by (simp add: stats_log_end_def stats_set_log_level_def main_globals_def log_start_def)
  show ?thesis using c sc' named cfg log assms(2)
    by (cases r) (simp_all add: main_start_def read_options_def opts main_end_def exits_def Let_def)
qed


section \<open>An example\<close>

text \<open>A file with one statsd shard, and addresses that can be bound.\<close>

definition example_addrs :: "bytes \<Rightarrow> bytes \<Rightarrow> addr_env list option" where
  "example_addrs host port = Some [good_addr 6]"

definition example_server_env :: server_env where
  "example_server_env =
     \<lparr>se_mem = True, se_ring = (\<lambda>_. Some []), se_rings = (\<lambda>_ _. Some []), se_make = (\<lambda>_. good_make), se_tcp = True,
      se_udp = True, se_tcp_copy = True, se_udp_copy = True, se_tcp_addrs = (\<lambda>_ _. Some [good_addr 5]), se_udp_addrs = example_addrs\<rparr>"

definition example_main_env :: main_env where
  "example_main_env =
     \<lparr>me_options = (\<lambda>_ _. Some []), me_default = (\<lambda>_. Some []), me_open = (\<lambda>_. Some (minimal_events ''h:1'')),
      me_struct = (\<lambda>_. Some []), me_list = (\<lambda>_. Some []), me_address = (\<lambda>_. Some []), me_yaml = True,
      me_parse = (\<lambda>_. (\<lambda>_. Some [], \<lambda>_. Some [])), me_carbon = example_server_env, me_statsd = example_server_env\<rparr>"

lemma example_env_ok: "main_env_ok example_main_env" "server_env_ok example_server_env"
  by (simp_all add: main_env_ok_def server_env_ok_def example_main_env_def example_server_env_def good_make_ok minimal_events_def)

lemma example_load: "load_config example_main_env (Some name) = Some (Some (minimal_config ''h:1''))"
  using parse_minimal [of "''h:1''"] by (simp add: load_config_def example_main_env_def)

lemma example_configured: "configured (statsd_config (minimal_config ''h:1'')) [''h:1'']"
  by (simp add: configured_def minimal_config_def slist_wf_def slist_elems_def)

lemma example_created:
  "\<exists>d. stats_server_create True (\<lambda>_. Some []) (\<lambda>_ _. Some []) (\<lambda>_. good_make) (statsd_config (minimal_config ''h:1'')) parser validator =
     Some (Some d)"
proof -
  let ?E = "\<lambda>_::nat. good_make" and ?A = "(\<lambda>_. Some []) :: allocator" and ?c = "statsd_config (minimal_config ''h:1'')"
  let ?s0 = "fresh_server ?c parser validator"
  have ok0: "pool_ok ?s0" by (simp add: fresh_server_def pool_ok_def)
  obtain p1 s1 where m1: "make_backend ?E ''h:1'' ?s0 = Some (Some p1, s1)"
    using make_backend_succeeds [OF ok0, of "''h:1''" "''h''" "''1''" "''tcp''" "''h:1:tcp''"]
    by (auto simp: split_backend_def cut_at_def)
  let ?lines = "\<lparr>allocated_size = 1, l_size = 1, l_data = Some [Some (Some ''h:1'')]\<rparr>"
  have new: "(hashring_init ?A :: nat hashring option) = Some \<lparr>backends = Some \<lparr>allocated_size = 0, l_size = 0, l_data = None\<rparr>\<rparr>"
    by (simp add: hashring_init_def statsrelay_list_new_def malloc_def)
  have push: "list_push ?A \<lparr>allocated_size = 0, l_size = 0, l_data = None\<rparr> p1 =
      Some (True, \<lparr>allocated_size = 1, l_size = 1, l_data = Some [Some p1]\<rparr>)"
    by (simp add: list_push_def statsrelay_list_expand_def malloc_def list_put_def resize_slots_def sz_sub_def Let_def)
  have get: "list_get ?lines 0 = Some (Some ''h:1'')" "l_size ?lines = 1" by (simp_all add: list_get_def)
  have ring: "pc_ring ?c = Some ?lines" by (simp add: minimal_config_def)
  have "hashring_load_from_config ?A (\<lambda>_. ?A) (make_backend ?E) kill_backend ?c ?s0 =
      Some (Some \<lparr>backends = Some \<lparr>allocated_size = 1, l_size = 1, l_data = Some [Some p1]\<rparr>\<rparr>, s1)"
    using m1 new push get ring
    by (simp add: hashring_load_from_config_def hashring_add_def
        load_from.simps [of _ _ _ _ 0] load_from.simps [of _ _ _ _ "Suc 0"])
  then show ?thesis by (simp add: stats_server_create_def)
qed

lemma example_connect:
  "\<exists>sv. connect_server example_server_env init_server (statsd_config (minimal_config ''h:1'')) protocol_parser_statsd validate_statsd
      \<lparr>net_open = {}, net_watch = {}\<rparr> = Some (True, sv, \<lparr>net_open = {5, 6}, net_watch = {5, 6}\<rparr>) \<and>
    sv_server sv \<noteq> None \<and> tcp_listeners sv = [tcp_made stats_connection_cb stats_recv_cb (good_addr 5)] \<and>
    udp_listeners sv = [udp_made stats_udp_recv_cb (good_addr 6)]"
proof -
  let ?c = "statsd_config (minimal_config ''h:1'')"
  obtain d where d: "stats_server_create True (\<lambda>_. Some []) (\<lambda>_ _. Some []) (\<lambda>_. good_make) ?c protocol_parser_statsd (Some validate_statsd) =
      Some (Some d)"
    using example_created by blast
  have ring: "pc_ring ?c = Some \<lparr>allocated_size = 1, l_size = 1, l_data = Some [Some (Some ''h:1'')]\<rparr>"
      "pc_bind ?c = Some ''127.0.0.1:8125''"
    by (simp_all add: minimal_config_def)
  have addr: "split_address ''127.0.0.1:8125'' = Some (''127.0.0.1'', ''8125'')" by (simp add: split_address_Some)
  have tcp: "tcpserver_bind True (\<lambda>_ _. Some [good_addr 5]) (Some ''127.0.0.1:8125'') stats_connection_cb stats_recv_cb \<lparr>t_listeners = []\<rparr>
      \<lparr>net_open = {}, net_watch = {}\<rparr> =
      Some (0, \<lparr>t_listeners = [tcp_made stats_connection_cb stats_recv_cb (good_addr 5)]\<rparr>, \<lparr>net_open = {5}, net_watch = {5}\<rparr>)"
    by (simp add: tcpserver_bind_def addr MAX_TCP_HANDLERS_def tcplistener_create_def a_ntop_iff good_addr_def tcp_made_def watch_def Let_def)
  have udp: "udpserver_bind True example_addrs (Some ''127.0.0.1:8125'') stats_udp_recv_cb \<lparr>u_listeners = []\<rparr>
      \<lparr>net_open = {5}, net_watch = {5}\<rparr> =
      Some (0, \<lparr>u_listeners = [udp_made stats_udp_recv_cb (good_addr 6)]\<rparr>, \<lparr>net_open = {5, 6}, net_watch = {5, 6}\<rparr>)"
    by (simp add: udpserver_bind_def addr example_addrs_def MAX_UDP_HANDLERS_def udplistener_create_def a_ntop_iff good_addr_def udp_made_def
        watch_def Let_def insert_commute)
  show ?thesis
    by (simp add: connect_server_def example_server_env_def d ring tcp udp tcpserver_create_def udpserver_create_def
        init_server_def tcp_listeners_def udp_listeners_def)
qed


lemma example_start:
  "\<exists>st. main_start example_main_env [] \<lparr>net_open = {}, net_watch = {}\<rparr> =
      Some (Loops st (minimal_config ''h:1'') \<lparr>net_open = {5, 6}, net_watch = {5, 6}\<rparr>) \<and>
    sv_server (statsd_server (m_servers st)) \<noteq> None \<and>
    tcp_listeners (statsd_server (m_servers st)) = [tcp_made stats_connection_cb stats_recv_cb (good_addr 5)] \<and>
    udp_listeners (statsd_server (m_servers st)) = [udp_made stats_udp_recv_cb (good_addr 6)]"
proof -
  obtain sv where sv: "connect_server example_server_env init_server (statsd_config (minimal_config ''h:1'')) protocol_parser_statsd
      validate_statsd \<lparr>net_open = {}, net_watch = {}\<rparr> = Some (True, sv, \<lparr>net_open = {5, 6}, net_watch = {5, 6}\<rparr>)"
      "sv_server sv \<noteq> None" "tcp_listeners sv = [tcp_made stats_connection_cb stats_recv_cb (good_addr 5)]"
      "udp_listeners sv = [udp_made stats_udp_recv_cb (good_addr 6)]"
    using example_connect by blast
  have carbon: "connect_server example_server_env init_server (carbon_config (minimal_config ''h:1'')) protocol_parser_carbon
      validate_carbon n = Some (False, init_server, n)" for n
    by (simp add: connect_server_def minimal_config_def)
  have env: "me_carbon example_main_env = example_server_env" "me_statsd example_main_env = example_server_env"
      "me_default example_main_env = (\<lambda>_. Some [])"
    by (simp_all add: example_main_env_def)
  have copied: "strdup (\<lambda>_. Some []) default_config = Some default_config" by (simp add: default_config_def)
  obtain d where d: "sv_server sv = Some d" using sv(2) by blast
  show ?thesis
    by (simp add: d main_start_def read_options_def main_globals_def init_server_collection_def copied env example_load connect_server_collection_def
        carbon sv Let_def)
qed

text \<open>A run in which a client connects to the statsd server and a datagram arrives.\<close>

lemma example_process:
  "\<exists>st p d q b. main_start example_main_env [] \<lparr>net_open = {}, net_watch = {}\<rparr> =
      Some (Loops st (minimal_config ''h:1'') \<lparr>net_open = {5, 6}, net_watch = {5, 6}\<rparr>) \<and>
    loop_step\<^sup>*\<^sup>* (process_start st \<lparr>net_open = {5, 6}, net_watch = {5, 6}\<rparr>) p \<and> \<not> pr_break p \<and>
    (\<exists>d1. pr_log p Statsd = datagram_log (CHR '':'') example_input d1) \<and>
    (\<exists>s c. ts_heap (proto_net p Statsd) 0 = Some s \<and> ts_sd s = 7 \<and> ts_ctx s = Some c \<and> read_fits (CHR '':'') example_read c) \<and>
    7 \<in> net_watch (pr_net p) \<and> tcp_listeners (statsd_server (m_servers (pr_main p))) = [tcp_made stats_connection_cb stats_recv_cb (good_addr 5)] \<and>
    udp_listeners (statsd_server (m_servers (pr_main p))) = [udp_made stats_udp_recv_cb (good_addr 6)] \<and>
    sv_server (proto_server Statsd (m_servers (pr_main p))) = Some d \<and> s_backends d q = Some b"
proof -
  let ?n = "\<lparr>net_open = {5, 6}, net_watch = {5, 6}\<rparr> :: net" and ?cfg = "minimal_config ''h:1''"
  let ?l = "tcp_made stats_connection_cb stats_recv_cb (good_addr 5)" and ?u = "udp_made stats_udp_recv_cb (good_addr 6)"
  obtain st where st: "main_start example_main_env [] \<lparr>net_open = {}, net_watch = {}\<rparr> = Some (Loops st ?cfg ?n)"
      "tcp_listeners (statsd_server (m_servers st)) = [?l]" "udp_listeners (statsd_server (m_servers st)) = [?u]"
    and en: "sv_server (statsd_server (m_servers st)) \<noteq> None"
    using example_start by blast
  let ?sv = "proto_server Statsd (m_servers st)" and ?start = "process_start st ?n"
  have net: "net_ok \<lparr>net_open = {}, net_watch = {}\<rparr>" by (simp add: net_ok_def)
  note up = main_start_sets_up(1) [OF example_env_ok(1) net st(1)]
  have set_up: "set_up Statsd ?cfg ?sv" using up unfolding process_starts_def by blast
  then obtain e n1 n2 ok ls where c: "server_env_ok e" "configured (get_section ?cfg Statsd) ls" "net_ok n1"
      "connect_server e init_server (get_section ?cfg Statsd) (proto_parser Statsd) (proto_validator Statsd) n1 = Some (ok, ?sv, n2)"
    unfolding set_up_def by blast
  obtain d0 where d0: "sv_server ?sv = Some d0" using en by auto
  note front = connected_front [OF c(1,2) proto_protocol c(3,4) d0]
  have sv0: "serving (CHR '':'') statsd_line d0" using set_up_ok(3) [OF set_up d0] by simp
  obtain q b0 where b0: "s_backends d0 q = Some b0" using front(4) [of "''a''"] by auto
  have cbs: "relay_listeners [?l] [?u]" "ul_cb_recv ?u = stats_udp_recv_cb" "tl_sd ?l = 5" "ul_sd ?u = 6"
    by (simp_all add: relay_listeners_def tcp_made_def udp_made_def good_addr_def)
  obtain c1 d1 m where acc: "stats_connection_cb example_input 7 d0 = (Some c1, d1)" "serving (CHR '':'') statsd_line d1"
      "front_step (CHR '':'') [?l] [?u] ((d0, with_sessions ?n (Map.empty, 0)), []) ((d1, m), [])"
      "m = \<lparr>net_open = {5, 6, 7}, net_watch = {5, 6, 7}, ts_heap = [0 \<mapsto> \<lparr>ts_sd = 7, ts_cb_recv = Some stats_recv_cb, ts_ctx = Some c1\<rparr>],
        ts_next = 1\<rparr>"
    using example_accept [OF sv0 _ cbs(1), of ?l "with_sessions ?n (Map.empty, 0)" "[]"] cbs(3)
    by (auto simp: with_sessions_def insert_commute)
  have first: "\<not> pr_break ?start" "?sv = proto_server Statsd (m_servers (pr_main ?start))"
      "front_step (proto_delim Statsd) (tcp_listeners ?sv) (udp_listeners ?sv)
        ((d0, with_sessions (pr_net ?start) (pr_sessions ?start Statsd)), pr_log ?start Statsd) ((d1, m), [])"
    using acc(3) st(2,3) by (simp_all add: process_start_def)
  from loop_step.turn [OF first(1,2) d0 first(3)] obtain p where p: "loop_step ?start p" "\<not> pr_break p"
      "proto_server Statsd (m_servers (pr_main p)) = ?sv\<lparr>sv_server := Some d1\<rparr>"
      "with_sessions (pr_net p) (pr_sessions p Statsd) = m" "pr_log p Statsd = []"
    by (auto simp: process_start_def with_sessions_def)
  from udp_callback_returns [OF acc(2) example_datagram cbs(2), of False "[]"] obtain d where
    d: "udplistener_recv_callback False example_input ?u d1 = Some d" by blast
  let ?new = "?sv\<lparr>sv_server := Some d1\<rparr>"
  have "front_step (CHR '':'') [?l] [?u] ((d1, m), []) ((d, m), [] @ (if False then [] else datagram_log (CHR '':'') example_input d1))"
    using cbs(4) example_datagram d acc(4) by (intro fs_datagram [where u = ?u]) simp_all
  then have second: "front_step (proto_delim Statsd) (tcp_listeners ?new) (udp_listeners ?new)
      ((d1, with_sessions (pr_net p) (pr_sessions p Statsd)), pr_log p Statsd) ((d, m), datagram_log (CHR '':'') example_input d1)"
    using st(2,3) p(4,5) by (simp add: tcp_listeners_def udp_listeners_def)
  have "sv_server ?new = Some d1" by simp
  from loop_step.turn [OF p(2) p(3) [symmetric] this second] obtain p' where p': "loop_step p p'" "\<not> pr_break p'"
      "pr_log p' Statsd = datagram_log (CHR '':'') example_input d1" "proto_net p' Statsd = m" "net_watch (pr_net p') = net_watch m"
      "proto_server Statsd (m_servers (pr_main p')) = ?new\<lparr>sv_server := Some d\<rparr>"
    using p(2) by (auto simp: proto_net_def with_sessions_def)
  have run: "loop_step\<^sup>*\<^sup>* ?start p'" using p(1) p'(1) by (meson r_into_rtranclp rtranclp.rtrancl_into_rtrancl)
  have "server_runs Statsd ?sv (proto_server Statsd (m_servers (pr_main p'))) (pr_sessions p' Statsd) (pr_log p' Statsd)"
    using process_invariant [OF up run] p'(2) unfolding process_inv_def by blast
  then have "(relay_step (CHR '':''))\<^sup>*\<^sup>* (d0, []) (d, pr_log p' Statsd)" using d0 unfolding p'(6) by (auto simp: server_runs_def)
  moreover have "relay_start (CHR '':'') statsd_line d0 (d0, [])" using sv0 front(2) by (simp add: relay_start_def)
  ultimately have "relay_inv (CHR '':'') statsd_line d0 (d, pr_log p' Statsd)" by (blast intro: relay_run.reachable_inv)
  then have "map_option bk_key (s_backends d q) = map_option bk_key (s_backends d0 q)" by (simp add: relay_inv_def same_routes_def)
  then obtain b where b: "s_backends d q = Some b" using b0 by auto
  have "\<exists>s c. ts_heap (proto_net p' Statsd) 0 = Some s \<and> ts_sd s = 7 \<and> ts_ctx s = Some c \<and> read_fits (CHR '':'') example_read c"
      "7 \<in> net_watch (pr_net p')"
    using p'(4,5) acc(4) example_read_fits [OF acc(1)] by simp_all
  moreover have "tcp_listeners (statsd_server (m_servers (pr_main p'))) = [?l]" "udp_listeners (statsd_server (m_servers (pr_main p'))) = [?u]"
      "sv_server (proto_server Statsd (m_servers (pr_main p'))) = Some d"
    using p'(6) st(2,3) by (simp_all add: tcp_listeners_def udp_listeners_def)
  ultimately show ?thesis using st(1) run p'(2,3) b by blast
qed

theorem process_relays_witness:
  "\<exists>st p d q b d0. main_start example_main_env [] \<lparr>net_open = {}, net_watch = {}\<rparr> =
      Some (Loops st (minimal_config ''h:1'') \<lparr>net_open = {5, 6}, net_watch = {5, 6}\<rparr>) \<and>
    loop_step\<^sup>*\<^sup>* (process_start st \<lparr>net_open = {5, 6}, net_watch = {5, 6}\<rparr>) p \<and>
    pr_log p Statsd = datagram_log (CHR '':'') example_input d0 \<and>
    sv_server (statsd_server (m_servers (pr_main p))) = Some d \<and> s_backends d q = Some b \<and>
    sent_bytes (c_trace (bk_client b)) @ buffer_data (c_queue (bk_client b)) =
      routed (CHR '':'') [''h:1''] (bk_key b) (map snd (datagram_log (CHR '':'') example_input d0))"
proof -
  obtain st p d q b d0 where r: "main_start example_main_env [] \<lparr>net_open = {}, net_watch = {}\<rparr> =
      Some (Loops st (minimal_config ''h:1'') \<lparr>net_open = {5, 6}, net_watch = {5, 6}\<rparr>)"
      "loop_step\<^sup>*\<^sup>* (process_start st \<lparr>net_open = {5, 6}, net_watch = {5, 6}\<rparr>) p" "\<not> pr_break p"
      "sv_server (proto_server Statsd (m_servers (pr_main p))) = Some d" "s_backends d q = Some b"
      "pr_log p Statsd = datagram_log (CHR '':'') example_input d0"
    using example_process by blast
  have net: "net_ok \<lparr>net_open = {}, net_watch = {}\<rparr>" by (simp add: net_ok_def)
  have conf: "configured (get_section (minimal_config ''h:1'') Statsd) [''h:1'']" using example_configured by simp
  from process_relays [OF example_env_ok(1) net r(1) conf r(2-5)] r show ?thesis
    by (intro exI [of _ st] exI [of _ p] exI [of _ d] exI [of _ q] exI [of _ b] exI [of _ d0]) simp
qed

theorem process_shuts_down_witness:
  "\<exists>st p p' st'. main_start example_main_env [] \<lparr>net_open = {}, net_watch = {}\<rparr> =
      Some (Loops st (minimal_config ''h:1'') \<lparr>net_open = {5, 6}, net_watch = {5, 6}\<rparr>) \<and>
    loop_step\<^sup>*\<^sup>* (process_start st \<lparr>net_open = {5, 6}, net_watch = {5, 6}\<rparr>) p \<and>
    graceful_shutdown p = Some p' \<and> main_end 0 (Some (minimal_config ''h:1'')) (pr_main p') (pr_net p') = Some (0, st', pr_net p')"
proof -
  obtain st p where r: "main_start example_main_env [] \<lparr>net_open = {}, net_watch = {}\<rparr> =
      Some (Loops st (minimal_config ''h:1'') \<lparr>net_open = {5, 6}, net_watch = {5, 6}\<rparr>)"
      "loop_step\<^sup>*\<^sup>* (process_start st \<lparr>net_open = {5, 6}, net_watch = {5, 6}\<rparr>) p" "\<not> pr_break p"
    using example_process by blast
  have net: "net_ok \<lparr>net_open = {}, net_watch = {}\<rparr>" by (simp add: net_ok_def)
  obtain p' st' where "graceful_shutdown p = Some p'"
      "main_end 0 (Some (minimal_config ''h:1'')) (pr_main p') (pr_net p') = Some (0, st', pr_net p')"
    using process_shuts_down [OF example_env_ok(1) net r] by (elim exE conjE)
  with r(1,2) show ?thesis by blast
qed

theorem process_never_undefined_witness:
  "\<exists>st p d d' d'' m. main_start example_main_env [] \<lparr>net_open = {}, net_watch = {}\<rparr> =
      Some (Loops st (minimal_config ''h:1'') \<lparr>net_open = {5, 6}, net_watch = {5, 6}\<rparr>) \<and>
    loop_step\<^sup>*\<^sup>* (process_start st \<lparr>net_open = {5, 6}, net_watch = {5, 6}\<rparr>) p \<and>
    sv_server (statsd_server (m_servers (pr_main p))) = Some d \<and>
    tcpsession_recv_callback False example_read (Some 0) d (proto_net p Statsd) = Some (d', m) \<and>
    udplistener_recv_callback False example_input (udp_made stats_udp_recv_cb (good_addr 6)) d = Some d''"
proof -
  obtain st p d s c where r: "main_start example_main_env [] \<lparr>net_open = {}, net_watch = {}\<rparr> =
      Some (Loops st (minimal_config ''h:1'') \<lparr>net_open = {5, 6}, net_watch = {5, 6}\<rparr>)"
      "loop_step\<^sup>*\<^sup>* (process_start st \<lparr>net_open = {5, 6}, net_watch = {5, 6}\<rparr>) p" "\<not> pr_break p"
      "sv_server (proto_server Statsd (m_servers (pr_main p))) = Some d"
    and s: "ts_heap (proto_net p Statsd) 0 = Some s" "ts_sd s = 7" "7 \<in> net_watch (pr_net p)" "ts_ctx s = Some c"
      "read_fits (CHR '':'') example_read c"
    and u: "udp_listeners (statsd_server (m_servers (pr_main p))) = [udp_made stats_udp_recv_cb (good_addr 6)]"
    using example_process by blast
  have net: "net_ok \<lparr>net_open = {}, net_watch = {}\<rparr>" by (simp add: net_ok_def)
  note ret = process_never_undefined [OF example_env_ok(1) net r]
  have "ts_sd s \<in> net_watch (proto_net p Statsd)" using s(2,3) by (simp add: proto_net_def with_sessions_def)
  then obtain d' m where 1: "tcpsession_recv_callback False example_read (Some 0) d (proto_net p Statsd) = Some (d', m)"
    using ret s(1,4,5) by (metis proto_delim.simps(1))
  obtain d'' where 2: "udplistener_recv_callback False example_input (udp_made stats_udp_recv_cb (good_addr 6)) d = Some d''"
    using ret u example_datagram by (metis list.set_intros(1) proto_delim.simps(1) proto_server.simps(1))
  from r 1 2 show ?thesis by (metis proto_server.simps(1))
qed


theorem sighup_is_ignored_witness:
  "\<exists>st p. main_start example_main_env [] \<lparr>net_open = {}, net_watch = {}\<rparr> =
      Some (Loops st (minimal_config ''h:1'') \<lparr>net_open = {5, 6}, net_watch = {5, 6}\<rparr>) \<and>
    loop_step\<^sup>*\<^sup>* (process_start st \<lparr>net_open = {5, 6}, net_watch = {5, 6}\<rparr>) p \<and> reload_config 5 p = Some p"
proof -
  obtain st p where r: "main_start example_main_env [] \<lparr>net_open = {}, net_watch = {}\<rparr> =
      Some (Loops st (minimal_config ''h:1'') \<lparr>net_open = {5, 6}, net_watch = {5, 6}\<rparr>)"
      "loop_step\<^sup>*\<^sup>* (process_start st \<lparr>net_open = {5, 6}, net_watch = {5, 6}\<rparr>) p"
    using example_process by blast
  have net: "net_ok \<lparr>net_open = {}, net_watch = {}\<rparr>" by (simp add: net_ok_def)
  from sighup_is_ignored [OF example_env_ok(1) net r] r show ?thesis by blast
qed

theorem main_checks_config_witness:
  "\<exists>st. main_start example_main_env [''--check-config=f''] \<lparr>net_open = {}, net_watch = {}\<rparr> =
    Some (Exits 0 st \<lparr>net_open = {}, net_watch = {}\<rparr>)"
proof -
  have copied: "strdup (me_options example_main_env 0) ''f'' = Some ''f''" by (simp add: example_main_env_def)
  have "\<forall>cfg. Some (minimal_config ''h:1'') = Some cfg \<longrightarrow> pc_ring (statsd_config cfg) \<noteq> None \<and> pc_ring (carbon_config cfg) \<noteq> None"
    by (simp add: minimal_config_def)
  moreover have "[''--check-config=f''] \<in> spellings ''check-config'' (CHR ''t'') ''f''" by (simp add: spellings_def)
  ultimately show ?thesis using main_checks_config [OF copied example_load, of _ "\<lparr>net_open = {}, net_watch = {}\<rparr>"] by fastforce
qed


end
